(* ===== verification/Dicon_Prelude.thy ===== *)
theory Dicon_Prelude
  imports Main "HOL-Library.Word"
begin

text \<open>
  The prelude of the DiCoN development: the machine types of the C sources (x86-64, little
  endian, 32-bit \<open>int\<close>, 64-bit pointers and \<open>size_t\<close>), the faults of a C program as values of a
  sum type with its sequencing operator, little-endian byte images of integers, and the generic
  list facts that the component theories share.
\<close>

section \<open>Machine types\<close>

type_synonym byte = "8 word"
type_synonym u16 = "16 word"
type_synonym u32 = "32 word"
type_synonym u64 = "64 word"

text \<open>A C \<open>int\<close> is a 32-bit word read with \<^const>\<open>sint\<close>; where C converts it to \<open>size_t\<close> it is
  sign-extended to 64 bits.\<close>

type_synonym c_int = "32 word"

definition size_of_int :: "c_int \<Rightarrow> nat" where
  "size_of_int n = unat (scast n :: u64)"

definition c_minus1 :: c_int where
  "c_minus1 = - 1"

section \<open>Faults and sequencing\<close>

text \<open>
  What can end a call other than returning: a null dereference, an access outside every object of
  the process, a bad \<open>free\<close>, a bad thread or library handle, an exhausted stack, a \<open>SIGPIPE\<close>, a division by zero, a call of \<open>exit\<close>, and a
  call that waits for input that is not there.
\<close>

datatype fault =
    NullDeref
  | OutOfBounds
  | InvalidFree
  | BadHandle
  | BadThread
  | StackOverflow
  | SigPipe
  | DivisionByZero
  | Exited int
  | Blocked

type_synonym 'a res = "fault + 'a"

named_theorems res_simps \<open>rewriting of sequenced calls\<close>
named_theorems mem_simps \<open>rewriting of loads, stores, allocation and release\<close>
named_theorems codec_simps \<open>layouts of the packed structures\<close>

fun bindR :: "'a res \<Rightarrow> ('a \<Rightarrow> 'b res) \<Rightarrow> 'b res" where
  "bindR (Inl e) f = Inl e"
| "bindR (Inr x) f = f x"

lemma bindR_cong [fundef_cong]:
  "m = m' \<Longrightarrow> (\<And>x. m' = Inr x \<Longrightarrow> f x = f' x) \<Longrightarrow> bindR m f = bindR m' f'"
  by (cases m') auto

lemma bindR_Inr_iff [res_simps]:
  "bindR m f = Inr y \<longleftrightarrow> (\<exists>x. m = Inr x \<and> f x = Inr y)"
  by (cases m) auto

lemma bindR_Inl_iff:
  "bindR m f = Inl e \<longleftrightarrow> m = Inl e \<or> (\<exists>x. m = Inr x \<and> f x = Inl e)"
  by (cases m) auto

lemma bindR_assoc: "bindR (bindR m f) g = bindR m (\<lambda>x. bindR (f x) g)"
  by (cases m) auto

lemma bindR_InrE:
  assumes "bindR m f = Inr y"
  obtains x where "m = Inr x" "f x = Inr y"
  using assms by (auto simp: bindR_Inr_iff)

text \<open>A call that may also run forever, which is \<open>None\<close>.\<close>

definition bindO :: "'a res option \<Rightarrow> ('a \<Rightarrow> 'b res option) \<Rightarrow> 'b res option" where
  "bindO m f = (case m of None \<Rightarrow> None | Some (Inl e) \<Rightarrow> Some (Inl e) | Some (Inr x) \<Rightarrow> f x)"

lemma bindO_simps [simp]:
  "bindO None f = None" "bindO (Some (Inl e)) f = Some (Inl e)" "bindO (Some (Inr x)) f = f x"
  by (simp_all add: bindO_def)

text \<open>\<open>yields P r\<close>: \<open>P\<close> holds of the result of \<open>r\<close> unless \<open>r\<close> is a fault.\<close>

definition yields :: "('a \<Rightarrow> bool) \<Rightarrow> 'a res \<Rightarrow> bool" where
  "yields P r \<longleftrightarrow> (\<forall>x. r = Inr x \<longrightarrow> P x)"

named_theorems yields_rules \<open>rules for the results of sequenced calls\<close>

lemma yields_Inr [yields_rules]: "P x \<Longrightarrow> yields P (Inr x)"
  by (simp add: yields_def)

lemma yields_Inl [yields_rules]: "yields P (Inl e)"
  by (simp add: yields_def)

lemma yields_if [yields_rules]: "(b \<Longrightarrow> yields P r) \<Longrightarrow> (\<not> b \<Longrightarrow> yields P q) \<Longrightarrow> yields P (if b then r else q)"
  by simp

lemma yields_bind: "yields Q r \<Longrightarrow> (\<And>x. Q x \<Longrightarrow> yields P (f x)) \<Longrightarrow> yields P (bindR r f)"
  by (auto simp: yields_def res_simps)

lemma yields_bind_eq: "(\<And>x. r = Inr x \<Longrightarrow> yields P (f x)) \<Longrightarrow> yields P (bindR r f)"
  by (auto simp: yields_def res_simps)

section \<open>Byte images of integers\<close>

fun le_bytes :: "nat \<Rightarrow> nat \<Rightarrow> byte list" where
  "le_bytes 0 v = []"
| "le_bytes (Suc k) v = word_of_nat (v mod 256) # le_bytes k (v div 256)"

fun le_value :: "byte list \<Rightarrow> nat" where
  "le_value [] = 0"
| "le_value (b # bs) = unat b + 256 * le_value bs"

lemma le_bytes_numeral:
  "le_bytes (numeral k) v = word_of_nat (v mod 256) # le_bytes (pred_numeral k) (v div 256)"
  by (subst numeral_eq_Suc) simp

lemma length_le_bytes [simp]: "length (le_bytes k v) = k"
  by (induction k arbitrary: v) auto

lemma le_bytes_eq_Nil [simp]: "le_bytes k v = [] \<longleftrightarrow> k = 0"
  by (cases k) auto

lemma unat_byte_of_nat: "unat (word_of_nat v :: byte) = v mod 256"
  by (simp add: unat_of_nat)

lemma le_value_le_bytes: "le_value (le_bytes k v) = v mod 256 ^ k"
proof (induction k arbitrary: v)
  case 0
  then show ?case by simp
next
  case (Suc k)
  have "v mod 256 ^ Suc k = v mod 256 + 256 * (v div 256 mod 256 ^ k)"
    using mod_mult2_eq [of v 256 "256 ^ k"] by simp
  with Suc show ?case by (simp add: unat_byte_of_nat)
qed

lemma le_value_bound: "le_value bs < 256 ^ length bs"
proof (induction bs)
  case Nil
  then show ?case by simp
next
  case (Cons b bs)
  have "unat b < 256" using unsigned_less [of b] by simp
  with Cons show ?case by simp
qed

lemma le_bytes_le_value: "le_bytes (length bs) (le_value bs) = bs"
proof (induction bs)
  case Nil
  then show ?case by simp
next
  case (Cons b bs)
  have "unat b < 256" using unsigned_less [of b] by simp
  with Cons show ?case by simp
qed

text \<open>Integers of each width as they lie in memory.\<close>

definition enc_word :: "nat \<Rightarrow> 'a::len word \<Rightarrow> byte list" where
  "enc_word k w = le_bytes k (unat w)"

definition dec_word :: "nat \<Rightarrow> byte list \<Rightarrow> 'a::len word" where
  "dec_word k bs = word_of_nat (le_value (take k bs))"

lemma length_enc_word [simp]: "length (enc_word k w) = k"
  by (simp add: enc_word_def)

lemma enc_word_Nil_iff [simp]: "enc_word k w = [] \<longleftrightarrow> k = 0"
  by (simp add: enc_word_def)

lemma dec_enc_word:
  fixes w :: "'a::len word"
  assumes "LENGTH('a) = 8 * k"
  shows "dec_word k (enc_word k w @ rest) = w"
proof -
  have "unat w < 2 ^ LENGTH('a)" by (rule unsigned_less)
  also have "(2::nat) ^ LENGTH('a) = 256 ^ k"
    using assms power_mult [of "2::nat" 8 k] by simp
  finally have "unat w mod 256 ^ k = unat w" by simp
  then show ?thesis
    by (simp add: enc_word_def dec_word_def le_value_le_bytes)
qed

lemma dec_enc_u16 [simp]: "dec_word 2 (enc_word 2 (w :: u16) @ r) = w"
  by (rule dec_enc_word) simp

lemma dec_enc_u32 [simp]: "dec_word 4 (enc_word 4 (w :: u32) @ r) = w"
  by (rule dec_enc_word) simp

lemma dec_enc_u64 [simp]: "dec_word 8 (enc_word 8 (w :: u64) @ r) = w"
  by (rule dec_enc_word) simp

lemma dec_enc_u8 [simp]: "dec_word (Suc 0) (enc_word (Suc 0) (w :: byte) @ r) = w"
  by (rule dec_enc_word) simp

lemma dec_enc_u96 [simp]: "dec_word 12 (enc_word 12 (w :: 96 word) @ r) = w"
  by (rule dec_enc_word) simp

lemmas dec_enc_exact [simp] =
  dec_enc_u16 [where r = "[]", simplified] dec_enc_u32 [where r = "[]", simplified]
  dec_enc_u64 [where r = "[]", simplified] dec_enc_u8 [where r = "[]", simplified]
  dec_enc_u96 [where r = "[]", simplified]

lemma dec_word_take [simp]: "k \<le> n \<Longrightarrow> dec_word k (take n bs) = dec_word k bs"
  by (simp add: dec_word_def min_absorb1)

lemma enc_dec_word:
  assumes "length bs = k" "LENGTH('a::len) = 8 * k"
  shows "enc_word k (dec_word k bs :: 'a word) = bs"
proof -
  have "le_value bs < 2 ^ LENGTH('a)"
    using le_value_bound [of bs] assms power_mult [of "2::nat" 8 k] by simp
  then have "unat (word_of_nat (le_value bs) :: 'a word) = le_value bs"
    by (simp add: unat_of_nat)
  with assms show ?thesis
    using le_bytes_le_value [of bs] by (simp add: enc_word_def dec_word_def)
qed

section \<open>C strings\<close>

text \<open>Text as the bytes the program handles; \<open>bytes_of\<close> is the image of a literal without its
  terminating null byte.\<close>

definition bytes_of :: "string \<Rightarrow> byte list" where
  "bytes_of s = map (\<lambda>c. of_char c) s"

text \<open>The bytes of the string that starts a buffer, or \<open>None\<close> when no null byte ends it.\<close>

fun c_string :: "byte list \<Rightarrow> byte list option" where
  "c_string [] = None"
| "c_string (b # bs) = (if b = 0 then Some [] else map_option ((#) b) (c_string bs))"

lemma c_string_append [simp]: "0 \<notin> set s \<Longrightarrow> c_string (s @ 0 # rest) = Some s"
  by (induction s) auto

lemma c_string_None_iff: "c_string bs = None \<longleftrightarrow> 0 \<notin> set bs"
  by (induction bs) auto

lemma c_string_no_null: "c_string bs = Some s \<Longrightarrow> 0 \<notin> set s"
  by (induction bs arbitrary: s) (auto split: if_splits)

section \<open>Patching a byte list\<close>

definition patch :: "byte list \<Rightarrow> nat \<Rightarrow> byte list \<Rightarrow> byte list" where
  "patch bs k v = take k bs @ v @ drop (k + length v) bs"

lemma length_patch [simp]: "k + length v \<le> length bs \<Longrightarrow> length (patch bs k v) = length bs"
  by (simp add: patch_def)

lemma patch_Nil [simp]: "patch bs k [] = bs"
  by (simp add: patch_def)

lemma patch_whole: "length v = length bs \<Longrightarrow> patch bs 0 v = v"
  by (simp add: patch_def)

lemma take_drop_patch_same:
  "k + length v \<le> length bs \<Longrightarrow> take (length v) (drop k (patch bs k v)) = v"
  by (simp add: patch_def)

lemma take_patch_before:
  "i + n \<le> k \<Longrightarrow> k + length v \<le> length bs \<Longrightarrow>
    take n (drop i (patch bs k v)) = take n (drop i bs)"
  by (rule nth_equalityI) (auto simp: patch_def nth_append)

lemma take_patch_after:
  assumes "k + length v \<le> i" "k + length v \<le> length bs"
  shows "take n (drop i (patch bs k v)) = take n (drop i bs)"
  using assms by (simp add: patch_def)

lemma patch_append_adjacent:
  assumes "k + length v + length w \<le> length bs"
  shows "patch (patch bs k v) (k + length v) w = patch bs k (v @ w)"
  using assms by (simp add: patch_def ac_simps)

text \<open>A non-negative C \<open>int\<close> keeps its value when it becomes a \<open>size_t\<close>.\<close>

lemma sint_small:
  fixes n :: c_int
  assumes "unat n < 2 ^ 31"
  shows "sint n = int (unat n)"
proof -
  have u: "uint n = int (unat n)" by simp
  have "- (2 ^ 31) \<le> int (unat n)" by (rule order_trans [of _ 0]) simp_all
  moreover have "int (unat n) < int (2 ^ 31)" using assms by (rule iffD2 [OF of_nat_less_iff])
  then have "int (unat n) < 2 ^ 31" by (simp only: of_nat_power of_nat_numeral)
  ultimately have "signed_take_bit 31 (uint n) = uint n"
    unfolding u by (rule signed_take_bit_int_eq_self)
  then show ?thesis by (simp add: sint_uint)
qed

lemma size_of_int_small:
  assumes "unat n < 2 ^ 31"
  shows "size_of_int n = unat n"
proof -
  have "(scast n :: u64) = ucast n" by (simp add: scast_eq sint_small [OF assms])
  moreover have "unat n < 2 ^ 64" using assms by simp
  ultimately show ?thesis by (simp add: size_of_int_def unsigned_ucast_eq take_bit_nat_eq_self)
qed

lemma size_of_int_nat: "n < 2 ^ 31 \<Longrightarrow> size_of_int (word_of_nat n) = n"
  by (subst size_of_int_small) (simp_all add: unat_of_nat)

end
