(* ===== verification/C_Memory.thy ===== *)
theory C_Memory
  imports Dicon_Prelude
begin

text \<open>
  The memory of one process, as the C library gives it to the sources: a list of live objects
  (base address and storage) and the answers the allocator will give. \<open>malloc\<close> may place an object
  anywhere that is free, may hand out more storage than was asked for, leaves arbitrary bytes in it,
  and may fail: each answer is one element of \<open>choices\<close>, so a statement about all states covers
  every allocator. Loads and stores outside the storage of every live object are faults.

  The list of objects is abstracted by \<open>heap_of\<close>, a partial function from base addresses to their
  storage; every operation is shown to act on it as the corresponding map update, and the rest of
  the development reasons with those equations only.
\<close>

section \<open>Objects and the operations of the C library\<close>

record mem =
  blocks :: "(nat \<times> byte list) list"
  choices :: "(nat \<times> byte list) list"

fun apart :: "nat \<times> byte list \<Rightarrow> nat \<times> byte list \<Rightarrow> bool" where
  "apart (a, bs) (b, cs) \<longleftrightarrow> a + length bs \<le> b \<or> b + length cs \<le> a"

fun usable :: "(nat \<times> byte list) list \<Rightarrow> nat \<Rightarrow> nat \<times> byte list \<Rightarrow> bool" where
  "usable B n (a, bs) \<longleftrightarrow> 0 < a \<and> bs \<noteq> [] \<and> n \<le> length bs \<and> a + length bs \<le> 2 ^ 64 \<and>
     list_all (apart (a, bs)) B"

fun rd :: "(nat \<times> byte list) list \<Rightarrow> nat \<Rightarrow> nat \<Rightarrow> byte list option" where
  "rd [] p n = None"
| "rd ((a, bs) # B) p n =
     (if a \<le> p \<and> p + n \<le> a + length bs then Some (take n (drop (p - a) bs)) else rd B p n)"

fun wr :: "(nat \<times> byte list) list \<Rightarrow> nat \<Rightarrow> byte list \<Rightarrow> (nat \<times> byte list) list option" where
  "wr [] p v = None"
| "wr ((a, bs) # B) p v =
     (if a \<le> p \<and> p + length v \<le> a + length bs then Some ((a, patch bs (p - a) v) # B)
      else map_option ((#) (a, bs)) (wr B p v))"

definition c_malloc :: "nat \<Rightarrow> 'a mem_scheme \<Rightarrow> nat \<times> 'a mem_scheme" where
  "c_malloc n m =
     (case choices m of
        [] \<Rightarrow> (0, m)
      | c # cs \<Rightarrow>
          (if usable (blocks m) n c
           then (fst c, m\<lparr>blocks := c # blocks m, choices := cs\<rparr>)
           else (0, m\<lparr>choices := cs\<rparr>)))"

text \<open>Automatic objects (locals whose address is taken) take their place from the same list and are
  dropped when the function returns.\<close>

definition c_alloca :: "nat \<Rightarrow> 'a mem_scheme \<Rightarrow> (nat \<times> 'a mem_scheme) res" where
  "c_alloca n m = (let (p, m') = c_malloc n m in if p = 0 then Inl StackOverflow else Inr (p, m'))"

definition drop_block :: "nat \<Rightarrow> (nat \<times> byte list) list \<Rightarrow> (nat \<times> byte list) list" where
  "drop_block a B = filter (\<lambda>c. fst c \<noteq> a) B"

definition c_free :: "nat \<Rightarrow> 'a mem_scheme \<Rightarrow> 'a mem_scheme res" where
  "c_free p m =
     (if p = 0 then Inr m
      else case map_of (blocks m) p of
             None \<Rightarrow> Inl InvalidFree
           | Some _ \<Rightarrow> Inr (m\<lparr>blocks := drop_block p (blocks m)\<rparr>))"

text \<open>\<open>realloc\<close> may grow the object in place, so the new object need only be apart from the others;
  with size 0 the C library of the target system frees the object and returns null.\<close>

definition c_realloc :: "nat \<Rightarrow> nat \<Rightarrow> 'a mem_scheme \<Rightarrow> (nat \<times> 'a mem_scheme) res" where
  "c_realloc p n m =
     (if p = 0 then Inr (c_malloc n m)
      else case map_of (blocks m) p of
             None \<Rightarrow> Inl InvalidFree
           | Some old \<Rightarrow>
               (if n = 0 then Inr (0, m\<lparr>blocks := drop_block p (blocks m)\<rparr>)
                else case choices m of
                       [] \<Rightarrow> Inr (0, m)
                     | (a, bs) # cs \<Rightarrow>
                         (if usable (drop_block p (blocks m)) n (a, bs)
                          then Inr (a, m\<lparr>blocks := (a, patch bs 0 (take n old)) # drop_block p (blocks m),
                                         choices := cs\<rparr>)
                          else Inr (0, m\<lparr>choices := cs\<rparr>))))"

definition load :: "nat \<Rightarrow> nat \<Rightarrow> 'a mem_scheme \<Rightarrow> byte list res" where
  "load p n m =
     (if n = 0 then Inr []
      else if p = 0 then Inl NullDeref
      else case rd (blocks m) p n of None \<Rightarrow> Inl OutOfBounds | Some v \<Rightarrow> Inr v)"

definition store :: "nat \<Rightarrow> byte list \<Rightarrow> 'a mem_scheme \<Rightarrow> 'a mem_scheme res" where
  "store p v m =
     (if v = [] then Inr m
      else if p = 0 then Inl NullDeref
      else case wr (blocks m) p v of None \<Rightarrow> Inl OutOfBounds | Some B \<Rightarrow> Inr (m\<lparr>blocks := B\<rparr>))"

definition c_memcpy :: "nat \<Rightarrow> nat \<Rightarrow> nat \<Rightarrow> 'a mem_scheme \<Rightarrow> 'a mem_scheme res" where
  "c_memcpy dst src n m = bindR (load src n m) (\<lambda>v. store dst v m)"

text \<open>Reading a null-terminated string: it must end inside the object that holds its start.\<close>

fun rd_str :: "(nat \<times> byte list) list \<Rightarrow> nat \<Rightarrow> byte list option" where
  "rd_str [] p = None"
| "rd_str ((a, bs) # B) p =
     (if a \<le> p \<and> p < a + length bs then c_string (drop (p - a) bs) else rd_str B p)"

definition load_str :: "nat \<Rightarrow> 'a mem_scheme \<Rightarrow> byte list res" where
  "load_str p m =
     (if p = 0 then Inl NullDeref
      else case rd_str (blocks m) p of None \<Rightarrow> Inl OutOfBounds | Some s \<Rightarrow> Inr s)"

definition load_word :: "nat \<Rightarrow> nat \<Rightarrow> 'a mem_scheme \<Rightarrow> 'w::len word res" where
  "load_word k p m = bindR (load p k m) (\<lambda>v. Inr (dec_word k v))"

definition store_word :: "nat \<Rightarrow> nat \<Rightarrow> 'w::len word \<Rightarrow> 'a mem_scheme \<Rightarrow> 'a mem_scheme res" where
  "store_word k p w m = store p (enc_word k w) m"

section \<open>The invariant and the abstraction\<close>

fun apart_all :: "(nat \<times> byte list) list \<Rightarrow> bool" where
  "apart_all [] \<longleftrightarrow> True"
| "apart_all (c # B) \<longleftrightarrow> 0 < fst c \<and> snd c \<noteq> [] \<and> fst c + length (snd c) \<le> 2 ^ 64 \<and>
     list_all (apart c) B \<and> apart_all B"

definition mem_ok :: "'a mem_scheme \<Rightarrow> bool" where
  "mem_ok m \<longleftrightarrow> apart_all (blocks m)"

definition heap_of :: "'a mem_scheme \<Rightarrow> nat \<rightharpoonup> byte list" where
  "heap_of m = map_of (blocks m)"

definition set_block :: "nat \<Rightarrow> byte list \<Rightarrow> 'a mem_scheme \<Rightarrow> 'a mem_scheme" where
  "set_block a bs m = m\<lparr>blocks := map (\<lambda>(b, cs). if b = a then (b, bs) else (b, cs)) (blocks m)\<rparr>"

definition add_block :: "nat \<times> byte list \<Rightarrow> 'a mem_scheme \<Rightarrow> 'a mem_scheme" where
  "add_block c m = m\<lparr>blocks := c # blocks m, choices := tl (choices m)\<rparr>"

definition del_block :: "nat \<Rightarrow> 'a mem_scheme \<Rightarrow> 'a mem_scheme" where
  "del_block a m = m\<lparr>blocks := drop_block a (blocks m)\<rparr>"

lemma apart_commute: "apart c d \<longleftrightarrow> apart d c"
  by (cases c; cases d) auto

lemma map_of_apart:
  "list_all (apart c) B \<Longrightarrow> map_of B b = Some cs \<Longrightarrow> apart c (b, cs)"
  by (auto simp: list_all_iff dest!: map_of_SomeD)

lemma apart_all_map_of:
  "apart_all B \<Longrightarrow> map_of B a = Some bs \<Longrightarrow>
    0 < a \<and> bs \<noteq> [] \<and> a + length bs \<le> 2 ^ 64"
  by (induction B) (auto split: if_splits)

lemma fresh_base:
  assumes "list_all (apart (a, bs)) B" "bs \<noteq> []" "apart_all B"
  shows "map_of B a = None"
proof (rule ccontr)
  assume "map_of B a \<noteq> None"
  then obtain cs where cs: "map_of B a = Some cs" by auto
  with assms(1) have "apart (a, bs) (a, cs)" by (rule map_of_apart)
  moreover from cs assms(3) have "cs \<noteq> []" by (auto dest: apart_all_map_of)
  ultimately show False using assms(2) by auto
qed

lemma apart_all_distinct: "apart_all B \<Longrightarrow> distinct (map fst B)"
proof (induction B)
  case (Cons c B)
  then have "map_of B (fst c) = None" by (cases c) (auto intro: fresh_base)
  with Cons show ?case by (simp add: map_of_eq_None_iff)
qed simp

lemma other_block:
  assumes "b \<noteq> a" "apart_all ((b, cs) # B)" "map_of ((b, cs) # B) a = Some bs"
  shows "map_of B a = Some bs" "apart (b, cs) (a, bs)"
proof -
  from assms(1,3) show m: "map_of B a = Some bs" by (simp split: if_splits)
  from assms(2) have "list_all (apart (b, cs)) B" by simp
  then show "apart (b, cs) (a, bs)" using m by (rule map_of_apart)
qed

lemma rd_map_of:
  assumes "apart_all B" "map_of B a = Some bs" "k + n \<le> length bs" "0 < n"
  shows "rd B (a + k) n = Some (take n (drop k bs))"
  using assms
proof (induction B)
  case Nil
  then show ?case by simp
next
  case (Cons c B)
  obtain b cs where c: "c = (b, cs)" by (cases c)
  show ?case
  proof (cases "b = a")
    case True
    with Cons.prems c show ?thesis by simp
  next
    case False
    then have "map_of B a = Some bs" "apart (b, cs) (a, bs)"
      using Cons.prems(1,2) unfolding c by (rule other_block)+
    with Cons c False show ?thesis by auto
  qed
qed

lemma wr_map_of:
  assumes "apart_all B" "map_of B a = Some bs" "k + length v \<le> length bs" "v \<noteq> []"
  shows "wr B (a + k) v = Some (map (\<lambda>(b, cs). if b = a then (b, patch bs k v) else (b, cs)) B)"
  using assms
proof (induction B)
  case Nil
  then show ?case by simp
next
  case (Cons c B)
  obtain b cs where c: "c = (b, cs)" by (cases c)
  show ?case
  proof (cases "b = a")
    case True
    with Cons.prems c have "map_of B a = None" "cs = bs"
      by (auto intro: fresh_base)
    then have "map (\<lambda>(b, cs). if b = a then (b, patch bs k v) else (b, cs)) B = B"
      by (auto simp: map_of_eq_None_iff image_iff intro!: map_idI)
    with True Cons.prems c \<open>cs = bs\<close> show ?thesis by simp
  next
    case False
    then have "map_of B a = Some bs" "apart (b, cs) (a, bs)"
      using Cons.prems(1,2) unfolding c by (rule other_block)+
    moreover from this have "\<not> (b \<le> a + k \<and> a + k + length v \<le> b + length cs)"
      using Cons.prems(3,4) by (cases v) auto
    ultimately show ?thesis using Cons c False by auto
  qed
qed

lemma rd_str_map_of:
  assumes "apart_all B" "map_of B a = Some bs" "k < length bs"
  shows "rd_str B (a + k) = c_string (drop k bs)"
  using assms
proof (induction B)
  case Nil
  then show ?case by simp
next
  case (Cons c B)
  obtain b cs where c: "c = (b, cs)" by (cases c)
  show ?case
  proof (cases "b = a")
    case True
    with Cons.prems c show ?thesis by simp
  next
    case False
    then have "map_of B a = Some bs" "apart (b, cs) (a, bs)"
      using Cons.prems(1,2) unfolding c by (rule other_block)+
    with Cons c False show ?thesis by auto
  qed
qed

section \<open>The operations on the abstraction\<close>

lemma heap_of_update [simp]:
  "heap_of (set_block a v m) = (\<lambda>b. if b = a then map_option (\<lambda>_. v) (heap_of m a) else heap_of m b)"
proof -
  have "map_of (map (\<lambda>(b, cs). if b = a then (b, v) else (b, cs)) B) b =
      (if b = a then map_option (\<lambda>_. v) (map_of B a) else map_of B b)" for B b
    by (induction B) auto
  then show ?thesis by (auto simp: heap_of_def set_block_def)
qed

text \<open>The invariant depends on where the objects are and how long they are, not on their bytes.\<close>

abbreviation extent :: "nat \<times> byte list \<Rightarrow> nat \<times> nat" where
  "extent c \<equiv> (fst c, length (snd c))"

lemma apart_extent: "extent c = extent c' \<Longrightarrow> extent d = extent d' \<Longrightarrow> apart c d \<longleftrightarrow> apart c' d'"
  by (cases c; cases d; cases c'; cases d') auto

lemma apart_list_extent:
  "extent c = extent c' \<Longrightarrow> map extent B = map extent B' \<Longrightarrow>
    list_all (apart c) B \<longleftrightarrow> list_all (apart c') B'"
proof (induction B arbitrary: B')
  case (Cons d B)
  then obtain d' B'' where "B' = d' # B''" "extent d = extent d'" "map extent B = map extent B''"
    by (cases B') auto
  with Cons apart_extent [of c c' d d'] show ?case by simp
qed simp

lemma apart_all_extent: "map extent B = map extent B' \<Longrightarrow> apart_all B \<longleftrightarrow> apart_all B'"
proof (induction B arbitrary: B')
  case (Cons d B)
  then obtain d' B'' where d': "B' = d' # B''" "extent d = extent d'" "map extent B = map extent B''"
    by (cases B') auto
  then have "snd d \<noteq> [] \<longleftrightarrow> snd d' \<noteq> []" by auto
  with d' Cons.IH [of B''] apart_list_extent [of d d' B B''] show ?case by simp
qed simp

text \<open>Loads and stores inside a live object.\<close>

lemma heap_of_pos: "mem_ok m \<Longrightarrow> heap_of m a = Some bs \<Longrightarrow> 0 < a"
  by (auto simp: mem_ok_def heap_of_def dest: apart_all_map_of)

lemma heap_of_limit: "mem_ok m \<Longrightarrow> heap_of m a = Some bs \<Longrightarrow> a + length bs \<le> 2 ^ 64"
  by (auto simp: mem_ok_def heap_of_def dest: apart_all_map_of)

lemma load_block:
  assumes "mem_ok m" "heap_of m a = Some bs" "k + n \<le> length bs"
  shows "load (a + k) n m = Inr (take n (drop k bs))"
  using assms heap_of_pos [OF assms(1,2)]
  by (cases "n = 0") (simp_all add: load_def mem_ok_def heap_of_def rd_map_of)

lemma store_block:
  assumes "mem_ok m" "heap_of m a = Some bs" "k + length v \<le> length bs" "v \<noteq> []"
  shows "store (a + k) v m = Inr (set_block a (patch bs k v) m)"
  using assms heap_of_pos [OF assms(1,2)]
  by (simp add: store_def mem_ok_def heap_of_def wr_map_of set_block_def)

lemma load_str_block:
  assumes "mem_ok m" "heap_of m a = Some bs" "k < length bs" "c_string (drop k bs) = Some s"
  shows "load_str (a + k) m = Inr s"
  using assms heap_of_pos [OF assms(1,2)]
  by (simp add: load_str_def mem_ok_def heap_of_def rd_str_map_of)

lemma load_str_unterminated:
  assumes "mem_ok m" "heap_of m a = Some bs" "k < length bs" "c_string (drop k bs) = None"
  shows "load_str (a + k) m = Inl OutOfBounds"
  using assms heap_of_pos [OF assms(1,2)]
  by (simp add: load_str_def mem_ok_def heap_of_def rd_str_map_of)

lemmas load_block0 = load_block [where k = 0, simplified]
lemmas store_block0 = store_block [where k = 0, simplified]
lemmas load_str_block0 = load_str_block [where k = 0, simplified]

lemma set_block_other_fields [simp]:
  "choices (set_block a v m) = choices m"
  "mem.more (set_block a v m) = mem.more m"
  by (simp_all add: set_block_def)

lemma set_block_twice [simp]: "set_block a w (set_block a v m) = set_block a w m"
proof -
  have "(\<lambda>(b, cs). if b = a then (b, w) else (b, cs)) \<circ> (\<lambda>(b, cs). if b = a then (b, v) else (b, cs)) =
      (\<lambda>(b, cs). if b = a then (b, w) else (b, cs :: byte list))"
    by (auto simp: fun_eq_iff)
  then show ?thesis by (simp add: set_block_def)
qed

text \<open>Release.\<close>

lemma heap_of_del_block [simp]: "heap_of (del_block a m) = (heap_of m)(a := None)"
proof -
  have "map_of (drop_block a B) b = (if b = a then None else map_of B b)" for B b
    by (induction B) (auto simp: drop_block_def)
  then show ?thesis by (auto simp: heap_of_def del_block_def)
qed

lemma apart_all_filter: "apart_all B \<Longrightarrow> apart_all (filter P B)"
  by (induction B) (auto simp: list_all_iff)

lemma del_block_mem_ok [simp]: "mem_ok m \<Longrightarrow> mem_ok (del_block a m)"
  by (simp add: mem_ok_def del_block_def drop_block_def apart_all_filter)

lemma c_free_block:
  assumes "mem_ok m" "heap_of m a = Some bs"
  shows "c_free a m = Inr (del_block a m)"
  using assms heap_of_pos [OF assms]
  by (simp add: c_free_def heap_of_def del_block_def)

lemma c_free_null [simp]: "c_free 0 m = Inr m"
  by (simp add: c_free_def)

lemma c_free_unknown: "0 < a \<Longrightarrow> heap_of m a = None \<Longrightarrow> c_free a m = Inl InvalidFree"
  by (simp add: c_free_def heap_of_def)

lemma del_block_commute: "del_block a (del_block b s) = del_block b (del_block a s)"
  by (simp add: del_block_def drop_block_def conj_commute)

text \<open>Allocation.\<close>

definition grants :: "nat \<Rightarrow> nat \<times> byte list \<Rightarrow> 'a mem_scheme \<Rightarrow> bool" where
  "grants n c m \<longleftrightarrow> (\<exists>cs. choices m = c # cs) \<and> usable (blocks m) n c"

lemma c_malloc_grants: "grants n c m \<Longrightarrow> c_malloc n m = (fst c, add_block c m)"
  by (auto simp: grants_def c_malloc_def add_block_def)

lemma c_alloca_grants: "grants n c m \<Longrightarrow> c_alloca n m = Inr (fst c, add_block c m)"
  by (cases c) (auto simp: c_alloca_def c_malloc_grants, auto simp: grants_def)

lemma heap_of_add_block [simp]: "heap_of (add_block c m) = (heap_of m)(fst c \<mapsto> snd c)"
  by (cases c) (auto simp: heap_of_def add_block_def)

lemma grants_fresh: "grants n c m \<Longrightarrow> mem_ok m \<Longrightarrow> heap_of m (fst c) = None"
  by (cases c) (auto simp: grants_def mem_ok_def heap_of_def intro: fresh_base)

lemma grants_length: "grants n c m \<Longrightarrow> n \<le> length (snd c)"
  by (cases c) (auto simp: grants_def)

lemma grants_pos: "grants n c m \<Longrightarrow> 0 < fst c"
  by (cases c) (auto simp: grants_def)

lemma grants_limit:
  assumes "grants n c m"
  shows "fst c < 2 ^ 64"
proof -
  from assms have "snd c \<noteq> []" "fst c + length (snd c) \<le> 2 ^ 64"
    by (cases c; simp add: grants_def)+
  then show ?thesis by (cases "snd c") auto
qed

lemma grants_mem_ok: "grants n c m \<Longrightarrow> mem_ok m \<Longrightarrow> mem_ok (add_block c m)"
  by (cases c) (auto simp: grants_def mem_ok_def add_block_def)

lemma c_malloc_cases:
  obtains (null) "fst (c_malloc n m) = 0" "heap_of (snd (c_malloc n m)) = heap_of m"
  | (grant) c where "grants n c m" "c_malloc n m = (fst c, add_block c m)"
proof (cases "choices m")
  case Nil
  with null show ?thesis by (simp add: c_malloc_def)
next
  case (Cons c cs)
  show ?thesis
  proof (cases "usable (blocks m) n c")
    case True
    with Cons grant [of c] show ?thesis by (simp add: grants_def c_malloc_grants)
  next
    case False
    with Cons null show ?thesis by (simp add: c_malloc_def heap_of_def)
  qed
qed

lemma c_malloc_mem_ok: "mem_ok m \<Longrightarrow> mem_ok (snd (c_malloc n m))"
  by (auto simp: c_malloc_def mem_ok_def split: list.splits)

text \<open>A run of grants: the allocator serves the requests \<open>ns\<close> in order, whatever is written into the
  objects in between.\<close>

fun serves :: "(nat \<times> byte list) list \<Rightarrow> nat list \<Rightarrow> (nat \<times> byte list) list \<Rightarrow> bool" where
  "serves B [] cs \<longleftrightarrow> True"
| "serves B (n # ns) [] \<longleftrightarrow> False"
| "serves B (n # ns) (c # cs) \<longleftrightarrow> usable B n c \<and> serves (c # B) ns cs"

definition stocked :: "nat list \<Rightarrow> 'a mem_scheme \<Rightarrow> bool" where
  "stocked ns m \<longleftrightarrow> serves (blocks m) ns (choices m)"

lemma stocked_Nil [simp]: "stocked [] m"
  by (simp add: stocked_def)

lemma stocked_Cons:
  assumes "stocked (n # ns) m"
  obtains c where "grants n c m" "stocked ns (add_block c m)"
  using assms by (cases "choices m") (auto simp: stocked_def grants_def add_block_def)

lemma usable_extent:
  assumes "map extent B = map extent B'"
  shows "usable B n c \<longleftrightarrow> usable B' n c"
  using apart_list_extent [OF refl assms, of c] by (cases c) simp

lemma serves_extent:
  "map extent B = map extent B' \<Longrightarrow> serves B ns cs \<longleftrightarrow> serves B' ns cs"
proof (induction B ns cs arbitrary: B' rule: serves.induct)
  case (3 B n ns c cs)
  from "3.prems" have "usable B n c \<longleftrightarrow> usable B' n c" by (rule usable_extent)
  with "3.IH" [of "c # B'"] "3.prems" show ?case by auto
qed simp_all

lemma extent_set_block:
  assumes "mem_ok m" "heap_of m a = Some bs" "length v = length bs"
  shows "map extent (blocks (set_block a v m)) = map extent (blocks m)"
proof -
  have "extent (if b = a then (b, v) else (b, cs)) = (b, length cs)" if "(b, cs) \<in> set (blocks m)" for b cs
  proof -
    have "map_of (blocks m) b = Some cs"
      using that assms(1) by (intro map_of_is_SomeI apart_all_distinct) (simp_all add: mem_ok_def)
    with assms(2,3) show ?thesis by (auto simp: heap_of_def)
  qed
  then show ?thesis by (auto simp: case_prod_beta set_block_def)
qed

lemma set_block_mem_ok:
  assumes "mem_ok m" "heap_of m a = Some bs" "length v = length bs"
  shows "mem_ok (set_block a v m)"
  using apart_all_extent [OF extent_set_block [OF assms]] assms(1) by (simp add: mem_ok_def)

lemma grants_set_block:
  assumes "mem_ok m" "heap_of m a = Some bs" "length v = length bs"
  shows "grants n c (set_block a v m) \<longleftrightarrow> grants n c m"
  using usable_extent [OF extent_set_block [OF assms]] by (simp add: grants_def)

lemma stocked_set_block:
  assumes "mem_ok m" "heap_of m a = Some bs" "length v = length bs"
  shows "stocked ns (set_block a v m) \<longleftrightarrow> stocked ns m"
  using serves_extent [OF extent_set_block [OF assms]] by (simp add: stocked_def)

lemma set_block_same:
  assumes "mem_ok m" "heap_of m a = Some bs"
  shows "set_block a bs m = m"
proof -
  have "map (\<lambda>(b, cs). if b = a then (b, bs) else (b, cs)) (blocks m) = blocks m"
  proof (rule map_idI)
    fix c assume "c \<in> set (blocks m)"
    then have "map_of (blocks m) (fst c) = Some (snd c)"
      using assms(1) by (intro map_of_is_SomeI apart_all_distinct) (simp_all add: mem_ok_def)
    with assms(2) show "(case c of (b, cs) \<Rightarrow> if b = a then (b, bs) else (b, cs)) = c"
      by (cases c) (auto simp: heap_of_def)
  qed
  then show ?thesis by (simp add: set_block_def)
qed

text \<open>The same store law without the exception for an empty value.\<close>

lemma store_in_block:
  assumes "mem_ok m" "heap_of m a = Some bs" "k + length v \<le> length bs"
  shows "store (a + k) v m = Inr (set_block a (patch bs k v) m)"
  using assms by (cases "v = []") (simp_all add: store_block set_block_same, simp add: store_def)

lemmas store_in_block0 = store_in_block [where k = 0, simplified]

lemma more_blocks [simp]:
  "mem.more (add_block c s) = mem.more s" "mem.more (del_block a s) = mem.more s"
  by (simp_all add: add_block_def del_block_def)

lemma c_malloc_more [simp]: "mem.more (snd (c_malloc n s)) = mem.more s"
  by (simp add: c_malloc_def split: list.splits)

lemma grants_less: "grants n c m \<Longrightarrow> k \<le> n \<Longrightarrow> grants k c m"
  by (cases c) (auto simp: grants_def)

lemma c_realloc_cases:
  assumes ok: "mem_ok m" and old: "heap_of m p = Some old" and n: "0 < n"
  obtains (null) m' where "c_realloc p n m = Inr (0, m')" "heap_of m' = heap_of m" "mem_ok m'"
      "mem.more m' = mem.more m"
  | (moved) a bs m' where "c_realloc p n m = Inr (a, m')" "mem_ok m'" "mem.more m' = mem.more m"
      "heap_of m' = (heap_of m)(p := None, a \<mapsto> bs)" "a = p \<or> heap_of m a = None"
      "0 < a" "a < 2 ^ 64" "n \<le> length bs"
      "\<forall>i < min n (length old). bs ! i = old ! i"
proof -
  have p: "0 < p" using ok old by (rule heap_of_pos)
  have old': "map_of (blocks m) p = Some old" using old by (simp add: heap_of_def)
  have d: "apart_all (drop_block p (blocks m))"
    using ok by (simp add: mem_ok_def drop_block_def apart_all_filter)
  have hd: "map_of (drop_block p (blocks m)) = (heap_of m)(p := None)"
    using heap_of_del_block [of p m] by (simp add: heap_of_def del_block_def)
  show ?thesis
  proof (cases "choices m")
    case Nil
    with null [of m] ok p n old' show ?thesis by (simp add: c_realloc_def)
  next
    case (Cons c cs)
    obtain a bs where c: "c = (a, bs)" by (cases c)
    show ?thesis
    proof (cases "usable (drop_block p (blocks m)) n (a, bs)")
      case False
      with null [of "m\<lparr>choices := cs\<rparr>"] ok p n old' Cons c show ?thesis
        by (simp add: c_realloc_def heap_of_def mem_ok_def)
    next
      case True
      let ?bs = "patch bs 0 (take n old)"
      let ?m = "m\<lparr>blocks := (a, ?bs) # drop_block p (blocks m), choices := cs\<rparr>"
      from True have u: "0 < a" "bs \<noteq> []" "n \<le> length bs" "a + length bs \<le> 2 ^ 64"
        "list_all (apart (a, bs)) (drop_block p (blocks m))" by simp_all
      have len: "length ?bs = length bs" using u(3) by (intro length_patch) simp
      then have "list_all (apart (a, ?bs)) (drop_block p (blocks m))"
        using u(5) apart_list_extent [of "(a, ?bs)" "(a, bs)"] by simp
      moreover have "?bs \<noteq> []" using u(2) len by (metis length_0_conv)
      ultimately have ok': "mem_ok ?m" using u d len by (simp add: mem_ok_def)
      have "((heap_of m)(p := None)) a = None"
        using fresh_base [OF u(5,2) d] hd by simp
      then have fresh: "a = p \<or> heap_of m a = None" by (auto split: if_splits)
      have "a < 2 ^ 64" using u(2,4) by (cases bs) auto
      moreover have "heap_of ?m = (heap_of m)(p := None, a \<mapsto> ?bs)"
        using hd by (simp add: heap_of_def)
      moreover have "\<forall>i < min n (length old). ?bs ! i = old ! i"
        by (auto simp: patch_def nth_append)
      ultimately show ?thesis
        using True p n old' Cons c ok' fresh u len by (intro moved [of a ?m ?bs]) (simp_all add: c_realloc_def)
    qed
  qed
qed

lemma load_word_at:
  assumes "mem_ok s" "heap_of s a = Some bs" "i + k \<le> length bs"
  shows "load_word k (a + i) s = Inr (dec_word k (drop i bs))"
  by (simp add: load_word_def load_block [OF assms])

lemmas load_word_at0 = load_word_at [where i = 0, simplified]

text \<open>A value written into an object that has been rewritten before.\<close>

lemma store_set_block:
  assumes "mem_ok m" "heap_of m a = Some bs0" "length bs = length bs0" "k + length v \<le> length bs"
  shows "store (a + k) v (set_block a bs m) = Inr (set_block a (patch bs k v) m)"
proof -
  have "mem_ok (set_block a bs m)" "heap_of (set_block a bs m) a = Some bs"
    using assms(1-3) by (simp_all add: set_block_mem_ok)
  from store_in_block [OF this assms(4)] show ?thesis by simp
qed

lemmas store_set_block0 = store_set_block [where k = 0, simplified]

text \<open>A write that starts inside an object and goes beyond its end is a fault.\<close>

lemma wr_overflow:
  assumes "apart_all B" "map_of B a = Some bs" "k < length bs" "length bs < k + length v"
  shows "wr B (a + k) v = None"
  using assms
proof (induction B)
  case Nil
  then show ?case by simp
next
  case (Cons c B)
  obtain b cs where c: "c = (b, cs)" by (cases c)
  show ?case
  proof (cases "b = a")
    case True
    with Cons.prems c have bs: "cs = bs" "list_all (apart (a, bs)) B" by auto
    then have "wr B (a + k) v = None"
      using Cons.prems(3,4)
    proof (induction B)
      case (Cons d B)
      then show ?case by (cases d) auto
    qed simp
    with bs True Cons.prems(4) c show ?thesis by simp
  next
    case False
    then have "map_of B a = Some bs" "apart (b, cs) (a, bs)"
      using Cons.prems(1,2) unfolding c by (rule other_block)+
    with Cons c False show ?thesis by auto
  qed
qed

lemma store_overflow:
  assumes "mem_ok m" "heap_of m a = Some bs" "k < length bs" "length bs < k + length v"
  shows "store (a + k) v m = Inl OutOfBounds"
proof -
  have "wr (blocks m) (a + k) v = None"
    using assms by (intro wr_overflow) (simp_all add: mem_ok_def heap_of_def)
  then show ?thesis using assms(3,4) heap_of_pos [OF assms(1,2)] by (auto simp: store_def)
qed

lemmas store_overflow0 = store_overflow [where k = 0, simplified]

lemma c_malloc_gives: "c_malloc n s = (p, m) \<Longrightarrow> 0 < p \<Longrightarrow> heap_of m p = Some (snd (hd (choices s)))"
  by (auto simp: c_malloc_def heap_of_def split: list.splits if_splits)

lemma c_malloc_choices: "choices (snd (c_malloc n s)) = tl (choices s)"
  by (simp add: c_malloc_def split: list.splits)

lemma store_choices: "store a v s = Inr s' \<Longrightarrow> choices s' = choices s"
  by (auto simp: store_def split: if_splits option.splits)

section \<open>What the clients of the memory rely on\<close>

text \<open>
  The contract of an addressable store of objects: reading and writing inside an object act on its
  bytes, and writing keeps every other object. The client lemmas (fields do not disturb each other,
  a copy arrives) are proved from the contract alone.
\<close>

locale object_store =
  fixes ld :: "nat \<Rightarrow> nat \<Rightarrow> 'm \<Rightarrow> byte list res"
    and st :: "nat \<Rightarrow> byte list \<Rightarrow> 'm \<Rightarrow> 'm res"
    and hp :: "'m \<Rightarrow> nat \<rightharpoonup> byte list"
    and ok :: "'m \<Rightarrow> bool"
  assumes ld_in: "ok m \<Longrightarrow> hp m a = Some bs \<Longrightarrow> k + n \<le> length bs \<Longrightarrow>
      ld (a + k) n m = Inr (take n (drop k bs))"
    and st_in: "ok m \<Longrightarrow> hp m a = Some bs \<Longrightarrow> k + length v \<le> length bs \<Longrightarrow>
      \<exists>m'. st (a + k) v m = Inr m' \<and> hp m' = (hp m)(a \<mapsto> patch bs k v) \<and> ok m'"
begin

lemma st_result:
  assumes "ok m" "hp m a = Some bs" "k + length v \<le> length bs" "st (a + k) v m = Inr m'"
  shows "hp m' = (hp m)(a \<mapsto> patch bs k v)" "ok m'"
  using st_in [OF assms(1-3)] assms(4) by auto

lemma ld_after_st:
  assumes "ok m" "hp m a = Some bs" "k + length v \<le> length bs" "st (a + k) v m = Inr m'"
  shows "ld (a + k) (length v) m' = Inr v"
proof -
  note r = st_result [OF assms]
  then have "hp m' a = Some (patch bs k v)" by simp
  with r(2) assms(3) show ?thesis by (simp add: ld_in take_drop_patch_same)
qed

lemma ld_other_field:
  assumes "ok m" "hp m a = Some bs" "k + length v \<le> length bs" "st (a + k) v m = Inr m'"
    and "i + n \<le> length bs" "i + n \<le> k \<or> k + length v \<le> i"
  shows "ld (a + i) n m' = ld (a + i) n m"
proof -
  note r = st_result [OF assms(1-4)]
  then have "hp m' a = Some (patch bs k v)" by simp
  with r(2) assms show ?thesis
    by (auto simp: ld_in take_patch_before take_patch_after)
qed

lemma ld_other_object:
  assumes "ok m" "hp m a = Some bs" "k + length v \<le> length bs" "st (a + k) v m = Inr m'"
    and "hp m b = Some cs" "b \<noteq> a" "i + n \<le> length cs"
  shows "ld (b + i) n m' = ld (b + i) n m"
proof -
  note r = st_result [OF assms(1-4)]
  then have "hp m' b = Some cs" using assms(5,6) by simp
  with r(2) assms show ?thesis by (simp add: ld_in)
qed

lemma copy_arrives:
  assumes "ok m" "hp m a = Some bs" "k + n \<le> length bs" "hp m b = Some cs" "j + n \<le> length cs"
  shows "\<exists>m'. bindR (ld (b + j) n m) (\<lambda>v. st (a + k) v m) = Inr m' \<and>
    ld (a + k) n m' = Inr (take n (drop j cs))"
proof -
  let ?v = "take n (drop j cs)"
  have len: "length ?v = n" using assms(5) by simp
  with assms st_in [of m a bs k ?v] obtain m' where m': "st (a + k) ?v m = Inr m'" by auto
  have "ld (a + k) (length ?v) m' = Inr ?v"
    using assms m' len by (intro ld_after_st) auto
  with assms m' len show ?thesis by (auto simp: ld_in)
qed

end

interpretation c_mem: object_store load store heap_of mem_ok
proof unfold_locales
  fix m :: "'a mem_scheme" and a k n bs and v :: "byte list"
  show "mem_ok m \<Longrightarrow> heap_of m a = Some bs \<Longrightarrow> k + n \<le> length bs \<Longrightarrow>
      load (a + k) n m = Inr (take n (drop k bs))"
    by (rule load_block)
  assume "mem_ok m" "heap_of m a = Some bs" "k + length v \<le> length bs"
  then show "\<exists>m'. store (a + k) v m = Inr m' \<and> heap_of m' = (heap_of m)(a \<mapsto> patch bs k v) \<and> mem_ok m'"
    by (auto simp: store_in_block intro: set_block_mem_ok)
qed

text \<open>A store that succeeds keeps the extents of all objects.\<close>

lemma wr_extent: "wr B p v = Some B' \<Longrightarrow> map extent B' = map extent B"
proof (induction B p v arbitrary: B' rule: wr.induct)
  case (2 a bs B p v)
  then show ?case by (cases "a \<le> p \<and> p + length v \<le> a + length bs") auto
qed simp

lemma store_mem_ok: "store p v m = Inr m' \<Longrightarrow> mem_ok m \<Longrightarrow> mem_ok m'"
  by (auto simp: store_def mem_ok_def split: if_splits option.splits dest!: wr_extent intro: apart_all_extent [THEN iffD2])

lemma store_more: "store p v m = Inr m' \<Longrightarrow> mem.more m' = mem.more m"
  by (auto simp: store_def split: if_splits option.splits)

end
