(* ===== verification/Sockets.thy ===== *)
theory Sockets
  imports C_Memory
begin

text \<open>
  The connection layer, \<open>common/src/dicon_sockets.c\<close> with \<open>common/include/dicon_sockets.h\<close>: addresses,
  connections, the exact-length receive loop, sending, connecting, listening and accepting.

  The kernel's side of a TCP socket is the record \<open>sock\<close>: the chunks in which the peer's bytes will
  be delivered, whether the stream ends after them, whether a write meets a reset connection, and
  the bytes accepted for sending. The answers of \<open>socket\<close>, \<open>connect\<close>, \<open>bind\<close>, \<open>listen\<close> and \<open>accept\<close>
  are lists in the state, consumed call by call, so a statement about all states covers every
  behaviour of the network. A \<open>dic_conn_t\<close> lives at an address of the process memory; its fields are
  kept in the table \<open>conns\<close> under that address, not in the bytes of the object. So a statement about code that frees or writes
  memory at addresses it is given has to exclude the objects of the connections: where a client gives the addresses,
  the connection is one of the objects no request may touch (\<open>conn \<in> H\<close>).
\<close>

section \<open>Addresses and connections\<close>

record ip_addr =
  family :: u32
  ipv4 :: u32
  ip_hi :: "96 word"

definition AF_INET :: u32 where "AF_INET = 2"
definition AF_INET6 :: u32 where "AF_INET6 = 10"

definition NONE_IP_ADDR :: ip_addr where
  "NONE_IP_ADDR = \<lparr>family = - 1, ipv4 = 0, ip_hi = 0\<rparr>"

text \<open>
  \<open>inet_pton\<close> for IPv4: exactly four decimal numbers below 256 separated by dots, without leading
  zeros. The address is stored in network order, so the first number is the lowest byte of the word.
  The IPv6 case of \<open>ip_from_str\<close> takes the parser of the C library as an argument; no program of the
  repository calls it. On a malformed text the address is left as it was (\<open>junk\<close>).
\<close>

fun digits_value :: "nat \<Rightarrow> string \<Rightarrow> nat option" where
  "digits_value v [] = Some v"
| "digits_value v (c # cs) =
     (if of_char c \<ge> (48::nat) \<and> of_char c \<le> (57::nat)
      then digits_value (10 * v + (of_char c - 48)) cs else None)"

definition octet :: "string \<Rightarrow> byte option" where
  "octet t =
     (if t = [] \<or> 3 < length t \<or> (1 < length t \<and> hd t = CHR ''0'') then None
      else case digits_value 0 t of
             None \<Rightarrow> None
           | Some v \<Rightarrow> if v < 256 then Some (word_of_nat v) else None)"

fun split_dots :: "string \<Rightarrow> string list" where
  "split_dots [] = [[]]"
| "split_dots (c # cs) =
     (case split_dots cs of
        [] \<Rightarrow> [[c]]
      | t # ts \<Rightarrow> if c = CHR ''.'' then [] # t # ts else (c # t) # ts)"

definition inet_pton4 :: "string \<Rightarrow> u32 option" where
  "inet_pton4 t =
     (case map octet (split_dots t) of
        [Some a, Some b, Some c, Some d] \<Rightarrow> Some (dec_word 4 [a, b, c, d])
      | _ \<Rightarrow> None)"

definition ip_from_str ::
  "(string \<Rightarrow> (u32 \<times> 96 word) option) \<Rightarrow> ip_addr \<Rightarrow> u32 \<Rightarrow> string \<Rightarrow> ip_addr" where
  "ip_from_str pton6 junk fam t =
     (if fam = AF_INET then
        (case inet_pton4 t of
           None \<Rightarrow> junk\<lparr>family := fam\<rparr>
         | Some w \<Rightarrow> junk\<lparr>family := fam, ipv4 := w\<rparr>)
      else if fam = AF_INET6 then
        (case pton6 t of
           None \<Rightarrow> junk\<lparr>family := fam\<rparr>
         | Some (w, hi) \<Rightarrow> \<lparr>family = fam, ipv4 = w, ip_hi = hi\<rparr>)
      else junk\<lparr>family := fam\<rparr>)"

definition ipv4_from_str ::
  "(string \<Rightarrow> (u32 \<times> 96 word) option) \<Rightarrow> ip_addr \<Rightarrow> string \<Rightarrow> ip_addr" where
  "ipv4_from_str pton6 junk t = ip_from_str pton6 junk AF_INET t"

definition ipv6_from_str ::
  "(string \<Rightarrow> (u32 \<times> 96 word) option) \<Rightarrow> ip_addr \<Rightarrow> string \<Rightarrow> ip_addr" where
  "ipv6_from_str pton6 junk t = ip_from_str pton6 junk AF_INET6 t"

record sockaddr_in =
  sin_family :: u32
  sin_port :: u16
  s_addr :: u32

definition htons :: "u16 \<Rightarrow> u16" where
  "htons w = word_of_nat ((unat w mod 256) * 256 + unat w div 256)"

record dic_conn =
  sockfd :: int
  queue_len :: "int option"
  queue_cond_init :: bool
  queue_mut_init :: bool
  recv_mut_init :: bool
  send_mut_init :: bool
  port :: c_int
  ip :: ip_addr

definition sizeof_dic_conn :: nat where "sizeof_dic_conn = 200"

record sock =
  sk_in :: "byte list list"
  sk_eof :: bool
  sk_reset :: bool
  sk_out :: "byte list"
  sk_peer :: sockaddr_in

record net = mem +
  conns :: "nat \<rightharpoonup> dic_conn"
  socks :: "int \<rightharpoonup> sock"
  fd_answers :: "int list"
  connect_answers :: "sock option list"
  bind_answers :: "bool list"
  listen_answers :: "bool list"
  accept_answers :: "(int \<times> sock) option list"
  uninit_destroyed :: nat
  hung_up :: "(int \<times> sock) list"

section \<open>The system calls\<close>

definition fresh_sock :: sock where
  "fresh_sock = \<lparr>sk_in = [], sk_eof = False, sk_reset = False, sk_out = [],
     sk_peer = \<lparr>sin_family = 0, sin_port = 0, s_addr = 0\<rparr>\<rparr>"

definition c_socket :: "'a net_scheme \<Rightarrow> int \<times> 'a net_scheme" where
  "c_socket s =
     (case fd_answers s of
        [] \<Rightarrow> (- 1, s)
      | fd # r \<Rightarrow>
          (if 0 \<le> fd \<and> socks s fd = None
           then (fd, s\<lparr>socks := (socks s)(fd \<mapsto> fresh_sock), fd_answers := r\<rparr>)
           else (- 1, s\<lparr>fd_answers := r\<rparr>)))"

text \<open>A closed socket is kept in the history \<open>hung_up\<close>, which no code reads: what was sent on it still goes to the peer.\<close>

definition c_close :: "int \<Rightarrow> 'a net_scheme \<Rightarrow> 'a net_scheme" where
  "c_close fd s = s\<lparr>socks := (socks s)(fd := None),
     hung_up := (case socks s fd of None \<Rightarrow> hung_up s | Some k \<Rightarrow> (fd, k) # hung_up s)\<rparr>"

definition c_connect :: "int \<Rightarrow> sockaddr_in \<Rightarrow> 'a net_scheme \<Rightarrow> int \<times> 'a net_scheme" where
  "c_connect fd sa s =
     (case connect_answers s of
        [] \<Rightarrow> (- 1, s)
      | None # r \<Rightarrow> (- 1, s\<lparr>connect_answers := r\<rparr>)
      | Some k # r \<Rightarrow> (0, s\<lparr>socks := (socks s)(fd \<mapsto> k\<lparr>sk_peer := sa\<rparr>), connect_answers := r\<rparr>))"

definition c_bind :: "'a net_scheme \<Rightarrow> bool \<times> 'a net_scheme" where
  "c_bind s = (case bind_answers s of [] \<Rightarrow> (False, s) | b # r \<Rightarrow> (b, s\<lparr>bind_answers := r\<rparr>))"

definition c_listen :: "'a net_scheme \<Rightarrow> bool \<times> 'a net_scheme" where
  "c_listen s = (case listen_answers s of [] \<Rightarrow> (False, s) | b # r \<Rightarrow> (b, s\<lparr>listen_answers := r\<rparr>))"

text \<open>\<open>accept\<close> waits while nobody connects; with the new descriptor it fills the address of the peer.\<close>

definition c_accept :: "int \<Rightarrow> 'a net_scheme \<Rightarrow> ((int \<times> sockaddr_in) option \<times> 'a net_scheme) res" where
  "c_accept lfd s =
     (if socks s lfd = None then Inr (None, s)
      else case accept_answers s of
        [] \<Rightarrow> Inl Blocked
      | None # r \<Rightarrow> Inr (None, s\<lparr>accept_answers := r\<rparr>)
      | Some (fd, k) # r \<Rightarrow>
          (if 0 \<le> fd \<and> socks s fd = None
           then Inr (Some (fd, sk_peer k), s\<lparr>socks := (socks s)(fd \<mapsto> k), accept_answers := r\<rparr>)
           else Inr (None, s\<lparr>accept_answers := r\<rparr>)))"

text \<open>\<open>recv\<close> takes at most \<open>n\<close> bytes of the next chunk, returns 0 at the end of the stream, fails on a
  closed descriptor and on a null buffer, and waits while nothing has arrived.\<close>

definition set_in :: "int \<Rightarrow> byte list list \<Rightarrow> 'a net_scheme \<Rightarrow> 'a net_scheme" where
  "set_in fd cs s = s\<lparr>socks := (socks s)(fd := map_option (\<lambda>k. k\<lparr>sk_in := cs\<rparr>) (socks s fd))\<rparr>"

definition c_recv :: "int \<Rightarrow> nat \<Rightarrow> nat \<Rightarrow> 'a net_scheme \<Rightarrow> (int \<times> 'a net_scheme) res" where
  "c_recv fd p n s =
     (case socks s fd of
        None \<Rightarrow> Inr (- 1, s)
      | Some k \<Rightarrow>
          (case sk_in k of
             [] \<Rightarrow> if sk_eof k then Inr (0, s) else Inl Blocked
           | c # cs \<Rightarrow>
               (if p = 0 then Inr (- 1, s)
                else bindR (store p (take n c) s) (\<lambda>s'.
                  Inr (int (length (take n c)),
                    set_in fd (if length c \<le> n then cs else drop n c # cs) s')))))"

text \<open>\<open>send\<close> on a blocking socket takes all the bytes; on a closed descriptor or a null buffer it
  fails, on a reset connection the process gets \<open>SIGPIPE\<close>, which none of the programs handles.\<close>

definition c_send :: "int \<Rightarrow> nat \<Rightarrow> nat \<Rightarrow> 'a net_scheme \<Rightarrow> (int \<times> 'a net_scheme) res" where
  "c_send fd p n s =
     (case socks s fd of
        None \<Rightarrow> Inr (- 1, s)
      | Some k \<Rightarrow>
          (if sk_reset k then Inl SigPipe
           else if p = 0 \<and> 0 < n then Inr (- 1, s)
           else bindR (load p n s) (\<lambda>v.
             Inr (int (length v), s\<lparr>socks := (socks s)(fd \<mapsto> k\<lparr>sk_out := sk_out k @ v\<rparr>)\<rparr>))))"

section \<open>The connection layer\<close>

definition tcp_connect :: "ip_addr \<Rightarrow> c_int \<Rightarrow> 'a net_scheme \<Rightarrow> int \<times> 'a net_scheme" where
  "tcp_connect addr prt s =
     (let (fd, s1) = c_socket s in
      if fd = - 1 then (- 1, s1)
      else if family addr = AF_INET \<and> ipv4 addr = 0 then (- 1, c_close fd s1)
      else
        let (r, s2) = c_connect fd
              \<lparr>sin_family = family addr, sin_port = htons (ucast prt), s_addr = ipv4 addr\<rparr> s1 in
        if r = - 1 then (- 1, c_close fd s2) else (fd, s2))"

function tcp_recv_loop :: "int \<Rightarrow> nat \<Rightarrow> nat \<Rightarrow> nat \<Rightarrow> 'a net_scheme \<Rightarrow> (int \<times> 'a net_scheme) res" where
  "tcp_recv_loop fd buf n received s =
     (if received < n then
        bindR (c_recv fd (buf + received) (n - received) s) (\<lambda>(bytes, s').
          if bytes \<le> 0 then Inr (- 1, s')
          else tcp_recv_loop fd buf n (received + nat bytes) s')
      else Inr (0, s))"
  by pat_completeness auto
termination
  by (relation "measure (\<lambda>(fd, buf, n, received, s). n - received)") auto

declare tcp_recv_loop.simps [simp del]

definition tcp_recv_n :: "int \<Rightarrow> nat \<Rightarrow> nat \<Rightarrow> 'a net_scheme \<Rightarrow> (int \<times> 'a net_scheme) res" where
  "tcp_recv_n fd buf n s = tcp_recv_loop fd buf n 0 s"

text \<open>Access to the fields of a connection through its pointer.\<close>

definition get_conn :: "nat \<Rightarrow> 'a net_scheme \<Rightarrow> dic_conn res" where
  "get_conn p s =
     (if p = 0 then Inl NullDeref
      else case conns s p of None \<Rightarrow> Inl OutOfBounds | Some c \<Rightarrow> Inr c)"

definition put_conn :: "nat \<Rightarrow> dic_conn \<Rightarrow> 'a net_scheme \<Rightarrow> 'a net_scheme" where
  "put_conn p c s = s\<lparr>conns := (conns s)(p \<mapsto> c)\<rparr>"

definition dic_conn_disconnect :: "nat \<Rightarrow> 'a net_scheme \<Rightarrow> (int \<times> 'a net_scheme) res" where
  "dic_conn_disconnect p s =
     bindR (get_conn p s) (\<lambda>c. Inr (0, put_conn p (c\<lparr>sockfd := - 1\<rparr>) (c_close (sockfd c) s)))"

definition dic_conn_new :: "ip_addr \<Rightarrow> c_int \<Rightarrow> 'a net_scheme \<Rightarrow> (nat \<times> 'a net_scheme) res" where
  "dic_conn_new addr prt s =
     (let (fd, s1) = tcp_connect addr prt s;
          (p, s2) = c_malloc sizeof_dic_conn s1 in
      if p = 0 then Inl NullDeref
      else Inr (p, put_conn p
        \<lparr>sockfd = fd, queue_len = Some 0, queue_cond_init = True, queue_mut_init = True,
         recv_mut_init = True, send_mut_init = True, port = prt, ip = addr\<rparr> s2))"

definition dic_conn_destroy :: "nat \<Rightarrow> 'a net_scheme \<Rightarrow> 'a net_scheme res" where
  "dic_conn_destroy p s =
     bindR (dic_conn_disconnect p s) (\<lambda>(_, s1).
     bindR (get_conn p s1) (\<lambda>c.
       let bad = of_bool (\<not> queue_cond_init c) + of_bool (\<not> queue_mut_init c) +
                 of_bool (\<not> send_mut_init c) + of_bool (\<not> recv_mut_init c);
           s2 = s1\<lparr>uninit_destroyed := uninit_destroyed s1 + bad, conns := (conns s1)(p := None)\<rparr>
       in c_free p s2))"

definition SEND_STR :: c_int where "SEND_STR = c_minus1"

definition dic_conn_send :: "nat \<Rightarrow> nat \<Rightarrow> c_int \<Rightarrow> 'a net_scheme \<Rightarrow> (int \<times> 'a net_scheme) res" where
  "dic_conn_send p message len s =
     bindR (if len = SEND_STR
            then bindR (load_str message s) (\<lambda>t. Inr (word_of_nat (length t)))
            else Inr len) (\<lambda>len1.
     bindR (get_conn p s) (\<lambda>c.
     bindR (c_send (sockfd c) message (size_of_int len1) s) (\<lambda>(_, s1).
       Inr (0, s1))))"

definition dic_conn_recv ::
  "nat \<Rightarrow> nat \<Rightarrow> c_int \<Rightarrow> bool \<Rightarrow> 'a net_scheme \<Rightarrow> (int \<times> 'a net_scheme) res" where
  "dic_conn_recv p buffer n null_terminate s =
     bindR (get_conn p s) (\<lambda>c.
     bindR (tcp_recv_n (sockfd c) buffer (size_of_int n) s) (\<lambda>(err, s1).
       if err = - 1 then
         Inr (1, put_conn p (c\<lparr>sockfd := - 1\<rparr>) (c_close (sockfd c) s1))
       else if null_terminate then
         bindR (store (buffer + size_of_int n) [0] s1) (\<lambda>s2. Inr (0, s2))
       else Inr (0, s1)))"

definition dic_conn_tryconnect :: "nat \<Rightarrow> 'a net_scheme \<Rightarrow> (int \<times> 'a net_scheme) res" where
  "dic_conn_tryconnect p s =
     bindR (get_conn p s) (\<lambda>c.
       if sockfd c \<noteq> - 1 then Inr (0, s)
       else
         let (fd, s1) = tcp_connect (ip c) (port c) s in
         if fd = - 1 then Inr (1, s1)
         else Inr (0, put_conn p (c\<lparr>sockfd := fd\<rparr>) s1))"

definition EXIT_FAILURE :: int where "EXIT_FAILURE = 1"

definition dic_conn_new_listening :: "c_int \<Rightarrow> 'a net_scheme \<Rightarrow> (nat \<times> 'a net_scheme) res" where
  "dic_conn_new_listening prt s =
     (let (fd, s1) = c_socket s in
      if fd = - 1 then Inl (Exited EXIT_FAILURE)
      else
        let (bound, s2) = c_bind s1 in
        if \<not> bound then Inl (Exited EXIT_FAILURE)
        else
          let (listening, s3) = c_listen s2 in
          if \<not> listening then Inl (Exited EXIT_FAILURE)
          else
            let (p, s4) = c_malloc sizeof_dic_conn s3 in
            if p = 0 then Inl NullDeref
            else Inr (p, put_conn p
              \<lparr>sockfd = fd, queue_len = None, queue_cond_init = False, queue_mut_init = False,
               recv_mut_init = True, send_mut_init = True, port = prt, ip = NONE_IP_ADDR\<rparr> s4))"

text \<open>The 12 bytes of the address union after the IPv4 part are whatever \<open>malloc\<close> left at offset 188
  of the new connection.\<close>

definition dic_conn_accept :: "nat \<Rightarrow> 'a net_scheme \<Rightarrow> (nat \<times> 'a net_scheme) res" where
  "dic_conn_accept listen_conn s =
     bindR (get_conn listen_conn s) (\<lambda>lc.
     bindR (c_accept (sockfd lc) s) (\<lambda>(r, s1).
       case r of
         None \<Rightarrow> Inr (0, s1)
       | Some (client_fd, client_addr) \<Rightarrow>
           (let (p, s2) = c_malloc sizeof_dic_conn s1 in
            if p = 0 then Inl NullDeref
            else
              bindR (load (p + 188) 12 s2) (\<lambda>junk.
                Inr (p, put_conn p
                  \<lparr>sockfd = client_fd, queue_len = None, queue_cond_init = False,
                   queue_mut_init = False, recv_mut_init = True, send_mut_init = True,
                   port = ucast (sin_port client_addr),
                   ip = \<lparr>family = sin_family client_addr, ipv4 = s_addr client_addr,
                         ip_hi = dec_word 12 junk\<rparr>\<rparr> s2)))))"

section \<open>Receiving exactly n bytes\<close>

text \<open>What is left of a sequence of chunks when \<open>n\<close> bytes have been taken from it.\<close>

fun eat :: "nat \<Rightarrow> byte list list \<Rightarrow> byte list list" where
  "eat n [] = []"
| "eat n (c # cs) =
     (if n = 0 then c # cs else if n < length c then drop n c # cs else eat (n - length c) cs)"

lemma eat_0 [simp]: "eat 0 cs = cs"
  by (cases cs) auto

lemma concat_eat: "concat (eat n cs) = drop n (concat cs)"
  by (induction n cs rule: eat.induct) auto

lemma eat_no_empty: "[] \<notin> set cs \<Longrightarrow> [] \<notin> set (eat n cs)"
  by (induction n cs rule: eat.induct) auto

lemma set_in_mem [simp]:
  "blocks (set_in fd cs s) = blocks s" "choices (set_in fd cs s) = choices s"
  "heap_of (set_in fd cs s) = heap_of s" "mem_ok (set_in fd cs s) = mem_ok s"
  "conns (set_in fd cs s) = conns s"
  by (simp_all add: set_in_def heap_of_def mem_ok_def)

lemma socks_set_in [simp]:
  "socks (set_in fd cs s) = (socks s)(fd := map_option (\<lambda>k. k\<lparr>sk_in := cs\<rparr>) (socks s fd))"
  by (simp add: set_in_def)

lemma set_in_twice [simp]: "set_in fd ds (set_in fd cs s) = set_in fd ds s"
  by (simp add: set_in_def option.map_comp comp_def)

lemma set_in_same: "socks s fd = Some k \<Longrightarrow> sk_in k = cs \<Longrightarrow> set_in fd cs s = s"
  by (simp add: set_in_def fun_upd_idem)

lemma set_block_net [simp]:
  "conns (set_block a v s) = conns s" "socks (set_block a v s) = socks s"
  by (simp_all add: set_block_def)

lemma set_in_set_block: "set_in fd cs (set_block a v s) = set_block a v (set_in fd cs s)"
  by (simp add: set_in_def set_block_def)

lemma eat_add: "eat j (eat i cs) = eat (i + j) cs"
  by (induction i cs arbitrary: j rule: eat.induct) (auto simp: not_less add.commute)

lemma eat_eat: "i \<le> n \<Longrightarrow> eat (n - i) (eat i cs) = eat n cs"
  by (simp add: eat_add)

text \<open>One \<open>recv\<close> into an object.\<close>

lemma c_recv_chunk:
  assumes "socks s fd = Some k" "sk_in k = c # cs" "0 < n" "c \<noteq> []"
    and "mem_ok s" "heap_of s a = Some bs" "i + n \<le> length bs"
  shows "c_recv fd (a + i) n s =
    Inr (int (min n (length c)),
      set_in fd (eat (min n (length c)) (c # cs)) (set_block a (patch bs i (take n c)) s))"
proof -
  have "store (a + i) (take n c) s = Inr (set_block a (patch bs i (take n c)) s)"
    using assms by (intro store_in_block) auto
  moreover have "(if length c \<le> n then cs else drop n c # cs) = eat (min n (length c)) (c # cs)"
    using assms(3,4) by auto
  ultimately show ?thesis using assms heap_of_pos [OF assms(5,6)]
    by (simp add: c_recv_def min.commute)
qed

text \<open>The state after \<open>m\<close> bytes (or all there are) went into the object at \<open>a\<close> from offset \<open>j\<close> on.\<close>

definition recv_state ::
  "int \<Rightarrow> sock \<Rightarrow> nat \<Rightarrow> byte list \<Rightarrow> nat \<Rightarrow> nat \<Rightarrow> 'a net_scheme \<Rightarrow> 'a net_scheme" where
  "recv_state fd k a bs j m s =
     set_in fd (eat m (sk_in k)) (set_block a (patch bs j (take m (concat (sk_in k)))) s)"

lemma recv_state_step:
  assumes "socks s fd = Some k" "sk_in k = c # cs" "x = min m (length c)" "j + m \<le> length bs"
  shows "recv_state fd (k\<lparr>sk_in := eat x (c # cs)\<rparr>) a (patch bs j (take m c)) (j + x) (m - x)
      (set_in fd (eat x (c # cs)) (set_block a (patch bs j (take m c)) s)) =
    recv_state fd k a bs j m s"
proof -
  have e: "eat (m - x) (eat x (c # cs)) = eat m (c # cs)"
    using assms(3) by (intro eat_eat) simp
  have len: "length (take m c) = x" using assms(3) by simp
  have "take m (concat (c # cs)) = take m c @ take (m - x) (drop x (concat (c # cs)))"
    using assms(3) by (auto simp: min_def)
  moreover have "patch (patch bs j (take m c)) (j + x) (take (m - x) (drop x (concat (c # cs)))) =
      patch bs j (take m c @ take (m - x) (drop x (concat (c # cs))))"
    using assms(3,4) patch_append_adjacent [of j "take m c" _ bs] unfolding len by simp
  ultimately show ?thesis
    using e assms(2) by (simp add: recv_state_def concat_eat set_in_set_block del: eat.simps)
qed

lemma tcp_recv_loop_chunk:
  assumes "socks s fd = Some k" "sk_in k = c # cs" "c \<noteq> []" "received < n"
    and "mem_ok s" "heap_of s a = Some bs" "i + n \<le> length bs"
  shows "tcp_recv_loop fd (a + i) n received s = tcp_recv_loop fd (a + i) n (received + min (n - received) (length c))
    (set_in fd (eat (min (n - received) (length c)) (c # cs)) (set_block a (patch bs (i + received) (take (n - received) c)) s))"
proof -
  define x where "x = min (n - received) (length c)"
  have "c_recv fd (a + i + received) (n - received) s =
      Inr (int x, set_in fd (eat x (c # cs)) (set_block a (patch bs (i + received) (take (n - received) c)) s))"
    using c_recv_chunk [of s fd k c cs "n - received" a bs "i + received"] assms by (simp add: x_def add.assoc del: eat.simps)
  moreover have "0 < x" using assms(3,4) by (simp add: x_def)
  ultimately show ?thesis
    using assms(4) unfolding x_def [symmetric] by (subst tcp_recv_loop.simps) (simp del: eat.simps)
qed

lemma eat_enough:
  assumes "x \<le> m" "x \<le> length (concat cs)"
  shows "m - x \<le> length (concat (eat x cs)) \<longleftrightarrow> m \<le> length (concat cs)"
  using assms by (simp only: concat_eat length_drop) arith

lemma tcp_recv_loop_spec:
  assumes "socks s fd = Some k" "[] \<notin> set (sk_in k)" "received \<le> n"
    and "mem_ok s" "heap_of s a = Some bs" "i + n \<le> length bs"
  shows "tcp_recv_loop fd (a + i) n received s =
    (let m = n - received; s' = recv_state fd k a bs (i + received) m s in
     if m \<le> length (concat (sk_in k)) then Inr (0, s')
     else if sk_eof k then Inr (- 1, s') else Inl Blocked)"
  using assms
proof (induction "n - received" arbitrary: received s k bs rule: less_induct)
  case less
  have stay: "recv_state fd k a bs j m s = s" if "m = 0 \<or> sk_in k = []" for j m
    using that less.prems by (auto simp: recv_state_def set_block_same set_in_same)
  consider "\<not> received < n" | "received < n" "sk_in k = []" | c cs where "received < n" "sk_in k = c # cs" "c \<noteq> []"
    using less.prems(2) by (cases "sk_in k") auto
  then show ?case
  proof cases
    case 1
    with less.prems stay [of 0] show ?thesis by (simp add: tcp_recv_loop.simps)
  next
    case 2
    with less.prems stay show ?thesis by (simp add: tcp_recv_loop.simps [of fd _ n] c_recv_def)
  next
    case (3 c cs)
    define x where "x = min (n - received) (length c)"
    let ?k = "k\<lparr>sk_in := eat x (c # cs)\<rparr>" and ?bs = "patch bs (i + received) (take (n - received) c)"
    let ?s = "set_in fd (eat x (c # cs)) (set_block a ?bs s)"
    have x: "0 < x" "x \<le> n - received" "x \<le> length (concat (c # cs))" using 3 by (auto simp: x_def)
    have len: "length ?bs = length bs" using less.prems by simp
    have nonempty: "[] \<notin> set (eat x (c # cs))" using less.prems(2) 3(2) eat_no_empty [of "c # cs" x] by simp
    have "tcp_recv_loop fd (a + i) n (received + x) ?s =
      (let m = n - (received + x); s' = recv_state fd ?k a ?bs (i + (received + x)) m ?s in
       if m \<le> length (concat (sk_in ?k)) then Inr (0, s')
       else if sk_eof ?k then Inr (- 1, s') else Inl Blocked)"
      by (rule less.hyps) (use x 3(1) less.prems len nonempty in \<open>simp_all add: set_block_mem_ok del: eat.simps\<close>)
    moreover have "recv_state fd ?k a ?bs (i + received + x) (n - received - x) ?s =
        recv_state fd k a bs (i + received) (n - received) s"
      using less.prems 3 by (intro recv_state_step) (auto simp: x_def)
    moreover note eat_enough [OF x(2,3)] tcp_recv_loop_chunk [OF less.prems(1) 3(2,3,1) less.prems(4-6), folded x_def]
    ultimately show ?thesis
      using 3(2) by (simp add: Let_def add.assoc del: eat.simps concat.simps)
  qed
qed

text \<open>The receive loop as the callers use it: independent of how the bytes were cut into chunks.\<close>

lemmas tcp_recv_n_spec =
  tcp_recv_loop_spec [where received = 0, simplified, folded tcp_recv_n_def]

lemma recv_state_heap [simp]:
  "heap_of (recv_state fd k a bs j m s) =
    (\<lambda>b. if b = a then map_option (\<lambda>_. patch bs j (take m (concat (sk_in k)))) (heap_of s a) else heap_of s b)"
  by (simp add: recv_state_def)

lemma recv_state_net [simp]:
  "conns (recv_state fd k a bs j m s) = conns s"
  "choices (recv_state fd k a bs j m s) = choices s"
  by (simp_all add: recv_state_def)

lemma recv_state_socks:
  assumes "socks s fd = Some k"
  shows "socks (recv_state fd k a bs j m s) = (socks s)(fd \<mapsto> k\<lparr>sk_in := eat m (sk_in k)\<rparr>)"
  using assms by (simp add: recv_state_def)

lemma recv_state_mem_ok:
  assumes "mem_ok s" "heap_of s a = Some bs" "j + m \<le> length bs"
  shows "mem_ok (recv_state fd k a bs j m s)"
  using assms by (simp add: recv_state_def set_block_mem_ok)

section \<open>The connection operations\<close>

definition connected :: "nat \<Rightarrow> dic_conn \<Rightarrow> sock \<Rightarrow> 'a net_scheme \<Rightarrow> bool" where
  "connected p c k s \<longleftrightarrow>
     p \<noteq> 0 \<and> conns s p = Some c \<and> socks s (sockfd c) = Some k \<and> [] \<notin> set (sk_in k)"

lemma get_conn_connected: "connected p c k s \<Longrightarrow> get_conn p s = Inr c"
  by (simp add: connected_def get_conn_def)

lemma dic_conn_recv_spec:
  assumes "connected p c k s" "mem_ok s" "heap_of s a = Some bs"
    and "size_of_int n = m" "i + m \<le> length bs"
  shows "dic_conn_recv p (a + i) n False s =
    (let s' = recv_state (sockfd c) k a bs i m s in
     if m \<le> length (concat (sk_in k)) then Inr (0, s')
     else if sk_eof k then Inr (1, put_conn p (c\<lparr>sockfd := - 1\<rparr>) (c_close (sockfd c) s'))
     else Inl Blocked)"
  using assms tcp_recv_n_spec [of s "sockfd c" k a bs i m]
  by (simp add: dic_conn_recv_def get_conn_connected Let_def, simp add: connected_def)

lemma dic_conn_send_spec:
  assumes "connected p c k s" "\<not> sk_reset k" "len \<noteq> SEND_STR"
    and "load message (size_of_int len) s = Inr v" "message \<noteq> 0"
  shows "dic_conn_send p message len s =
    Inr (0, s\<lparr>socks := (socks s)(sockfd c \<mapsto> k\<lparr>sk_out := sk_out k @ v\<rparr>)\<rparr>)"
  using assms by (simp add: dic_conn_send_def get_conn_connected, simp add: connected_def c_send_def)

lemma dic_conn_send_returns_0:
  "dic_conn_send p message len s = Inr (r, s') \<Longrightarrow> r = 0"
  by (auto simp: dic_conn_send_def res_simps split: prod.splits)

lemma more_net:
  fixes s t :: "'a net_scheme"
  assumes "mem.more s = mem.more t"
  shows "conns s = conns t" "socks s = socks t" "hung_up s = hung_up t"
  using assms by (cases s; cases t; simp)+

lemma connected_more:
  fixes s t :: "'a net_scheme"
  assumes "connected p c k s" "mem.more t = mem.more s"
  shows "connected p c k t"
  using assms more_net [OF assms(2)] by (simp add: connected_def)

lemma net_more_of_mem: "mem.more s = mem.more t \<Longrightarrow> net.more s = net.more (t :: 'a net_scheme)"
  by (cases s; cases t; simp)

lemma sk_in_twice: "k\<lparr>sk_in := a\<rparr>\<lparr>sk_in := b\<rparr> = k\<lparr>sk_in := b\<rparr>"
  by simp

lemma sk_swap: "k\<lparr>sk_out := a, sk_in := b\<rparr> = k\<lparr>sk_in := b, sk_out := a\<rparr>"
  by (cases k) simp

text \<open>A message of known length received into an object.\<close>

lemma recv_into_object:
  fixes s :: "'a net_scheme"
  assumes p: "connected p c k s" "concat (sk_in k) = v @ rest" and ok: "mem_ok s"
    and a: "heap_of s a = Some bs" "length v \<le> length bs" and n: "size_of_int w = length v"
  obtains t ks where "dic_conn_recv p a w False s = Inr (0, t)"
    and "connected p c (k\<lparr>sk_in := ks\<rparr>) t" "concat ks = rest" "mem_ok t" "\<forall>ns. stocked ns t = stocked ns s"
    and "heap_of t = (heap_of s)(a \<mapsto> patch bs 0 v)"
    and "conns t = conns s" "socks t = (socks s)(sockfd c \<mapsto> k\<lparr>sk_in := ks\<rparr>)" "net.more t = net.more s"
proof -
  let ?ks = "eat (length v) (sk_in k)" and ?t = "recv_state (sockfd c) k a bs 0 (length v) s"
  have v: "take (length v) (concat (sk_in k)) = v" using p(2) by simp
  have len: "length (patch bs 0 v) = length bs" using a(2) by simp
  have heap: "heap_of ?t = (heap_of s)(a \<mapsto> patch bs 0 v)" using v a(1) by (auto simp: fun_eq_iff)
  have s': "socks ?t = (socks s)(sockfd c \<mapsto> k\<lparr>sk_in := ?ks\<rparr>)" "conns ?t = conns s"
    using p(1) by (simp_all add: recv_state_socks connected_def)
  show ?thesis
  proof (rule that [of ?t ?ks])
    show "dic_conn_recv p a w False s = Inr (0, ?t)"
      using dic_conn_recv_spec [OF p(1) ok a(1) n, of 0] a(2) p(2) by (simp add: Let_def)
    show "connected p c (k\<lparr>sk_in := ?ks\<rparr>) ?t"
      using s' p(1) eat_no_empty [of "sk_in k" "length v"] by (simp add: connected_def)
    show "concat ?ks = rest" using p(2) by (simp add: concat_eat)
    show "mem_ok ?t" using ok a by (intro recv_state_mem_ok) auto
    show "\<forall>ns. stocked ns ?t = stocked ns s"
      using stocked_set_block [OF ok a(1) len] v by (simp add: recv_state_def stocked_def)
    show "net.more ?t = net.more s" by (simp add: recv_state_def set_in_def set_block_def)
  qed (fact heap s')+
qed

text \<open>Into a fresh object.\<close>

lemma recv_into_fresh:
  fixes s :: "'a net_scheme"
  assumes p: "connected p c k s" "concat (sk_in k) = v @ rest" and ok: "mem_ok s"
    and b: "grants n b s" "stocked ns (add_block b s)"
    and n: "length v = n" "size_of_int w = n"
  obtains t ks where "dic_conn_recv p (fst b) w False (add_block b s) = Inr (0, t)"
    and "connected p c (k\<lparr>sk_in := ks\<rparr>) t" "concat ks = rest" "mem_ok t" "stocked ns t"
    and "heap_of t = (heap_of s)(fst b \<mapsto> patch (snd b) 0 v)"
    and "conns t = conns s" "socks t = (socks s)(sockfd c \<mapsto> k\<lparr>sk_in := ks\<rparr>)" "net.more t = net.more s"
proof -
  let ?m = "add_block b s"
  note m = more_net [OF more_blocks(1) [of b s]] net_more_of_mem [OF more_blocks(1) [of b s]]
  have mok: "mem_ok ?m" "heap_of ?m (fst b) = Some (snd b)" "length v \<le> length (snd b)"
    using grants_mem_ok [OF b(1) ok] grants_length [OF b(1)] n(1) by simp_all
  have con: "connected p c k ?m" using p(1) m by (simp add: connected_def)
  obtain t ks where "dic_conn_recv p (fst b) w False ?m = Inr (0, t)"
    "connected p c (k\<lparr>sk_in := ks\<rparr>) t" "concat ks = rest" "mem_ok t" "\<forall>ns. stocked ns t = stocked ns ?m"
    "heap_of t = (heap_of ?m)(fst b \<mapsto> patch (snd b) 0 v)"
    "conns t = conns ?m" "socks t = (socks ?m)(sockfd c \<mapsto> k\<lparr>sk_in := ks\<rparr>)" "net.more t = net.more ?m"
    using recv_into_object [OF con p(2) mok, of w] n by auto
  then show ?thesis using b(2) m by (intro that [of t ks]) simp_all
qed

text \<open>A framed message: its length in four bytes, received into a local, then the message itself, received
  into an object of that length.\<close>

lemma receive_framed:
  fixes s :: "'a net_scheme"
  assumes con: "connected p c k s"
      "concat (sk_in k) = enc_word 4 (word_of_nat (length rb) :: u32) @ rb @ rest"
    and ok: "mem_ok s" and mem: "stocked [4, length rb] s" and rb: "length rb < 2 ^ 31"
  obtains head s1 s2 body s3 s4 bs ks where
    "c_alloca 4 s = Inr (head, s1)" "dic_conn_recv p head 4 False s1 = Inr (0, s2)"
    "load_word 4 head s2 = Inr (word_of_nat (length rb) :: u32)"
    "unat (word_of_nat (length rb) :: u32) = length rb"
    "c_malloc (length rb) s2 = (body, s3)"
    "dic_conn_recv p body (word_of_nat (length rb)) False s3 = Inr (0, s4)"
    "heap_of (del_block head s4) = (heap_of s)(body \<mapsto> rb @ bs)" "heap_of s body = None" "mem_ok s4"
    "0 < body" "concat ks = rest" "[] \<notin> set ks" "conns s4 = conns s" "net.more s4 = net.more s"
    "socks s4 = (socks s)(sockfd c \<mapsto> k\<lparr>sk_in := ks\<rparr>)"
proof -
  let ?w = "word_of_nat (length rb) :: u32"
  have w: "unat ?w = length rb" using rb by (subst unat_of_nat) simp
  then have sz: "size_of_int 4 = 4" "size_of_int ?w = length rb" using rb by (simp_all add: size_of_int_small)
  from mem obtain b1 where b1: "grants 4 b1 s" "stocked [length rb] (add_block b1 s)" by (rule stocked_Cons)
  obtain s2 ks1 where r1: "dic_conn_recv p (fst b1) 4 False (add_block b1 s) = Inr (0, s2)"
    and s2: "connected p c (k\<lparr>sk_in := ks1\<rparr>) s2" "concat ks1 = rb @ rest" "mem_ok s2" "stocked [length rb] s2"
      "heap_of s2 = (heap_of s)(fst b1 \<mapsto> patch (snd b1) 0 (enc_word 4 ?w))" "conns s2 = conns s"
      "socks s2 = (socks s)(sockfd c \<mapsto> k\<lparr>sk_in := ks1\<rparr>)" "net.more s2 = net.more s"
    by (rule recv_into_fresh [OF con ok b1 length_enc_word sz(1)])
  have "heap_of s2 (fst b1) = Some (enc_word 4 ?w @ drop 4 (snd b1))" using s2(5) by (simp add: patch_def)
  then have "load_word 4 (fst b1) s2 = Inr ?w" by (simp add: load_word_at0 [OF s2(3)])
  moreover from s2(4) obtain b2 where b2: "grants (length rb) b2 s2" "stocked [] (add_block b2 s2)"
    by (rule stocked_Cons)
  have in2: "concat (sk_in (k\<lparr>sk_in := ks1\<rparr>)) = rb @ rest" using s2(2) by simp
  obtain s4 ks where r2: "dic_conn_recv p (fst b2) ?w False (add_block b2 s2) = Inr (0, s4)"
    and s4: "connected p c (k\<lparr>sk_in := ks\<rparr>) s4" "concat ks = rest" "mem_ok s4" "stocked [] s4"
      "heap_of s4 = (heap_of s2)(fst b2 \<mapsto> patch (snd b2) 0 rb)" "conns s4 = conns s2"
      "socks s4 = (socks s2)(sockfd c \<mapsto> k\<lparr>sk_in := ks\<rparr>)" "net.more s4 = net.more s2"
    by (rule recv_into_fresh [OF s2(1) in2 s2(3) b2 refl sz(2), unfolded sk_in_twice])
  have fr: "heap_of s (fst b1) = None" "heap_of s2 (fst b2) = None"
    using grants_fresh [OF b1(1) ok] grants_fresh [OF b2(1) s2(3)] .
  then have ne: "fst b2 \<noteq> fst b1" "heap_of s (fst b2) = None" using s2(5) by (auto split: if_splits)
  have "heap_of (del_block (fst b1) s4) = (heap_of s)(fst b2 \<mapsto> rb @ drop (length rb) (snd b2))"
    using s4(5) s2(5) ne(1) fr(1) by (auto simp: patch_def)
  ultimately show ?thesis
    using that [OF c_alloca_grants [OF b1(1)] r1 _ w c_malloc_grants [OF b2(1)] r2] ne s2 s4 grants_pos [OF b2(1)]
    by (auto simp: connected_def)
qed

end
