(* ===== verification/Protocol.thy ===== *)
theory Protocol
  imports Sockets
begin

text \<open>
  The two wire protocols: \<open>common/include/dicon_protocol.h\<close> (client and node) and
  \<open>common/include/dicon_main_server_protocol.h\<close> (main server). Each packed C structure is a record
  with its fields in the order of the source; \<open>enc_\<dots>\<close> is its image in memory and on the wire,
  \<open>dec_\<dots>\<close> reads the fields back from the start of a byte sequence, \<open>sizeof_\<dots>\<close> is its size. The
  contract of such a layout is the locale \<open>packed\<close>, interpreted on every structure. The flexible array
  members (payload, names, file bytes, node table) follow the fixed part.
\<close>

section \<open>The contract of a packed structure\<close>

locale packed =
  fixes enc :: "'a \<Rightarrow> byte list"
    and dec :: "byte list \<Rightarrow> 'a"
    and sz :: nat
  assumes enc_length: "length (enc x) = sz"
    and dec_enc: "dec (enc x @ rest) = x"
begin

lemma dec_exact: "dec (enc x) = x"
  using dec_enc [of x "[]"] by simp

lemma enc_inj: "enc x = enc y \<longleftrightarrow> x = y"
  using dec_exact by metis

lemma enc_prefix_free:
  assumes "enc x @ r = enc y @ r'"
  shows "x = y \<and> r = r'"
proof -
  from assms have "dec (enc x @ r) = dec (enc y @ r')" by simp
  then have "x = y" by (simp add: dec_enc)
  with assms show ?thesis by simp
qed

lemma enc_then_rest: "drop sz (enc x @ rest) = rest"
  using enc_length [of x] by simp

text \<open>An array of structures: its length, and each element at its offset.\<close>

lemma array_length: "length (concat (map enc xs)) = length xs * sz"
  by (induction xs) (simp_all add: enc_length)

lemma array_nth:
  assumes "i < length xs"
  shows "dec (drop (i * sz) (concat (map enc xs) @ rest)) = xs ! i"
  using assms
proof (induction xs arbitrary: i)
  case (Cons x xs)
  show ?case
  proof (cases i)
    case 0
    then show ?thesis by (simp add: dec_enc)
  next
    case (Suc j)
    with Cons show ?thesis by (simp add: enc_length)
  qed
qed simp

end

section \<open>The client-node protocol\<close>

definition DIC_NODE_PORT :: c_int where "DIC_NODE_PORT = 4224"

datatype dic_operation =
    DIC_MALLOC
  | DIC_REALLOC
  | DIC_FREE
  | DIC_MEMCPY_C2N
  | DIC_MEMCPY_N2C
  | DIC_SO_VERIFY
  | DIC_SO_LOAD
  | DIC_SO_UNLOAD
  | DIC_SO_UPLOAD
  | DIC_FUNC_LOAD
  | DIC_RUN
  | DIC_JOIN

fun op_code :: "dic_operation \<Rightarrow> u16" where
  "op_code DIC_MALLOC = 0"
| "op_code DIC_REALLOC = 1"
| "op_code DIC_FREE = 2"
| "op_code DIC_MEMCPY_C2N = 3"
| "op_code DIC_MEMCPY_N2C = 4"
| "op_code DIC_SO_VERIFY = 5"
| "op_code DIC_SO_LOAD = 6"
| "op_code DIC_SO_UNLOAD = 7"
| "op_code DIC_SO_UPLOAD = 8"
| "op_code DIC_FUNC_LOAD = 9"
| "op_code DIC_RUN = 10"
| "op_code DIC_JOIN = 11"

definition UNULL :: u64 where "UNULL = 0"

subsection \<open>Structures\<close>

record dic_req_head_generic =
  req_head_operation :: u16
  req_head_version :: u16
  req_head_body_size :: u32

definition enc_dic_req_head_generic :: "dic_req_head_generic \<Rightarrow> byte list" where
  "enc_dic_req_head_generic x = enc_word 2 (req_head_operation x) @ enc_word 2 (req_head_version x) @ enc_word 4 (req_head_body_size x)"

definition dec_dic_req_head_generic :: "byte list \<Rightarrow> dic_req_head_generic" where
  "dec_dic_req_head_generic bs = \<lparr>req_head_operation = dec_word 2 bs, req_head_version = dec_word 2 (drop 2 bs), req_head_body_size = dec_word 4 (drop 4 bs)\<rparr>"

definition sizeof_dic_req_head_generic :: nat where "sizeof_dic_req_head_generic = 8"

record dic_resp_head_generic =
  resp_head_body_size :: u32

definition enc_dic_resp_head_generic :: "dic_resp_head_generic \<Rightarrow> byte list" where
  "enc_dic_resp_head_generic x = enc_word 4 (resp_head_body_size x)"

definition dec_dic_resp_head_generic :: "byte list \<Rightarrow> dic_resp_head_generic" where
  "dec_dic_resp_head_generic bs = \<lparr>resp_head_body_size = dec_word 4 bs\<rparr>"

definition sizeof_dic_resp_head_generic :: nat where "sizeof_dic_resp_head_generic = 4"

record dic_req_malloc =
  req_malloc_size :: u32

definition enc_dic_req_malloc :: "dic_req_malloc \<Rightarrow> byte list" where
  "enc_dic_req_malloc x = enc_word 4 (req_malloc_size x)"

definition dec_dic_req_malloc :: "byte list \<Rightarrow> dic_req_malloc" where
  "dec_dic_req_malloc bs = \<lparr>req_malloc_size = dec_word 4 bs\<rparr>"

definition sizeof_dic_req_malloc :: nat where "sizeof_dic_req_malloc = 4"

record dic_resp_malloc =
  resp_malloc_mem_address :: u64

definition enc_dic_resp_malloc :: "dic_resp_malloc \<Rightarrow> byte list" where
  "enc_dic_resp_malloc x = enc_word 8 (resp_malloc_mem_address x)"

definition dec_dic_resp_malloc :: "byte list \<Rightarrow> dic_resp_malloc" where
  "dec_dic_resp_malloc bs = \<lparr>resp_malloc_mem_address = dec_word 8 bs\<rparr>"

definition sizeof_dic_resp_malloc :: nat where "sizeof_dic_resp_malloc = 8"

record dic_req_realloc =
  req_realloc_void_ptr :: u64
  req_realloc_size :: u32

definition enc_dic_req_realloc :: "dic_req_realloc \<Rightarrow> byte list" where
  "enc_dic_req_realloc x = enc_word 8 (req_realloc_void_ptr x) @ enc_word 4 (req_realloc_size x)"

definition dec_dic_req_realloc :: "byte list \<Rightarrow> dic_req_realloc" where
  "dec_dic_req_realloc bs = \<lparr>req_realloc_void_ptr = dec_word 8 bs, req_realloc_size = dec_word 4 (drop 8 bs)\<rparr>"

definition sizeof_dic_req_realloc :: nat where "sizeof_dic_req_realloc = 12"

record dic_resp_realloc =
  resp_realloc_mem_address :: u64

definition enc_dic_resp_realloc :: "dic_resp_realloc \<Rightarrow> byte list" where
  "enc_dic_resp_realloc x = enc_word 8 (resp_realloc_mem_address x)"

definition dec_dic_resp_realloc :: "byte list \<Rightarrow> dic_resp_realloc" where
  "dec_dic_resp_realloc bs = \<lparr>resp_realloc_mem_address = dec_word 8 bs\<rparr>"

definition sizeof_dic_resp_realloc :: nat where "sizeof_dic_resp_realloc = 8"

record dic_req_free =
  req_free_void_ptr :: u64

definition enc_dic_req_free :: "dic_req_free \<Rightarrow> byte list" where
  "enc_dic_req_free x = enc_word 8 (req_free_void_ptr x)"

definition dec_dic_req_free :: "byte list \<Rightarrow> dic_req_free" where
  "dec_dic_req_free bs = \<lparr>req_free_void_ptr = dec_word 8 bs\<rparr>"

definition sizeof_dic_req_free :: nat where "sizeof_dic_req_free = 8"

record dic_resp_free =
  resp_free_err :: byte

definition enc_dic_resp_free :: "dic_resp_free \<Rightarrow> byte list" where
  "enc_dic_resp_free x = enc_word 1 (resp_free_err x)"

definition dec_dic_resp_free :: "byte list \<Rightarrow> dic_resp_free" where
  "dec_dic_resp_free bs = \<lparr>resp_free_err = dec_word 1 bs\<rparr>"

definition sizeof_dic_resp_free :: nat where "sizeof_dic_resp_free = 1"

record dic_req_memcpy_c2n =
  req_memcpy_c2n_dest :: u64
  req_memcpy_c2n_data_size :: u32

definition enc_dic_req_memcpy_c2n :: "dic_req_memcpy_c2n \<Rightarrow> byte list" where
  "enc_dic_req_memcpy_c2n x = enc_word 8 (req_memcpy_c2n_dest x) @ enc_word 4 (req_memcpy_c2n_data_size x)"

definition dec_dic_req_memcpy_c2n :: "byte list \<Rightarrow> dic_req_memcpy_c2n" where
  "dec_dic_req_memcpy_c2n bs = \<lparr>req_memcpy_c2n_dest = dec_word 8 bs, req_memcpy_c2n_data_size = dec_word 4 (drop 8 bs)\<rparr>"

definition sizeof_dic_req_memcpy_c2n :: nat where "sizeof_dic_req_memcpy_c2n = 12"

record dic_resp_memcpy_c2n =
  resp_memcpy_c2n_err :: u32

definition enc_dic_resp_memcpy_c2n :: "dic_resp_memcpy_c2n \<Rightarrow> byte list" where
  "enc_dic_resp_memcpy_c2n x = enc_word 4 (resp_memcpy_c2n_err x)"

definition dec_dic_resp_memcpy_c2n :: "byte list \<Rightarrow> dic_resp_memcpy_c2n" where
  "dec_dic_resp_memcpy_c2n bs = \<lparr>resp_memcpy_c2n_err = dec_word 4 bs\<rparr>"

definition sizeof_dic_resp_memcpy_c2n :: nat where "sizeof_dic_resp_memcpy_c2n = 4"

record dic_req_memcpy_n2c =
  req_memcpy_n2c_src :: u64
  req_memcpy_n2c_data_size :: u32

definition enc_dic_req_memcpy_n2c :: "dic_req_memcpy_n2c \<Rightarrow> byte list" where
  "enc_dic_req_memcpy_n2c x = enc_word 8 (req_memcpy_n2c_src x) @ enc_word 4 (req_memcpy_n2c_data_size x)"

definition dec_dic_req_memcpy_n2c :: "byte list \<Rightarrow> dic_req_memcpy_n2c" where
  "dec_dic_req_memcpy_n2c bs = \<lparr>req_memcpy_n2c_src = dec_word 8 bs, req_memcpy_n2c_data_size = dec_word 4 (drop 8 bs)\<rparr>"

definition sizeof_dic_req_memcpy_n2c :: nat where "sizeof_dic_req_memcpy_n2c = 12"

record dic_resp_memcpy_n2c =
  resp_memcpy_n2c_data_size :: u32

definition enc_dic_resp_memcpy_n2c :: "dic_resp_memcpy_n2c \<Rightarrow> byte list" where
  "enc_dic_resp_memcpy_n2c x = enc_word 4 (resp_memcpy_n2c_data_size x)"

definition dec_dic_resp_memcpy_n2c :: "byte list \<Rightarrow> dic_resp_memcpy_n2c" where
  "dec_dic_resp_memcpy_n2c bs = \<lparr>resp_memcpy_n2c_data_size = dec_word 4 bs\<rparr>"

definition sizeof_dic_resp_memcpy_n2c :: nat where "sizeof_dic_resp_memcpy_n2c = 4"

record dic_req_so_verify =
  req_so_verify_so_len :: u32

definition enc_dic_req_so_verify :: "dic_req_so_verify \<Rightarrow> byte list" where
  "enc_dic_req_so_verify x = enc_word 4 (req_so_verify_so_len x)"

definition dec_dic_req_so_verify :: "byte list \<Rightarrow> dic_req_so_verify" where
  "dec_dic_req_so_verify bs = \<lparr>req_so_verify_so_len = dec_word 4 bs\<rparr>"

definition sizeof_dic_req_so_verify :: nat where "sizeof_dic_req_so_verify = 4"

record dic_resp_so_verify =
  resp_so_verify_checksum :: u64

definition enc_dic_resp_so_verify :: "dic_resp_so_verify \<Rightarrow> byte list" where
  "enc_dic_resp_so_verify x = enc_word 8 (resp_so_verify_checksum x)"

definition dec_dic_resp_so_verify :: "byte list \<Rightarrow> dic_resp_so_verify" where
  "dec_dic_resp_so_verify bs = \<lparr>resp_so_verify_checksum = dec_word 8 bs\<rparr>"

definition sizeof_dic_resp_so_verify :: nat where "sizeof_dic_resp_so_verify = 8"

record dic_req_so_load =
  req_so_load_so_len :: u32

definition enc_dic_req_so_load :: "dic_req_so_load \<Rightarrow> byte list" where
  "enc_dic_req_so_load x = enc_word 4 (req_so_load_so_len x)"

definition dec_dic_req_so_load :: "byte list \<Rightarrow> dic_req_so_load" where
  "dec_dic_req_so_load bs = \<lparr>req_so_load_so_len = dec_word 4 bs\<rparr>"

definition sizeof_dic_req_so_load :: nat where "sizeof_dic_req_so_load = 4"

record dic_resp_so_load =
  resp_so_load_handle :: u64

definition enc_dic_resp_so_load :: "dic_resp_so_load \<Rightarrow> byte list" where
  "enc_dic_resp_so_load x = enc_word 8 (resp_so_load_handle x)"

definition dec_dic_resp_so_load :: "byte list \<Rightarrow> dic_resp_so_load" where
  "dec_dic_resp_so_load bs = \<lparr>resp_so_load_handle = dec_word 8 bs\<rparr>"

definition sizeof_dic_resp_so_load :: nat where "sizeof_dic_resp_so_load = 8"

record dic_req_so_unload =
  req_so_unload_handle :: u64

definition enc_dic_req_so_unload :: "dic_req_so_unload \<Rightarrow> byte list" where
  "enc_dic_req_so_unload x = enc_word 8 (req_so_unload_handle x)"

definition dec_dic_req_so_unload :: "byte list \<Rightarrow> dic_req_so_unload" where
  "dec_dic_req_so_unload bs = \<lparr>req_so_unload_handle = dec_word 8 bs\<rparr>"

definition sizeof_dic_req_so_unload :: nat where "sizeof_dic_req_so_unload = 8"

record dic_resp_so_unload =
  resp_so_unload_success :: u32

definition enc_dic_resp_so_unload :: "dic_resp_so_unload \<Rightarrow> byte list" where
  "enc_dic_resp_so_unload x = enc_word 4 (resp_so_unload_success x)"

definition dec_dic_resp_so_unload :: "byte list \<Rightarrow> dic_resp_so_unload" where
  "dec_dic_resp_so_unload bs = \<lparr>resp_so_unload_success = dec_word 4 bs\<rparr>"

definition sizeof_dic_resp_so_unload :: nat where "sizeof_dic_resp_so_unload = 4"

record dic_req_so_upload =
  req_so_upload_file_size :: u64
  req_so_upload_name_len :: u32

definition enc_dic_req_so_upload :: "dic_req_so_upload \<Rightarrow> byte list" where
  "enc_dic_req_so_upload x = enc_word 8 (req_so_upload_file_size x) @ enc_word 4 (req_so_upload_name_len x)"

definition dec_dic_req_so_upload :: "byte list \<Rightarrow> dic_req_so_upload" where
  "dec_dic_req_so_upload bs = \<lparr>req_so_upload_file_size = dec_word 8 bs, req_so_upload_name_len = dec_word 4 (drop 8 bs)\<rparr>"

definition sizeof_dic_req_so_upload :: nat where "sizeof_dic_req_so_upload = 12"

record dic_resp_so_upload =
  resp_so_upload_success :: u32

definition enc_dic_resp_so_upload :: "dic_resp_so_upload \<Rightarrow> byte list" where
  "enc_dic_resp_so_upload x = enc_word 4 (resp_so_upload_success x)"

definition dec_dic_resp_so_upload :: "byte list \<Rightarrow> dic_resp_so_upload" where
  "dec_dic_resp_so_upload bs = \<lparr>resp_so_upload_success = dec_word 4 bs\<rparr>"

definition sizeof_dic_resp_so_upload :: nat where "sizeof_dic_resp_so_upload = 4"

record dic_req_func_load =
  req_func_load_so_handle :: u64
  req_func_load_symlen :: u32

definition enc_dic_req_func_load :: "dic_req_func_load \<Rightarrow> byte list" where
  "enc_dic_req_func_load x = enc_word 8 (req_func_load_so_handle x) @ enc_word 4 (req_func_load_symlen x)"

definition dec_dic_req_func_load :: "byte list \<Rightarrow> dic_req_func_load" where
  "dec_dic_req_func_load bs = \<lparr>req_func_load_so_handle = dec_word 8 bs, req_func_load_symlen = dec_word 4 (drop 8 bs)\<rparr>"

definition sizeof_dic_req_func_load :: nat where "sizeof_dic_req_func_load = 12"

record dic_resp_func_load =
  resp_func_load_func_ptr :: u64

definition enc_dic_resp_func_load :: "dic_resp_func_load \<Rightarrow> byte list" where
  "enc_dic_resp_func_load x = enc_word 8 (resp_func_load_func_ptr x)"

definition dec_dic_resp_func_load :: "byte list \<Rightarrow> dic_resp_func_load" where
  "dec_dic_resp_func_load bs = \<lparr>resp_func_load_func_ptr = dec_word 8 bs\<rparr>"

definition sizeof_dic_resp_func_load :: nat where "sizeof_dic_resp_func_load = 8"

record dic_req_run =
  req_run_func_ptr :: u64
  req_run_args_ptr :: u64

definition enc_dic_req_run :: "dic_req_run \<Rightarrow> byte list" where
  "enc_dic_req_run x = enc_word 8 (req_run_func_ptr x) @ enc_word 8 (req_run_args_ptr x)"

definition dec_dic_req_run :: "byte list \<Rightarrow> dic_req_run" where
  "dec_dic_req_run bs = \<lparr>req_run_func_ptr = dec_word 8 bs, req_run_args_ptr = dec_word 8 (drop 8 bs)\<rparr>"

definition sizeof_dic_req_run :: nat where "sizeof_dic_req_run = 16"

record dic_resp_run =
  resp_run_tid :: u64

definition enc_dic_resp_run :: "dic_resp_run \<Rightarrow> byte list" where
  "enc_dic_resp_run x = enc_word 8 (resp_run_tid x)"

definition dec_dic_resp_run :: "byte list \<Rightarrow> dic_resp_run" where
  "dec_dic_resp_run bs = \<lparr>resp_run_tid = dec_word 8 bs\<rparr>"

definition sizeof_dic_resp_run :: nat where "sizeof_dic_resp_run = 8"

record dic_req_join =
  req_join_tid :: u64

definition enc_dic_req_join :: "dic_req_join \<Rightarrow> byte list" where
  "enc_dic_req_join x = enc_word 8 (req_join_tid x)"

definition dec_dic_req_join :: "byte list \<Rightarrow> dic_req_join" where
  "dec_dic_req_join bs = \<lparr>req_join_tid = dec_word 8 bs\<rparr>"

definition sizeof_dic_req_join :: nat where "sizeof_dic_req_join = 8"

record dic_resp_join =
  resp_join_ret_ptr :: u64

definition enc_dic_resp_join :: "dic_resp_join \<Rightarrow> byte list" where
  "enc_dic_resp_join x = enc_word 8 (resp_join_ret_ptr x)"

definition dec_dic_resp_join :: "byte list \<Rightarrow> dic_resp_join" where
  "dec_dic_resp_join bs = \<lparr>resp_join_ret_ptr = dec_word 8 bs\<rparr>"

definition sizeof_dic_resp_join :: nat where "sizeof_dic_resp_join = 8"

subsection \<open>The layouts keep their contract\<close>

interpretation req_head_codec: packed enc_dic_req_head_generic dec_dic_req_head_generic sizeof_dic_req_head_generic
  by unfold_locales (simp_all add: enc_dic_req_head_generic_def dec_dic_req_head_generic_def sizeof_dic_req_head_generic_def)

interpretation resp_head_codec: packed enc_dic_resp_head_generic dec_dic_resp_head_generic sizeof_dic_resp_head_generic
  by unfold_locales (simp_all add: enc_dic_resp_head_generic_def dec_dic_resp_head_generic_def sizeof_dic_resp_head_generic_def)

interpretation req_malloc_codec: packed enc_dic_req_malloc dec_dic_req_malloc sizeof_dic_req_malloc
  by unfold_locales (simp_all add: enc_dic_req_malloc_def dec_dic_req_malloc_def sizeof_dic_req_malloc_def)

interpretation resp_malloc_codec: packed enc_dic_resp_malloc dec_dic_resp_malloc sizeof_dic_resp_malloc
  by unfold_locales (simp_all add: enc_dic_resp_malloc_def dec_dic_resp_malloc_def sizeof_dic_resp_malloc_def)

interpretation req_realloc_codec: packed enc_dic_req_realloc dec_dic_req_realloc sizeof_dic_req_realloc
  by unfold_locales (simp_all add: enc_dic_req_realloc_def dec_dic_req_realloc_def sizeof_dic_req_realloc_def)

interpretation resp_realloc_codec: packed enc_dic_resp_realloc dec_dic_resp_realloc sizeof_dic_resp_realloc
  by unfold_locales (simp_all add: enc_dic_resp_realloc_def dec_dic_resp_realloc_def sizeof_dic_resp_realloc_def)

interpretation req_free_codec: packed enc_dic_req_free dec_dic_req_free sizeof_dic_req_free
  by unfold_locales (simp_all add: enc_dic_req_free_def dec_dic_req_free_def sizeof_dic_req_free_def)

interpretation resp_free_codec: packed enc_dic_resp_free dec_dic_resp_free sizeof_dic_resp_free
  by unfold_locales (simp_all add: enc_dic_resp_free_def dec_dic_resp_free_def sizeof_dic_resp_free_def)

interpretation req_memcpy_c2n_codec: packed enc_dic_req_memcpy_c2n dec_dic_req_memcpy_c2n sizeof_dic_req_memcpy_c2n
  by unfold_locales (simp_all add: enc_dic_req_memcpy_c2n_def dec_dic_req_memcpy_c2n_def sizeof_dic_req_memcpy_c2n_def)

interpretation resp_memcpy_c2n_codec: packed enc_dic_resp_memcpy_c2n dec_dic_resp_memcpy_c2n sizeof_dic_resp_memcpy_c2n
  by unfold_locales (simp_all add: enc_dic_resp_memcpy_c2n_def dec_dic_resp_memcpy_c2n_def sizeof_dic_resp_memcpy_c2n_def)

interpretation req_memcpy_n2c_codec: packed enc_dic_req_memcpy_n2c dec_dic_req_memcpy_n2c sizeof_dic_req_memcpy_n2c
  by unfold_locales (simp_all add: enc_dic_req_memcpy_n2c_def dec_dic_req_memcpy_n2c_def sizeof_dic_req_memcpy_n2c_def)

interpretation resp_memcpy_n2c_codec: packed enc_dic_resp_memcpy_n2c dec_dic_resp_memcpy_n2c sizeof_dic_resp_memcpy_n2c
  by unfold_locales (simp_all add: enc_dic_resp_memcpy_n2c_def dec_dic_resp_memcpy_n2c_def sizeof_dic_resp_memcpy_n2c_def)

interpretation req_so_verify_codec: packed enc_dic_req_so_verify dec_dic_req_so_verify sizeof_dic_req_so_verify
  by unfold_locales (simp_all add: enc_dic_req_so_verify_def dec_dic_req_so_verify_def sizeof_dic_req_so_verify_def)

interpretation resp_so_verify_codec: packed enc_dic_resp_so_verify dec_dic_resp_so_verify sizeof_dic_resp_so_verify
  by unfold_locales (simp_all add: enc_dic_resp_so_verify_def dec_dic_resp_so_verify_def sizeof_dic_resp_so_verify_def)

interpretation req_so_load_codec: packed enc_dic_req_so_load dec_dic_req_so_load sizeof_dic_req_so_load
  by unfold_locales (simp_all add: enc_dic_req_so_load_def dec_dic_req_so_load_def sizeof_dic_req_so_load_def)

interpretation resp_so_load_codec: packed enc_dic_resp_so_load dec_dic_resp_so_load sizeof_dic_resp_so_load
  by unfold_locales (simp_all add: enc_dic_resp_so_load_def dec_dic_resp_so_load_def sizeof_dic_resp_so_load_def)

interpretation req_so_unload_codec: packed enc_dic_req_so_unload dec_dic_req_so_unload sizeof_dic_req_so_unload
  by unfold_locales (simp_all add: enc_dic_req_so_unload_def dec_dic_req_so_unload_def sizeof_dic_req_so_unload_def)

interpretation resp_so_unload_codec: packed enc_dic_resp_so_unload dec_dic_resp_so_unload sizeof_dic_resp_so_unload
  by unfold_locales (simp_all add: enc_dic_resp_so_unload_def dec_dic_resp_so_unload_def sizeof_dic_resp_so_unload_def)

interpretation req_so_upload_codec: packed enc_dic_req_so_upload dec_dic_req_so_upload sizeof_dic_req_so_upload
  by unfold_locales (simp_all add: enc_dic_req_so_upload_def dec_dic_req_so_upload_def sizeof_dic_req_so_upload_def)

interpretation resp_so_upload_codec: packed enc_dic_resp_so_upload dec_dic_resp_so_upload sizeof_dic_resp_so_upload
  by unfold_locales (simp_all add: enc_dic_resp_so_upload_def dec_dic_resp_so_upload_def sizeof_dic_resp_so_upload_def)

interpretation req_func_load_codec: packed enc_dic_req_func_load dec_dic_req_func_load sizeof_dic_req_func_load
  by unfold_locales (simp_all add: enc_dic_req_func_load_def dec_dic_req_func_load_def sizeof_dic_req_func_load_def)

interpretation resp_func_load_codec: packed enc_dic_resp_func_load dec_dic_resp_func_load sizeof_dic_resp_func_load
  by unfold_locales (simp_all add: enc_dic_resp_func_load_def dec_dic_resp_func_load_def sizeof_dic_resp_func_load_def)

interpretation req_run_codec: packed enc_dic_req_run dec_dic_req_run sizeof_dic_req_run
  by unfold_locales (simp_all add: enc_dic_req_run_def dec_dic_req_run_def sizeof_dic_req_run_def)

interpretation resp_run_codec: packed enc_dic_resp_run dec_dic_resp_run sizeof_dic_resp_run
  by unfold_locales (simp_all add: enc_dic_resp_run_def dec_dic_resp_run_def sizeof_dic_resp_run_def)

interpretation req_join_codec: packed enc_dic_req_join dec_dic_req_join sizeof_dic_req_join
  by unfold_locales (simp_all add: enc_dic_req_join_def dec_dic_req_join_def sizeof_dic_req_join_def)

interpretation resp_join_codec: packed enc_dic_resp_join dec_dic_resp_join sizeof_dic_resp_join
  by unfold_locales (simp_all add: enc_dic_resp_join_def dec_dic_resp_join_def sizeof_dic_resp_join_def)

text \<open>The sizes, as rewriting of the lengths of the images.\<close>

lemmas layout_lengths [codec_simps] =
  req_head_codec.enc_length [unfolded sizeof_dic_req_head_generic_def]
  resp_head_codec.enc_length [unfolded sizeof_dic_resp_head_generic_def]
  req_malloc_codec.enc_length [unfolded sizeof_dic_req_malloc_def]
  resp_malloc_codec.enc_length [unfolded sizeof_dic_resp_malloc_def]
  req_realloc_codec.enc_length [unfolded sizeof_dic_req_realloc_def]
  resp_realloc_codec.enc_length [unfolded sizeof_dic_resp_realloc_def]
  req_free_codec.enc_length [unfolded sizeof_dic_req_free_def]
  resp_free_codec.enc_length [unfolded sizeof_dic_resp_free_def]
  req_memcpy_c2n_codec.enc_length [unfolded sizeof_dic_req_memcpy_c2n_def]
  resp_memcpy_c2n_codec.enc_length [unfolded sizeof_dic_resp_memcpy_c2n_def]
  req_memcpy_n2c_codec.enc_length [unfolded sizeof_dic_req_memcpy_n2c_def]
  resp_memcpy_n2c_codec.enc_length [unfolded sizeof_dic_resp_memcpy_n2c_def]
  req_so_verify_codec.enc_length [unfolded sizeof_dic_req_so_verify_def]
  resp_so_verify_codec.enc_length [unfolded sizeof_dic_resp_so_verify_def]
  req_so_load_codec.enc_length [unfolded sizeof_dic_req_so_load_def]
  resp_so_load_codec.enc_length [unfolded sizeof_dic_resp_so_load_def]
  req_so_unload_codec.enc_length [unfolded sizeof_dic_req_so_unload_def]
  resp_so_unload_codec.enc_length [unfolded sizeof_dic_resp_so_unload_def]
  req_so_upload_codec.enc_length [unfolded sizeof_dic_req_so_upload_def]
  resp_so_upload_codec.enc_length [unfolded sizeof_dic_resp_so_upload_def]
  req_func_load_codec.enc_length [unfolded sizeof_dic_req_func_load_def]
  resp_func_load_codec.enc_length [unfolded sizeof_dic_resp_func_load_def]
  req_run_codec.enc_length [unfolded sizeof_dic_req_run_def]
  resp_run_codec.enc_length [unfolded sizeof_dic_resp_run_def]
  req_join_codec.enc_length [unfolded sizeof_dic_req_join_def]
  resp_join_codec.enc_length [unfolded sizeof_dic_resp_join_def]

section \<open>The main-server protocol\<close>

definition DIC_MAIN_SERVER_PORT :: c_int where "DIC_MAIN_SERVER_PORT = 4225"

datatype dic_main_operation = DIC_ANNOUNCE_INFO | DIC_GET_INFO

fun main_op_code :: "dic_main_operation \<Rightarrow> u16" where
  "main_op_code DIC_ANNOUNCE_INFO = 0"
| "main_op_code DIC_GET_INFO = 1"

record dic_main_server_req_head_generic =
  ms_req_head_operation :: u16
  ms_req_head_version :: u16
  ms_req_head_body_size :: u32

definition enc_dic_main_server_req_head_generic :: "dic_main_server_req_head_generic \<Rightarrow> byte list" where
  "enc_dic_main_server_req_head_generic x = enc_word 2 (ms_req_head_operation x) @ enc_word 2 (ms_req_head_version x) @ enc_word 4 (ms_req_head_body_size x)"

definition dec_dic_main_server_req_head_generic :: "byte list \<Rightarrow> dic_main_server_req_head_generic" where
  "dec_dic_main_server_req_head_generic bs = \<lparr>ms_req_head_operation = dec_word 2 bs, ms_req_head_version = dec_word 2 (drop 2 bs), ms_req_head_body_size = dec_word 4 (drop 4 bs)\<rparr>"

definition sizeof_dic_main_server_req_head_generic :: nat where "sizeof_dic_main_server_req_head_generic = 8"

record dic_main_server_resp_head_generic =
  ms_resp_head_body_size :: u32

definition enc_dic_main_server_resp_head_generic :: "dic_main_server_resp_head_generic \<Rightarrow> byte list" where
  "enc_dic_main_server_resp_head_generic x = enc_word 4 (ms_resp_head_body_size x)"

definition dec_dic_main_server_resp_head_generic :: "byte list \<Rightarrow> dic_main_server_resp_head_generic" where
  "dec_dic_main_server_resp_head_generic bs = \<lparr>ms_resp_head_body_size = dec_word 4 bs\<rparr>"

definition sizeof_dic_main_server_resp_head_generic :: nat where "sizeof_dic_main_server_resp_head_generic = 4"

record dic_req_announce_info =
  req_announce_info_core_count :: u32

definition enc_dic_req_announce_info :: "dic_req_announce_info \<Rightarrow> byte list" where
  "enc_dic_req_announce_info x = enc_word 4 (req_announce_info_core_count x)"

definition dec_dic_req_announce_info :: "byte list \<Rightarrow> dic_req_announce_info" where
  "dec_dic_req_announce_info bs = \<lparr>req_announce_info_core_count = dec_word 4 bs\<rparr>"

definition sizeof_dic_req_announce_info :: nat where "sizeof_dic_req_announce_info = 4"

record dic_resp_announce_info =
  resp_announce_info_error :: u32

definition enc_dic_resp_announce_info :: "dic_resp_announce_info \<Rightarrow> byte list" where
  "enc_dic_resp_announce_info x = enc_word 4 (resp_announce_info_error x)"

definition dec_dic_resp_announce_info :: "byte list \<Rightarrow> dic_resp_announce_info" where
  "dec_dic_resp_announce_info bs = \<lparr>resp_announce_info_error = dec_word 4 bs\<rparr>"

definition sizeof_dic_resp_announce_info :: nat where "sizeof_dic_resp_announce_info = 4"

text \<open>A node description: the address structure with its whole union, then the core count. The
  response to \<open>DIC_GET_INFO\<close> is a count followed by that many descriptions.\<close>

definition enc_ip_addr :: "ip_addr \<Rightarrow> byte list" where
  "enc_ip_addr x = enc_word 4 (family x) @ enc_word 4 (ipv4 x) @ enc_word 12 (ip_hi x)"

definition dec_ip_addr :: "byte list \<Rightarrow> ip_addr" where
  "dec_ip_addr bs =
     \<lparr>family = dec_word 4 bs, ipv4 = dec_word 4 (drop 4 bs), ip_hi = dec_word 12 (drop 8 bs)\<rparr>"

definition sizeof_ip_addr :: nat where "sizeof_ip_addr = 20"

record dic_node_info =
  address :: ip_addr
  core_count :: u32

definition enc_dic_node_info :: "dic_node_info \<Rightarrow> byte list" where
  "enc_dic_node_info x = enc_ip_addr (address x) @ enc_word 4 (core_count x)"

definition dec_dic_node_info :: "byte list \<Rightarrow> dic_node_info" where
  "dec_dic_node_info bs = \<lparr>address = dec_ip_addr bs, core_count = dec_word 4 (drop 20 bs)\<rparr>"

definition sizeof_dic_node_info :: nat where "sizeof_dic_node_info = 24"

record dic_resp_get_info =
  resp_get_info_count :: u32
  resp_get_info_nodes :: "dic_node_info list"

definition enc_dic_resp_get_info :: "dic_resp_get_info \<Rightarrow> byte list" where
  "enc_dic_resp_get_info x =
     enc_word 4 (resp_get_info_count x) @ concat (map enc_dic_node_info (resp_get_info_nodes x))"

definition sizeof_dic_resp_get_info :: nat where "sizeof_dic_resp_get_info = 4"

subsection \<open>The main-server layouts keep their contract\<close>

interpretation ms_req_head_codec: packed enc_dic_main_server_req_head_generic dec_dic_main_server_req_head_generic sizeof_dic_main_server_req_head_generic
  by unfold_locales (simp_all add: enc_dic_main_server_req_head_generic_def dec_dic_main_server_req_head_generic_def sizeof_dic_main_server_req_head_generic_def)

interpretation ms_resp_head_codec: packed enc_dic_main_server_resp_head_generic dec_dic_main_server_resp_head_generic sizeof_dic_main_server_resp_head_generic
  by unfold_locales (simp_all add: enc_dic_main_server_resp_head_generic_def dec_dic_main_server_resp_head_generic_def sizeof_dic_main_server_resp_head_generic_def)

interpretation req_announce_info_codec: packed enc_dic_req_announce_info dec_dic_req_announce_info sizeof_dic_req_announce_info
  by unfold_locales (simp_all add: enc_dic_req_announce_info_def dec_dic_req_announce_info_def sizeof_dic_req_announce_info_def)

interpretation resp_announce_info_codec: packed enc_dic_resp_announce_info dec_dic_resp_announce_info sizeof_dic_resp_announce_info
  by unfold_locales (simp_all add: enc_dic_resp_announce_info_def dec_dic_resp_announce_info_def sizeof_dic_resp_announce_info_def)

interpretation ip_addr_codec: packed enc_ip_addr dec_ip_addr sizeof_ip_addr
  by unfold_locales (simp_all add: enc_ip_addr_def dec_ip_addr_def sizeof_ip_addr_def)

interpretation node_info_codec: packed enc_dic_node_info dec_dic_node_info sizeof_dic_node_info
proof unfold_locales
  fix x :: dic_node_info and rest :: "byte list"
  have len: "length (enc_ip_addr (address x)) = 20"
    using ip_addr_codec.enc_length by (simp add: sizeof_ip_addr_def)
  then show "length (enc_dic_node_info x) = sizeof_dic_node_info"
    by (simp add: enc_dic_node_info_def sizeof_dic_node_info_def)
  from len show "dec_dic_node_info (enc_dic_node_info x @ rest) = x"
    by (simp add: dec_dic_node_info_def enc_dic_node_info_def ip_addr_codec.dec_enc)
qed

end
