(* ===== verification/Client.thy ===== *)
theory Client
  imports Protocol
begin

text \<open>
  The client library, \<open>diconlib/src/client_node_communication.c\<close>: the request builders, the exchange
  \<open>dic_atomic_send_recv\<close>, and the calls that applications make. A client is a process with a network,
  extended with its file system. The mutual exclusion between threads that share a connection is the
  subject of theory Connection_Lock; here one thread makes its calls.
\<close>

section \<open>Types of the interface\<close>

record client = net +
  local_files :: "byte list \<rightharpoonup> byte list"

text \<open>A remote pointer is an address on the node together with the connection to that node.\<close>

record dic_rvoid_ptr =
  r_ptr :: u64
  r_device :: nat

record dic_rthread =
  rt_tid :: u64
  rt_device :: nat

definition IS_RNULL :: "dic_rvoid_ptr \<Rightarrow> bool" where
  "IS_RNULL rvoid \<longleftrightarrow> r_ptr rvoid = 0"

definition dic_node_connect :: "ip_addr \<Rightarrow> 'a net_scheme \<Rightarrow> (nat \<times> 'a net_scheme) res" where
  "dic_node_connect ip_address s = dic_conn_new ip_address DIC_NODE_PORT s"

section \<open>The request builder\<close>

type_synonym req_msg = "nat \<times> c_int"

definition REQ_HEAD_SIZE :: nat where "REQ_HEAD_SIZE = sizeof_dic_req_head_generic"

definition REQ_BUILDER_INIT_DYNAMIC :: "nat \<Rightarrow> c_int \<Rightarrow> 'a mem_scheme \<Rightarrow> req_msg \<times> 'a mem_scheme" where
  "REQ_BUILDER_INIT_DYNAMIC req_body_size dynamic_size m =
     (let msg_len = word_of_nat (REQ_HEAD_SIZE + req_body_size) + dynamic_size;
          (msg, m1) = c_malloc (size_of_int msg_len) m
      in ((msg, msg_len), m1))"

definition REQ_BUILDER_INIT :: "nat \<Rightarrow> 'a mem_scheme \<Rightarrow> req_msg \<times> 'a mem_scheme" where
  "REQ_BUILDER_INIT req_body_size m = REQ_BUILDER_INIT_DYNAMIC req_body_size 0 m"

definition REQ_BUILDER_SET_HEAD ::
  "dic_operation \<Rightarrow> req_msg \<Rightarrow> 'a mem_scheme \<Rightarrow> 'a mem_scheme res" where
  "REQ_BUILDER_SET_HEAD operation r m =
     bindR (store_word 2 (fst r) (op_code operation) m) (\<lambda>m1.
     bindR (store_word 2 (fst r + 2) (0 :: u16) m1) (\<lambda>m2.
     store_word 4 (fst r + 4) (snd r - word_of_nat REQ_HEAD_SIZE) m2))"

text \<open>The address of the request body, \<open>body\<close> in the source.\<close>

definition req_body :: "req_msg \<Rightarrow> nat" where
  "req_body r = fst r + REQ_HEAD_SIZE"

section \<open>The exchange\<close>

text \<open>The results of the two receives are not looked at.\<close>

definition dic_atomic_send_recv ::
  "nat \<Rightarrow> req_msg \<Rightarrow> 'a net_scheme \<Rightarrow> ((nat \<times> u32) \<times> 'a net_scheme) res" where
  "dic_atomic_send_recv device msg s =
     bindR (dic_conn_send device (fst msg) (snd msg) s) (\<lambda>(_, s1).
     bindR (c_alloca sizeof_dic_resp_head_generic s1) (\<lambda>(head, s2).
     bindR (dic_conn_recv device head (word_of_nat sizeof_dic_resp_head_generic) False s2) (\<lambda>(_, s3).
     bindR (load_word 4 head s3) (\<lambda>body_size :: u32.
     let (body, s4) = c_malloc (unat body_size) s3 in
     bindR (dic_conn_recv device body body_size False s4) (\<lambda>(_, s5).
       Inr ((body, body_size), del_block head s5))))))"

section \<open>Memory\<close>

definition build_rmalloc_req :: "c_int \<Rightarrow> 'a mem_scheme \<Rightarrow> (req_msg \<times> 'a mem_scheme) res" where
  "build_rmalloc_req sz s =
     (let (r, s1) = REQ_BUILDER_INIT sizeof_dic_req_malloc s in
      bindR (REQ_BUILDER_SET_HEAD DIC_MALLOC r s1) (\<lambda>s2.
      bindR (store_word 4 (req_body r) sz s2) (\<lambda>s3. Inr (r, s3))))"

definition dic_rmalloc :: "nat \<Rightarrow> c_int \<Rightarrow> 'a net_scheme \<Rightarrow> (dic_rvoid_ptr \<times> 'a net_scheme) res" where
  "dic_rmalloc device sz s =
     bindR (build_rmalloc_req sz s) (\<lambda>(msg, s1).
     bindR (dic_atomic_send_recv device msg s1) (\<lambda>(rcv, s2).
     bindR (load_word 8 (fst rcv) s2) (\<lambda>mem_address.
     bindR (c_free (fst msg) s2) (\<lambda>s3.
     bindR (c_free (fst rcv) s3) (\<lambda>s4.
       Inr (\<lparr>r_ptr = mem_address, r_device = device\<rparr>, s4))))))"

definition build_rrealloc_req ::
  "dic_rvoid_ptr \<Rightarrow> c_int \<Rightarrow> 'a mem_scheme \<Rightarrow> (req_msg \<times> 'a mem_scheme) res" where
  "build_rrealloc_req rvoid sz s =
     (let (r, s1) = REQ_BUILDER_INIT sizeof_dic_req_realloc s in
      bindR (REQ_BUILDER_SET_HEAD DIC_REALLOC r s1) (\<lambda>s2.
      bindR (store_word 8 (req_body r) (r_ptr rvoid) s2) (\<lambda>s3.
      bindR (store_word 4 (req_body r + 8) sz s3) (\<lambda>s4. Inr (r, s4)))))"

definition dic_rrealloc ::
  "dic_rvoid_ptr \<Rightarrow> c_int \<Rightarrow> 'a net_scheme \<Rightarrow> (dic_rvoid_ptr \<times> 'a net_scheme) res" where
  "dic_rrealloc rvoid sz s =
     bindR (build_rrealloc_req rvoid sz s) (\<lambda>(msg, s1).
     bindR (dic_atomic_send_recv (r_device rvoid) msg s1) (\<lambda>(rcv, s2).
     bindR (load_word 8 (fst rcv) s2) (\<lambda>mem_address.
     bindR (c_free (fst msg) s2) (\<lambda>s3.
     bindR (c_free (fst rcv) s3) (\<lambda>s4. Inr (rvoid\<lparr>r_ptr := mem_address\<rparr>, s4))))))"

definition build_rfree_req :: "dic_rvoid_ptr \<Rightarrow> 'a mem_scheme \<Rightarrow> (req_msg \<times> 'a mem_scheme) res" where
  "build_rfree_req rvoid s =
     (let (r, s1) = REQ_BUILDER_INIT sizeof_dic_req_free s in
      bindR (REQ_BUILDER_SET_HEAD DIC_FREE r s1) (\<lambda>s2.
      bindR (store_word 8 (req_body r) (r_ptr rvoid) s2) (\<lambda>s3. Inr (r, s3))))"

definition dic_rfree :: "dic_rvoid_ptr \<Rightarrow> 'a net_scheme \<Rightarrow> (c_int \<times> 'a net_scheme) res" where
  "dic_rfree rvoid s =
     bindR (build_rfree_req rvoid s) (\<lambda>(msg, s1).
     bindR (dic_atomic_send_recv (r_device rvoid) msg s1) (\<lambda>(rcv, s2).
     bindR (load_word 1 (fst rcv) s2) (\<lambda>err :: byte.
     bindR (c_free (fst msg) s2) (\<lambda>s3.
     bindR (c_free (fst rcv) s3) (\<lambda>s4. Inr (scast err, s4))))))"

definition build_memcpy_c2n_req ::
  "nat \<Rightarrow> dic_rvoid_ptr \<Rightarrow> c_int \<Rightarrow> 'a mem_scheme \<Rightarrow> (req_msg \<times> 'a mem_scheme) res" where
  "build_memcpy_c2n_req local remote sz s =
     (let (r, s1) = REQ_BUILDER_INIT_DYNAMIC sizeof_dic_req_memcpy_c2n sz s in
      bindR (REQ_BUILDER_SET_HEAD DIC_MEMCPY_C2N r s1) (\<lambda>s2.
      bindR (store_word 4 (req_body r + 8) sz s2) (\<lambda>s3.
      bindR (store_word 8 (req_body r) (r_ptr remote) s3) (\<lambda>s4.
      bindR (c_memcpy (req_body r + 12) local (size_of_int sz) s4) (\<lambda>s5. Inr (r, s5))))))"

definition dic_memcpy_c2n ::
  "nat \<Rightarrow> dic_rvoid_ptr \<Rightarrow> c_int \<Rightarrow> 'a net_scheme \<Rightarrow> (c_int \<times> 'a net_scheme) res" where
  "dic_memcpy_c2n local remote sz s =
     bindR (build_memcpy_c2n_req local remote sz s) (\<lambda>(msg, s1).
     bindR (dic_atomic_send_recv (r_device remote) msg s1) (\<lambda>(rcv, s2).
     bindR (load_word 4 (fst rcv) s2) (\<lambda>err.
     bindR (c_free (fst rcv) s2) (\<lambda>s3.
     bindR (c_free (fst msg) s3) (\<lambda>s4. Inr (err, s4))))))"

definition build_memcpy_n2c_req ::
  "nat \<Rightarrow> dic_rvoid_ptr \<Rightarrow> c_int \<Rightarrow> 'a mem_scheme \<Rightarrow> (req_msg \<times> 'a mem_scheme) res" where
  "build_memcpy_n2c_req local remote sz s =
     (let (r, s1) = REQ_BUILDER_INIT sizeof_dic_req_memcpy_n2c s in
      bindR (REQ_BUILDER_SET_HEAD DIC_MEMCPY_N2C r s1) (\<lambda>s2.
      bindR (store_word 4 (req_body r + 8) sz s2) (\<lambda>s3.
      bindR (store_word 8 (req_body r) (r_ptr remote) s3) (\<lambda>s4. Inr (r, s4)))))"

definition dic_memcpy_n2c ::
  "nat \<Rightarrow> dic_rvoid_ptr \<Rightarrow> c_int \<Rightarrow> 'a net_scheme \<Rightarrow> (c_int \<times> 'a net_scheme) res" where
  "dic_memcpy_n2c local remote sz s =
     bindR (build_memcpy_n2c_req local remote sz s) (\<lambda>(msg, s1).
     bindR (dic_atomic_send_recv (r_device remote) msg s1) (\<lambda>(rcv, s2).
     bindR (load_word 4 (fst rcv) s2) (\<lambda>data_size :: u32.
     bindR (c_memcpy local (fst rcv + 4) (unat data_size) s2) (\<lambda>s3.
     bindR (c_free (fst msg) s3) (\<lambda>s4.
     bindR (c_free (fst rcv) s4) (\<lambda>s5. Inr (0, s5)))))))"

text \<open>\<open>enum DIC_MEMCPY_MODE\<close>, which C passes as an \<open>int\<close>.\<close>

definition LOCAL_2_REMOTE :: c_int where "LOCAL_2_REMOTE = 0"
definition REMOTE_2_LOCAL :: c_int where "REMOTE_2_LOCAL = 1"

definition dic_memcpy ::
  "nat \<Rightarrow> dic_rvoid_ptr \<Rightarrow> c_int \<Rightarrow> c_int \<Rightarrow> 'a net_scheme \<Rightarrow> (c_int \<times> 'a net_scheme) res" where
  "dic_memcpy local remote sz mode s =
     (if mode = LOCAL_2_REMOTE then dic_memcpy_c2n local remote sz s
      else if mode = REMOTE_2_LOCAL then dic_memcpy_n2c local remote sz s
      else Inr (1, s))"

section \<open>Shared objects\<close>

text \<open>\<open>strcpy\<close>: reads up to the null byte and writes it too.\<close>

definition c_strcpy :: "nat \<Rightarrow> nat \<Rightarrow> 'a mem_scheme \<Rightarrow> 'a mem_scheme res" where
  "c_strcpy dst src m = bindR (load_str src m) (\<lambda>t. store dst (t @ [0]) m)"

definition build_so_load :: "nat \<Rightarrow> nat \<Rightarrow> 'a mem_scheme \<Rightarrow> (req_msg \<times> 'a mem_scheme) res" where
  "build_so_load device name s =
     bindR (load_str name s) (\<lambda>t.
     let name_len = word_of_nat (length t) + 1;
         (r, s1) = REQ_BUILDER_INIT_DYNAMIC sizeof_dic_req_so_load name_len s in
      bindR (REQ_BUILDER_SET_HEAD DIC_SO_LOAD r s1) (\<lambda>s2.
      bindR (store_word 4 (req_body r) name_len s2) (\<lambda>s3.
      bindR (c_strcpy (req_body r + 4) name s3) (\<lambda>s4. Inr (r, s4)))))"

definition dic_so_load :: "nat \<Rightarrow> nat \<Rightarrow> 'a net_scheme \<Rightarrow> (dic_rvoid_ptr \<times> 'a net_scheme) res" where
  "dic_so_load device name s =
     bindR (build_so_load device name s) (\<lambda>(msg, s1).
     bindR (dic_atomic_send_recv device msg s1) (\<lambda>(rcv, s2).
     bindR (load_word 8 (fst rcv) s2) (\<lambda>handle.
     bindR (c_free (fst rcv) s2) (\<lambda>s3.
     bindR (c_free (fst msg) s3) (\<lambda>s4.
       Inr (\<lparr>r_ptr = handle, r_device = device\<rparr>, s4))))))"

definition build_so_unload :: "dic_rvoid_ptr \<Rightarrow> 'a mem_scheme \<Rightarrow> (req_msg \<times> 'a mem_scheme) res" where
  "build_so_unload handle s =
     (let (r, s1) = REQ_BUILDER_INIT sizeof_dic_req_so_unload s in
      bindR (REQ_BUILDER_SET_HEAD DIC_SO_UNLOAD r s1) (\<lambda>s2.
      bindR (store_word 8 (req_body r) (r_ptr handle) s2) (\<lambda>s3. Inr (r, s3))))"

definition dic_so_unload :: "dic_rvoid_ptr \<Rightarrow> 'a net_scheme \<Rightarrow> (c_int \<times> 'a net_scheme) res" where
  "dic_so_unload handle s =
     bindR (build_so_unload handle s) (\<lambda>(msg, s1).
     bindR (dic_atomic_send_recv (r_device handle) msg s1) (\<lambda>(rcv, s2).
     bindR (load_word 4 (fst rcv) s2) (\<lambda>succ.
     bindR (c_free (fst rcv) s2) (\<lambda>s3.
     bindR (c_free (fst msg) s3) (\<lambda>s4. Inr (succ, s4))))))"

text \<open>The file is read through the standard library; a path that cannot be opened makes \<open>fseek\<close>
  dereference null. The length of the message is computed in \<open>long\<close> and stored as an \<open>int\<close>.\<close>

definition build_so_upload ::
  "nat \<Rightarrow> nat \<Rightarrow> nat \<Rightarrow> 'a client_scheme \<Rightarrow> (req_msg \<times> 'a client_scheme) res" where
  "build_so_upload device so_path remote_name s =
     bindR (load_str remote_name s) (\<lambda>name.
     let name_len = word_of_nat (length name) :: c_int in
     bindR (load_str so_path s) (\<lambda>path.
       case local_files s path of
         None \<Rightarrow> Inl NullDeref
       | Some bytes \<Rightarrow>
           (let file_size = length bytes;
                (r, s1) = REQ_BUILDER_INIT_DYNAMIC sizeof_dic_req_so_upload
                            (name_len + 1 + word_of_nat file_size) s in
            bindR (REQ_BUILDER_SET_HEAD DIC_SO_UPLOAD r s1) (\<lambda>s2.
            bindR (store_word 4 (req_body r + 8) name_len s2) (\<lambda>s3.
            bindR (store_word 8 (req_body r) (word_of_nat file_size :: u64) s3) (\<lambda>s4.
            bindR (c_strcpy (req_body r + 12) remote_name s4) (\<lambda>s5.
            bindR (store_word 1 (req_body r + 12 + length name) (0 :: byte) s5) (\<lambda>s6.
            bindR (store (req_body r + 12 + (length name + 1)) bytes s6) (\<lambda>s7. Inr (r, s7))))))))))"

definition dic_so_upload ::
  "nat \<Rightarrow> nat \<Rightarrow> nat \<Rightarrow> 'a client_scheme \<Rightarrow> (c_int \<times> 'a client_scheme) res" where
  "dic_so_upload device so_path remote_name s =
     bindR (build_so_upload device so_path remote_name s) (\<lambda>(msg, s1).
     bindR (dic_atomic_send_recv device msg s1) (\<lambda>(rcv, s2).
     bindR (load_word 4 (fst rcv) s2) (\<lambda>succ.
     bindR (c_free (fst rcv) s2) (\<lambda>s3.
     bindR (c_free (fst msg) s3) (\<lambda>s4. Inr (succ, s4))))))"

text \<open>\<open>build_so_verify\<close> names the operation \<open>DIC_SO_LOAD\<close>, and \<open>dic_so_verify\<close> does not call it.\<close>

definition build_so_verify :: "nat \<Rightarrow> nat \<Rightarrow> 'a mem_scheme \<Rightarrow> (req_msg \<times> 'a mem_scheme) res" where
  "build_so_verify device name s =
     bindR (load_str name s) (\<lambda>t.
     let name_len = word_of_nat (length t) + 1;
         (r, s1) = REQ_BUILDER_INIT_DYNAMIC sizeof_dic_req_so_verify name_len s in
      bindR (REQ_BUILDER_SET_HEAD DIC_SO_LOAD r s1) (\<lambda>s2.
      bindR (store_word 4 (req_body r) name_len s2) (\<lambda>s3.
      bindR (c_strcpy (req_body r + 4) name s3) (\<lambda>s4. Inr (r, s4)))))"

definition dic_so_verify :: "nat \<Rightarrow> nat \<Rightarrow> 'a net_scheme \<Rightarrow> (u64 \<times> 'a net_scheme) res" where
  "dic_so_verify device name s =
     bindR (build_so_load device name s) (\<lambda>(msg, s1).
     bindR (dic_atomic_send_recv device msg s1) (\<lambda>(rcv, s2).
     bindR (load_word 8 (fst rcv) s2) (\<lambda>checksum.
     bindR (c_free (fst rcv) s2) (\<lambda>s3.
     bindR (c_free (fst msg) s3) (\<lambda>s4. Inr (checksum, s4))))))"

section \<open>Functions and threads\<close>

text \<open>The buffer has room for the symbol but not for the null byte that \<open>strcpy\<close> writes.\<close>

definition build_func_load ::
  "dic_rvoid_ptr \<Rightarrow> nat \<Rightarrow> 'a mem_scheme \<Rightarrow> (req_msg \<times> 'a mem_scheme) res" where
  "build_func_load handle symbol s =
     bindR (load_str symbol s) (\<lambda>t.
     let sym_len = word_of_nat (length t);
         (r, s1) = REQ_BUILDER_INIT_DYNAMIC sizeof_dic_req_func_load sym_len s in
      bindR (REQ_BUILDER_SET_HEAD DIC_FUNC_LOAD r s1) (\<lambda>s2.
      bindR (store_word 8 (req_body r) (r_ptr handle) s2) (\<lambda>s3.
      bindR (c_strcpy (req_body r + 12) symbol s3) (\<lambda>s4.
      bindR (store_word 4 (req_body r + 8) sym_len s4) (\<lambda>s5. Inr (r, s5))))))"

definition dic_func_load ::
  "dic_rvoid_ptr \<Rightarrow> nat \<Rightarrow> 'a net_scheme \<Rightarrow> (dic_rvoid_ptr \<times> 'a net_scheme) res" where
  "dic_func_load so_handle symbol s =
     bindR (build_func_load so_handle symbol s) (\<lambda>(msg, s1).
     bindR (dic_atomic_send_recv (r_device so_handle) msg s1) (\<lambda>(rcv, s2).
     bindR (load_word 8 (fst rcv) s2) (\<lambda>func_ptr.
     bindR (c_free (fst rcv) s2) (\<lambda>s3.
     bindR (c_free (fst msg) s3) (\<lambda>s4.
       Inr (\<lparr>r_ptr = func_ptr, r_device = r_device so_handle\<rparr>, s4))))))"

definition build_rthread_run ::
  "dic_rvoid_ptr \<Rightarrow> dic_rvoid_ptr \<Rightarrow> 'a mem_scheme \<Rightarrow> (req_msg \<times> 'a mem_scheme) res" where
  "build_rthread_run func_ptr args_ptr s =
     (let (r, s1) = REQ_BUILDER_INIT sizeof_dic_req_run s in
      bindR (REQ_BUILDER_SET_HEAD DIC_RUN r s1) (\<lambda>s2.
      bindR (store_word 8 (req_body r) (r_ptr func_ptr) s2) (\<lambda>s3.
      bindR (store_word 8 (req_body r + 8) (r_ptr args_ptr) s3) (\<lambda>s4. Inr (r, s4)))))"

definition dic_rthread_run ::
  "dic_rvoid_ptr \<Rightarrow> dic_rvoid_ptr \<Rightarrow> 'a net_scheme \<Rightarrow> (dic_rthread \<times> 'a net_scheme) res" where
  "dic_rthread_run func_ptr args_ptr s =
     bindR (build_rthread_run func_ptr args_ptr s) (\<lambda>(msg, s1).
     bindR (dic_atomic_send_recv (r_device func_ptr) msg s1) (\<lambda>(rcv, s2).
     bindR (load_word 8 (fst rcv) s2) (\<lambda>tid.
     bindR (c_free (fst rcv) s2) (\<lambda>s3.
     bindR (c_free (fst msg) s3) (\<lambda>s4.
       Inr (\<lparr>rt_tid = tid, rt_device = r_device func_ptr\<rparr>, s4))))))"

definition build_rthread_join :: "dic_rthread \<Rightarrow> 'a mem_scheme \<Rightarrow> (req_msg \<times> 'a mem_scheme) res" where
  "build_rthread_join thread_id s =
     (let (r, s1) = REQ_BUILDER_INIT sizeof_dic_req_join s in
      bindR (REQ_BUILDER_SET_HEAD DIC_JOIN r s1) (\<lambda>s2.
      bindR (store_word 8 (req_body r) (rt_tid thread_id) s2) (\<lambda>s3. Inr (r, s3))))"

definition dic_rthread_join ::
  "dic_rthread \<Rightarrow> 'a net_scheme \<Rightarrow> (dic_rvoid_ptr \<times> 'a net_scheme) res" where
  "dic_rthread_join thread_id s =
     bindR (build_rthread_join thread_id s) (\<lambda>(msg, s1).
     bindR (dic_atomic_send_recv (rt_device thread_id) msg s1) (\<lambda>(rcv, s2).
     bindR (load_word 8 (fst rcv) s2) (\<lambda>ret_ptr.
     bindR (c_free (fst rcv) s2) (\<lambda>s3.
     bindR (c_free (fst msg) s3) (\<lambda>s4.
       Inr (\<lparr>r_ptr = ret_ptr, r_device = rt_device thread_id\<rparr>, s4))))))"

end
