(* ===== verification/So_Operations.thy ===== *)
theory So_Operations
  imports Dicon_Prelude
begin

text \<open>
  The file checksum of \<open>common/src/so_operations.c\<close>: the file is read in blocks of 4096 bytes and
  every byte is mixed into a rotating 64-bit sum.
\<close>

unbundle bit_operations_syntax

definition mix :: "u64 \<Rightarrow> byte \<Rightarrow> u64" where
  "mix acc b = ((push_bit 1 acc) OR (drop_bit 63 acc)) XOR ucast b"

fun mix_buf :: "u64 \<Rightarrow> byte list \<Rightarrow> u64" where
  "mix_buf acc [] = acc"
| "mix_buf acc (b # bs) = mix_buf (mix acc b) bs"

text \<open>The reading loop: \<open>fread\<close> returns up to 4096 bytes of what is left, and 0 at the end.\<close>

function checksum_loop :: "u64 \<Rightarrow> byte list \<Rightarrow> u64" where
  "checksum_loop acc rest =
     (let buf = take 4096 rest in
      if 0 < length buf then checksum_loop (mix_buf acc buf) (drop 4096 rest) else acc)"
  by pat_completeness auto
termination
  by (relation "measure (\<lambda>(acc, rest). length rest)") auto

declare checksum_loop.simps [simp del]

text \<open>\<open>None\<close> is a file that cannot be opened.\<close>

definition dic_checksum :: "byte list option \<Rightarrow> u64" where
  "dic_checksum file = (case file of None \<Rightarrow> 0 | Some content \<Rightarrow> checksum_loop 0 content)"

section \<open>The buffering does not show\<close>

lemma mix_buf_append: "mix_buf acc (xs @ ys) = mix_buf (mix_buf acc xs) ys"
  by (induction xs arbitrary: acc) auto

lemma mix_buf_fold: "mix_buf acc bs = fold (\<lambda>b s. mix s b) bs acc"
  by (induction bs arbitrary: acc) auto

lemma checksum_loop_eq: "checksum_loop acc rest = mix_buf acc rest"
proof (induction acc rest rule: checksum_loop.induct)
  case (1 acc rest)
  show ?case
  proof (cases "rest = []")
    case True
    then show ?thesis by (simp add: checksum_loop.simps)
  next
    case False
    then have "checksum_loop acc rest = checksum_loop (mix_buf acc (take 4096 rest)) (drop 4096 rest)"
      by (subst checksum_loop.simps) simp
    also have "\<dots> = mix_buf acc (take 4096 rest @ drop 4096 rest)"
      using 1 False by (simp add: mix_buf_append del: append_take_drop_id)
    finally show ?thesis by simp
  qed
qed

section \<open>Rotation and mixing lose nothing\<close>

lemma bit_mix:
  assumes "n < 64"
  shows "bit (mix acc b) n \<longleftrightarrow> (if n = 0 then bit acc 63 else bit acc (n - 1)) \<noteq> bit b n"
proof -
  have "bit (push_bit 1 acc) n \<longleftrightarrow> 1 \<le> n \<and> bit acc (n - 1)"
    using assms by (simp only: bit_push_bit_iff) (auto dest: bit_imp_possible_bit)
  moreover have "bit (drop_bit 63 acc) n \<longleftrightarrow> n = 0 \<and> bit acc 63"
    by (cases n) (auto simp: bit_drop_bit_eq dest: bit_imp_le_length)
  moreover have "bit (ucast b :: u64) n \<longleftrightarrow> bit b n"
    using assms by (simp add: bit_ucast_iff)
  ultimately show ?thesis
    by (auto simp only: mix_def bit_xor_iff bit_or_iff split: if_splits)
qed

lemma mix_inj_sum: "mix s b = mix t b \<longleftrightarrow> s = t"
proof
  assume eq: "mix s b = mix t b"
  show "s = t"
  proof (rule bit_word_eqI)
    fix n assume n: "n < LENGTH(64)"
    define i where "i = (if n = 63 then 0 else n + 1)"
    have "i < 64" using n by (simp add: i_def)
    with eq have "bit (mix s b) i \<longleftrightarrow> bit (mix t b) i" by simp
    with \<open>i < 64\<close> show "bit s n \<longleftrightarrow> bit t n"
      by (auto simp: bit_mix i_def split: if_splits)
  qed
qed simp

lemma mix_inj_byte: "mix s b = mix s c \<longleftrightarrow> b = c"
proof
  assume eq: "mix s b = mix s c"
  show "b = c"
  proof (rule bit_word_eqI)
    fix n assume n: "n < LENGTH(8)"
    with eq have "bit (mix s b) n \<longleftrightarrow> bit (mix s c) n" by simp
    with n show "bit b n \<longleftrightarrow> bit c n" by (auto simp: bit_mix split: if_splits)
  qed
qed simp

lemma mix_buf_inj: "mix_buf s bs = mix_buf t bs \<longleftrightarrow> s = t"
  by (induction bs arbitrary: s t) (auto simp: mix_inj_sum)

lemma mix_buf_zeros: "mix_buf 0 (replicate n 0) = 0"
  by (induction n) (auto simp: mix_def)

section \<open>What the checksum tells\<close>

text \<open>C30. Reading in blocks of 4096 bytes does not show: the checksum of a file is its bytes, mixed one after
  the other into a sum that starts at 0.\<close>

theorem dic_checksum_whole: "dic_checksum (Some content) = fold (\<lambda>b sum. mix sum b) content 0"
  by (simp add: dic_checksum_def checksum_loop_eq mix_buf_fold)

text \<open>A file in which one byte differs has a different checksum, wherever the byte is.\<close>

lemma dic_checksum_byte:
  "dic_checksum (Some (xs @ b # ys)) = dic_checksum (Some (xs @ c # ys)) \<longleftrightarrow> b = c"
  by (simp add: dic_checksum_def checksum_loop_eq mix_buf_append mix_buf_inj mix_inj_byte)

text \<open>A file of null bytes, and an empty one, cannot be told from a file that cannot be opened.\<close>

lemma dic_checksum_zeros: "dic_checksum (Some (replicate n 0)) = dic_checksum None"
  by (simp add: dic_checksum_def checksum_loop_eq mix_buf_zeros)

end
