(* ===== verification/Node.thy ===== *)
theory Node
  imports Protocol So_Operations
begin

text \<open>
  The compute node, \<open>node/src/node_client_communication.c\<close>: one handler per request, the response
  builder macros, and \<open>dic_node_recv_send\<close>, which receives one request, dispatches it, sends the
  response and releases the buffers.

  A node is a process with a network (the record of theory Sockets) extended with its file system,
  the dynamic loader and its threads. The loader's and the thread library's answers are lists in the
  state, as the allocator's are. The functions that clients load and run are not part of the
  repository: they are the parameter \<open>user\<close>, which maps a function address, an argument pointer and
  the memory to the returned pointer and the memory after the call, or to \<open>None\<close> when the call never
  returns.
\<close>

section \<open>The state of a node\<close>

datatype thread = Running nat nat | Finished nat

record node = net +
  files :: "byte list \<rightharpoonup> byte list"
  unwritable :: "byte list \<Rightarrow> bool"
  dl_choices :: "nat list"
  dl_open :: "nat \<rightharpoonup> byte list \<times> nat"
  dl_sym :: "nat \<Rightarrow> byte list \<Rightarrow> nat"
  thread_choices :: "(bool \<times> u64) list"
  threads :: "u64 \<rightharpoonup> thread"

type_synonym user_code = "nat \<Rightarrow> nat \<Rightarrow> mem \<Rightarrow> (nat \<times> mem) option"

section \<open>The dynamic loader, files and threads\<close>

text \<open>\<open>dlopen\<close> fails on a file that is not there or that the loader rejects; opening a loaded library
  again returns the same handle and counts it.\<close>

definition c_dlopen :: "byte list \<Rightarrow> 'a node_scheme \<Rightarrow> nat \<times> 'a node_scheme" where
  "c_dlopen path s =
     (if files s path = None then (0, s)
      else case dl_choices s of
             [] \<Rightarrow> (0, s)
           | h # r \<Rightarrow>
               (if 0 < h \<and> h < 2 ^ 64 then
                  (case dl_open s h of
                     None \<Rightarrow> (h, s\<lparr>dl_open := (dl_open s)(h \<mapsto> (path, 1)), dl_choices := r\<rparr>)
                   | Some (q, n) \<Rightarrow>
                       (if q = path
                        then (h, s\<lparr>dl_open := (dl_open s)(h \<mapsto> (path, n + 1)), dl_choices := r\<rparr>)
                        else (0, s\<lparr>dl_choices := r\<rparr>)))
                else (0, s\<lparr>dl_choices := r\<rparr>)))"

definition c_dlclose :: "nat \<Rightarrow> 'a node_scheme \<Rightarrow> 'a node_scheme res" where
  "c_dlclose h s =
     (case dl_open s h of
        None \<Rightarrow> Inl BadHandle
      | Some (path, n) \<Rightarrow>
          Inr (s\<lparr>dl_open := (dl_open s)(h := if n \<le> 1 then None else Some (path, n - 1))\<rparr>))"

text \<open>The null handle is \<open>RTLD_DEFAULT\<close>: the search goes through the node's own symbols.\<close>

definition c_dlsym :: "nat \<Rightarrow> byte list \<Rightarrow> 'a node_scheme \<Rightarrow> nat res" where
  "c_dlsym h symbol s =
     (if h = 0 \<or> dl_open s h \<noteq> None then Inr (dl_sym s h symbol) else Inl BadHandle)"

text \<open>\<open>asprintf\<close> allocates the formatted text with its terminating null byte.\<close>

definition c_asprintf :: "byte list \<Rightarrow> 'a mem_scheme \<Rightarrow> (nat \<times> 'a mem_scheme) res" where
  "c_asprintf t m =
     (let (p, m1) = c_malloc (length t + 1) m in
      if p = 0 then Inl NullDeref
      else bindR (store p (t @ [0]) m1) (\<lambda>m2. Inr (p, m2)))"

definition c_pthread_create :: "nat \<Rightarrow> nat \<Rightarrow> 'a node_scheme \<Rightarrow> u64 \<times> 'a node_scheme" where
  "c_pthread_create func arg s =
     (case thread_choices s of
        [] \<Rightarrow> (0, s)
      | (ok, tid) # r \<Rightarrow>
          (if ok \<and> threads s tid = None
           then (tid, s\<lparr>threads := (threads s)(tid \<mapsto> Running func arg), thread_choices := r\<rparr>)
           else (tid, s\<lparr>thread_choices := r\<rparr>)))"

text \<open>A running thread may finish at any moment between two requests.\<close>

definition run_thread :: "user_code \<Rightarrow> u64 \<Rightarrow> 'a node_scheme \<Rightarrow> 'a node_scheme option" where
  "run_thread user tid s =
     (case threads s tid of
        Some (Running func arg) \<Rightarrow>
          (case user func arg \<lparr>blocks = blocks s, choices = choices s\<rparr> of
             None \<Rightarrow> None
           | Some (ret, m) \<Rightarrow>
               Some (s\<lparr>blocks := blocks m, choices := choices m,
                       threads := (threads s)(tid \<mapsto> Finished ret)\<rparr>))
      | _ \<Rightarrow> None)"

definition c_pthread_join :: "user_code \<Rightarrow> u64 \<Rightarrow> 'a node_scheme \<Rightarrow> (nat \<times> 'a node_scheme) res" where
  "c_pthread_join user tid s =
     (case threads s tid of
        None \<Rightarrow> Inl BadThread
      | Some (Finished ret) \<Rightarrow> Inr (ret, s\<lparr>threads := (threads s)(tid := None)\<rparr>)
      | Some (Running _ _) \<Rightarrow>
          (case run_thread user tid s of
             None \<Rightarrow> Inl Blocked
           | Some s1 \<Rightarrow>
               (case threads s1 tid of
                  Some (Finished ret) \<Rightarrow> Inr (ret, s1\<lparr>threads := (threads s1)(tid := None)\<rparr>)
                | _ \<Rightarrow> Inl Blocked)))"

section \<open>The response builder\<close>

type_synonym msg_builder_ret = "nat \<times> c_int"

definition RESP_HEAD_SIZE :: nat where "RESP_HEAD_SIZE = sizeof_dic_resp_head_generic"

definition RESP_BUILDER_INIT_DYNAMIC ::
  "nat \<Rightarrow> u32 \<Rightarrow> 'a mem_scheme \<Rightarrow> msg_builder_ret \<times> 'a mem_scheme" where
  "RESP_BUILDER_INIT_DYNAMIC resp_body_size dynamic_size m =
     (let msg_len = word_of_nat (RESP_HEAD_SIZE + resp_body_size) + dynamic_size;
          (msg, m1) = c_malloc (size_of_int msg_len) m
      in ((msg, msg_len), m1))"

definition RESP_BUILDER_INIT :: "nat \<Rightarrow> 'a mem_scheme \<Rightarrow> msg_builder_ret \<times> 'a mem_scheme" where
  "RESP_BUILDER_INIT resp_body_size m = RESP_BUILDER_INIT_DYNAMIC resp_body_size 0 m"

definition RESP_SET_HEAD :: "msg_builder_ret \<Rightarrow> 'a mem_scheme \<Rightarrow> 'a mem_scheme res" where
  "RESP_SET_HEAD r m = store_word 4 (fst r) (snd r - word_of_nat RESP_HEAD_SIZE) m"

text \<open>The address of the response body, \<open>resp_body\<close> in the source.\<close>

definition resp_body :: "msg_builder_ret \<Rightarrow> nat" where
  "resp_body r = fst r + RESP_HEAD_SIZE"

section \<open>The handlers\<close>

text \<open>Each handler gets the address of the request body and returns the response buffer.\<close>

definition handle_malloc :: "nat \<Rightarrow> 'a mem_scheme \<Rightarrow> (msg_builder_ret \<times> 'a mem_scheme) res" where
  "handle_malloc req_body s =
     (let (r, s1) = RESP_BUILDER_INIT sizeof_dic_resp_malloc s in
      bindR (RESP_SET_HEAD r s1) (\<lambda>s2.
      bindR (load_word 4 req_body s2) (\<lambda>size :: u32.
        if size = 0 then
          bindR (store_word 8 (resp_body r) UNULL s2) (\<lambda>s3. Inr (r, s3))
        else
          let (ptr, s3) = c_malloc (unat size) s2 in
          bindR (store_word 8 (resp_body r) (word_of_nat ptr :: u64) s3) (\<lambda>s4. Inr (r, s4)))))"

definition handle_realloc :: "nat \<Rightarrow> 'a mem_scheme \<Rightarrow> (msg_builder_ret \<times> 'a mem_scheme) res" where
  "handle_realloc req_body s =
     (let (r, s1) = RESP_BUILDER_INIT sizeof_dic_resp_realloc s in
      bindR (RESP_SET_HEAD r s1) (\<lambda>s2.
      bindR (load_word 8 req_body s2) (\<lambda>void_ptr :: u64.
      bindR (load_word 4 (req_body + 8) s2) (\<lambda>size :: u32.
      bindR (c_realloc (unat void_ptr) (unat size) s2) (\<lambda>(new_ptr, s3).
      bindR (store_word 8 (resp_body r) (word_of_nat new_ptr :: u64) s3) (\<lambda>s4. Inr (r, s4)))))))"

definition handle_free :: "nat \<Rightarrow> 'a mem_scheme \<Rightarrow> (msg_builder_ret \<times> 'a mem_scheme) res" where
  "handle_free req_body s =
     (let (r, s1) = RESP_BUILDER_INIT sizeof_dic_resp_free s in
      bindR (RESP_SET_HEAD r s1) (\<lambda>s2.
      bindR (load_word 8 req_body s2) (\<lambda>void_ptr :: u64.
      bindR (c_free (unat void_ptr) s2) (\<lambda>s3.
      bindR (store_word 1 (resp_body r) (0 :: byte) s3) (\<lambda>s4. Inr (r, s4))))))"

definition handle_memcpy_c2n :: "nat \<Rightarrow> 'a mem_scheme \<Rightarrow> (msg_builder_ret \<times> 'a mem_scheme) res" where
  "handle_memcpy_c2n req_body s =
     (let (r, s1) = RESP_BUILDER_INIT sizeof_dic_resp_memcpy_c2n s in
      bindR (RESP_SET_HEAD r s1) (\<lambda>s2.
      bindR (load_word 8 req_body s2) (\<lambda>dest :: u64.
      bindR (load_word 4 (req_body + 8) s2) (\<lambda>data_size :: u32.
      bindR (c_memcpy (unat dest) (req_body + 12) (unat data_size) s2) (\<lambda>s3.
      bindR (store_word 4 (resp_body r) (0 :: u32) s3) (\<lambda>s4. Inr (r, s4)))))))"

definition handle_memcpy_n2c :: "nat \<Rightarrow> 'a mem_scheme \<Rightarrow> (msg_builder_ret \<times> 'a mem_scheme) res" where
  "handle_memcpy_n2c req_body s =
     bindR (load_word 4 (req_body + 8) s) (\<lambda>data_size :: u32.
     let (r, s1) = RESP_BUILDER_INIT_DYNAMIC sizeof_dic_resp_memcpy_n2c data_size s in
      bindR (RESP_SET_HEAD r s1) (\<lambda>s2.
      bindR (store_word 4 (resp_body r) data_size s2) (\<lambda>s3.
      bindR (load_word 8 req_body s3) (\<lambda>src :: u64.
      bindR (c_memcpy (resp_body r + 4) (unat src) (unat data_size) s3) (\<lambda>s4. Inr (r, s4))))))"

definition so_path_prefix :: "byte list" where
  "so_path_prefix = bytes_of ''user_objects/''"

definition so_path_of :: "byte list \<Rightarrow> byte list" where
  "so_path_of name = so_path_prefix @ name @ bytes_of ''.so''"

text \<open>The buffer for the path is \<open>sizeof(so_path_prefix) + so_len\<close> bytes.\<close>

definition handle_so_load :: "nat \<Rightarrow> 'a node_scheme \<Rightarrow> (msg_builder_ret \<times> 'a node_scheme) res" where
  "handle_so_load req_body s =
     (let (r, s1) = RESP_BUILDER_INIT sizeof_dic_resp_so_load s in
      bindR (RESP_SET_HEAD r s1) (\<lambda>s2.
      bindR (load_word 4 req_body s2) (\<lambda>so_len :: u32.
      let (so_path, s3) = c_malloc (length so_path_prefix + 1 + unat so_len) s2 in
      bindR (load_str (req_body + 4) s3) (\<lambda>so_name.
      bindR (store so_path (so_path_of so_name @ [0]) s3) (\<lambda>s4.
      bindR (load_str so_path s4) (\<lambda>path.
      let (handle, s5) = c_dlopen path s4 in
      bindR (c_free so_path s5) (\<lambda>s6.
      bindR (store_word 8 (resp_body r) (word_of_nat handle :: u64) s6) (\<lambda>s7. Inr (r, s7)))))))))"

definition handle_so_unload :: "nat \<Rightarrow> 'a node_scheme \<Rightarrow> (msg_builder_ret \<times> 'a node_scheme) res" where
  "handle_so_unload req_body s =
     (let (r, s1) = RESP_BUILDER_INIT sizeof_dic_resp_so_unload s in
      bindR (RESP_SET_HEAD r s1) (\<lambda>s2.
      bindR (load_word 8 req_body s2) (\<lambda>handle :: u64.
      bindR (c_dlclose (unat handle) s2) (\<lambda>s3.
      bindR (store_word 4 (resp_body r) (0 :: u32) s3) (\<lambda>s4. Inr (r, s4))))))"

text \<open>A path that cannot be opened makes \<open>so_file\<close> null, which \<open>fileno\<close> dereferences. The response's
  \<open>success\<close> field is not written and the path is not freed.\<close>

definition handle_so_upload :: "nat \<Rightarrow> 'a node_scheme \<Rightarrow> (msg_builder_ret \<times> 'a node_scheme) res" where
  "handle_so_upload req_body s =
     (let (r, s1) = RESP_BUILDER_INIT sizeof_dic_resp_so_upload s in
      bindR (RESP_SET_HEAD r s1) (\<lambda>s2.
      bindR (load_str (req_body + 12) s2) (\<lambda>name.
      bindR (c_asprintf (so_path_of name) s2) (\<lambda>(path, s3).
      bindR (load_str path s3) (\<lambda>pathname.
        if unwritable s3 pathname then Inl NullDeref
        else
          bindR (load_word 4 (req_body + 8) s3) (\<lambda>name_len :: u32.
          bindR (load_word 8 req_body s3) (\<lambda>file_size :: u64.
          bindR (load (req_body + 12 + unat name_len + 1) (unat file_size) s3) (\<lambda>file_bytes.
            Inr (r, s3\<lparr>files := (files s3)(pathname \<mapsto> file_bytes)\<rparr>)))))))))"

definition handle_so_verify :: "nat \<Rightarrow> 'a node_scheme \<Rightarrow> (msg_builder_ret \<times> 'a node_scheme) res" where
  "handle_so_verify req_body s =
     (let (r, s1) = RESP_BUILDER_INIT sizeof_dic_resp_so_verify s in
      bindR (RESP_SET_HEAD r s1) (\<lambda>s2.
      bindR (load_str (req_body + 4) s2) (\<lambda>so_name.
      bindR (c_asprintf (so_path_of so_name) s2) (\<lambda>(path, s3).
      bindR (load_str path s3) (\<lambda>pathname.
      bindR (store_word 8 (resp_body r) (dic_checksum (files s3 pathname)) s3) (\<lambda>s4. Inr (r, s4)))))))"

definition handle_func_load :: "nat \<Rightarrow> 'a node_scheme \<Rightarrow> (msg_builder_ret \<times> 'a node_scheme) res" where
  "handle_func_load req_body s =
     (let (r, s1) = RESP_BUILDER_INIT sizeof_dic_resp_func_load s in
      bindR (RESP_SET_HEAD r s1) (\<lambda>s2.
      bindR (load_word 8 req_body s2) (\<lambda>so_handle :: u64.
      bindR (load_str (req_body + 12) s2) (\<lambda>symbol.
      bindR (c_dlsym (unat so_handle) symbol s2) (\<lambda>func.
      bindR (store_word 8 (resp_body r) (word_of_nat func :: u64) s2) (\<lambda>s3. Inr (r, s3)))))))"

definition handle_run :: "nat \<Rightarrow> 'a node_scheme \<Rightarrow> (msg_builder_ret \<times> 'a node_scheme) res" where
  "handle_run req_body s =
     (let (r, s1) = RESP_BUILDER_INIT sizeof_dic_resp_run s in
      bindR (RESP_SET_HEAD r s1) (\<lambda>s2.
      bindR (load_word 8 req_body s2) (\<lambda>func_ptr :: u64.
      bindR (load_word 8 (req_body + 8) s2) (\<lambda>args_ptr :: u64.
      let (t_id, s3) = c_pthread_create (unat func_ptr) (unat args_ptr) s2 in
      bindR (store_word 8 (resp_body r) t_id s3) (\<lambda>s4. Inr (r, s4))))))"

definition handle_join ::
  "user_code \<Rightarrow> nat \<Rightarrow> 'a node_scheme \<Rightarrow> (msg_builder_ret \<times> 'a node_scheme) res" where
  "handle_join user req_body s =
     (let (r, s1) = RESP_BUILDER_INIT sizeof_dic_resp_join s in
      bindR (RESP_SET_HEAD r s1) (\<lambda>s2.
      bindR (load_word 8 req_body s2) (\<lambda>t_id :: u64.
      bindR (c_pthread_join user t_id s2) (\<lambda>(ret_ptr, s3).
      bindR (store_word 8 (resp_body r) (word_of_nat ret_ptr :: u64) s3) (\<lambda>s4. Inr (r, s4))))))"

section \<open>Receiving, dispatching and answering one request\<close>

text \<open>The \<open>switch\<close> of \<open>dic_node_recv_send\<close>: an operation it does not list gives no message.\<close>

definition dispatch ::
  "user_code \<Rightarrow> u16 \<Rightarrow> nat \<Rightarrow> 'a node_scheme \<Rightarrow> (msg_builder_ret \<times> 'a node_scheme) res" where
  "dispatch user operation body s =
     (if operation = op_code DIC_MALLOC then handle_malloc body s
      else if operation = op_code DIC_REALLOC then handle_realloc body s
      else if operation = op_code DIC_FREE then handle_free body s
      else if operation = op_code DIC_MEMCPY_C2N then handle_memcpy_c2n body s
      else if operation = op_code DIC_MEMCPY_N2C then handle_memcpy_n2c body s
      else if operation = op_code DIC_SO_LOAD then handle_so_load body s
      else if operation = op_code DIC_SO_UNLOAD then handle_so_unload body s
      else if operation = op_code DIC_SO_UPLOAD then handle_so_upload body s
      else if operation = op_code DIC_FUNC_LOAD then handle_func_load body s
      else if operation = op_code DIC_RUN then handle_run body s
      else if operation = op_code DIC_JOIN then handle_join user body s
      else Inr ((0, 0), s))"

definition dic_node_recv_send :: "user_code \<Rightarrow> nat \<Rightarrow> 'a node_scheme \<Rightarrow> (int \<times> 'a node_scheme) res" where
  "dic_node_recv_send user conn s =
     bindR (c_alloca sizeof_dic_req_head_generic s) (\<lambda>(head, s0).
     bindR (dic_conn_recv conn head (word_of_nat sizeof_dic_req_head_generic) False s0) (\<lambda>(res, s1).
     if res \<noteq> 0 then Inr (res, del_block head s1)
     else
       bindR (load_word 4 (head + 4) s1) (\<lambda>body_size :: u32.
       let (body, s2) = c_malloc (unat body_size) s1 in
       bindR (dic_conn_recv conn body body_size False s2) (\<lambda>(res, s3).
       if res \<noteq> 0 then Inr (res, del_block head s3)
       else
         bindR (load_word 2 head s3) (\<lambda>operation :: u16.
         bindR (dispatch user operation body s3) (\<lambda>(msg, s4).
         bindR (if fst msg \<noteq> 0 then dic_conn_send conn (fst msg) (snd msg) s4 else Inr (0, s4)) (\<lambda>(_, s5).
         bindR (c_free body s5) (\<lambda>s6.
         bindR (c_free (fst msg) s6) (\<lambda>s7.
           Inr (0, del_block head s7))))))))))"

end
