(* ===== verification/Node_Spec.thy ===== *)
theory Node_Spec
  imports Node
begin

text \<open>
  The abstract specification of a compute node: what a client may rely on, with no buffers, no
  allocator and no byte streams. A request is a value of a datatype; \<open>request_bytes\<close> is its image on
  the wire as the protocol header lays it out; a node's state is a \<open>view\<close> (the objects clients can
  address, the uploaded files and the paths that cannot be written, the loaded libraries with their
  symbols, the threads); \<open>exec\<close> says which reply and which
  new view a request may have, and \<open>allowed\<close> is what the caller has to guarantee. The
  objects at \<open>H\<close> are the node's own and no part of the view, so no request may name them; with the connection in \<open>H\<close>,
  no request can free or overwrite the connection it came on.
\<close>

section \<open>Requests and their wire image\<close>

datatype request =
    Malloc u32
  | Realloc u64 u32
  | Free u64
  | Memcpy_c2n u64 "byte list"
  | Memcpy_n2c u64 u32
  | So_load "byte list"
  | So_unload u64
  | So_upload "byte list" "byte list"
  | Func_load u64 "byte list"
  | Run u64 u64
  | Join u64

fun request_op :: "request \<Rightarrow> dic_operation" where
  "request_op (Malloc _) = DIC_MALLOC"
| "request_op (Realloc _ _) = DIC_REALLOC"
| "request_op (Free _) = DIC_FREE"
| "request_op (Memcpy_c2n _ _) = DIC_MEMCPY_C2N"
| "request_op (Memcpy_n2c _ _) = DIC_MEMCPY_N2C"
| "request_op (So_load _) = DIC_SO_LOAD"
| "request_op (So_unload _) = DIC_SO_UNLOAD"
| "request_op (So_upload _ _) = DIC_SO_UPLOAD"
| "request_op (Func_load _ _) = DIC_FUNC_LOAD"
| "request_op (Run _ _) = DIC_RUN"
| "request_op (Join _) = DIC_JOIN"

fun body_bytes :: "request \<Rightarrow> byte list" where
  "body_bytes (Malloc n) = enc_dic_req_malloc \<lparr>req_malloc_size = n\<rparr>"
| "body_bytes (Realloc p n) =
     enc_dic_req_realloc \<lparr>req_realloc_void_ptr = p, req_realloc_size = n\<rparr>"
| "body_bytes (Free p) = enc_dic_req_free \<lparr>req_free_void_ptr = p\<rparr>"
| "body_bytes (Memcpy_c2n d bs) =
     enc_dic_req_memcpy_c2n \<lparr>req_memcpy_c2n_dest = d,
       req_memcpy_c2n_data_size = word_of_nat (length bs)\<rparr> @ bs"
| "body_bytes (Memcpy_n2c q n) =
     enc_dic_req_memcpy_n2c \<lparr>req_memcpy_n2c_src = q, req_memcpy_n2c_data_size = n\<rparr>"
| "body_bytes (So_load name) =
     enc_dic_req_so_load \<lparr>req_so_load_so_len = word_of_nat (length name + 1)\<rparr> @ name @ [0]"
| "body_bytes (So_unload h) = enc_dic_req_so_unload \<lparr>req_so_unload_handle = h\<rparr>"
| "body_bytes (So_upload name bs) =
     enc_dic_req_so_upload \<lparr>req_so_upload_file_size = word_of_nat (length bs),
       req_so_upload_name_len = word_of_nat (length name)\<rparr> @ name @ [0] @ bs"
| "body_bytes (Func_load h symbol) =
     enc_dic_req_func_load \<lparr>req_func_load_so_handle = h,
       req_func_load_symlen = word_of_nat (length symbol)\<rparr> @ symbol @ [0]"
| "body_bytes (Run f a) = enc_dic_req_run \<lparr>req_run_func_ptr = f, req_run_args_ptr = a\<rparr>"
| "body_bytes (Join t) = enc_dic_req_join \<lparr>req_join_tid = t\<rparr>"

definition head_bytes :: "u16 \<Rightarrow> nat \<Rightarrow> byte list" where
  "head_bytes opc n = enc_dic_req_head_generic \<lparr>req_head_operation = opc, req_head_version = 0,
     req_head_body_size = word_of_nat n\<rparr>"

definition request_bytes :: "request \<Rightarrow> byte list" where
  "request_bytes r = head_bytes (op_code (request_op r)) (length (body_bytes r)) @ body_bytes r"

text \<open>A reply is a body behind a head that holds its length.\<close>

definition reply_bytes :: "byte list \<Rightarrow> byte list" where
  "reply_bytes rb = enc_dic_resp_head_generic \<lparr>resp_head_body_size = word_of_nat (length rb)\<rparr> @ rb"

section \<open>The abstract node\<close>

record view =
  v_heap :: "nat \<rightharpoonup> byte list"
  v_files :: "byte list \<rightharpoonup> byte list"
  v_libs :: "nat \<rightharpoonup> byte list \<times> nat"
  v_threads :: "u64 \<rightharpoonup> thread"
  v_sym :: "nat \<Rightarrow> byte list \<Rightarrow> nat"
  v_readonly :: "byte list \<Rightarrow> bool"
  v_spawn :: "(bool \<times> u64) list"

text \<open>\<open>within v q n a k bs\<close>: the \<open>n\<close> bytes at \<open>q\<close> are bytes \<open>k, \<dots>, k + n - 1\<close> of the object \<open>bs\<close> at \<open>a\<close>.\<close>

definition within :: "view \<Rightarrow> u64 \<Rightarrow> nat \<Rightarrow> nat \<Rightarrow> nat \<Rightarrow> byte list \<Rightarrow> bool" where
  "within v q n a k bs \<longleftrightarrow> v_heap v a = Some bs \<and> unat q = a + k \<and> k + n \<le> length bs"

definition new_object :: "view \<Rightarrow> nat \<Rightarrow> nat \<Rightarrow> byte list \<Rightarrow> bool" where
  "new_object v n p bs \<longleftrightarrow> 0 < p \<and> p < 2 ^ 64 \<and> v_heap v p = None \<and> n \<le> length bs"

definition ptr_reply :: "nat \<Rightarrow> byte list" where
  "ptr_reply p = enc_word 8 (word_of_nat p :: u64)"

text \<open>What the caller has to respect: pointers into live objects, handles that exist, threads
  that have finished, sizes below 1 GiB, and names without null bytes.\<close>

fun allowed :: "request \<Rightarrow> view \<Rightarrow> bool" where
  "allowed (Malloc n) v \<longleftrightarrow> True"
| "allowed (Realloc p n) v \<longleftrightarrow> p = 0 \<or> v_heap v (unat p) \<noteq> None"
| "allowed (Free p) v \<longleftrightarrow> p = 0 \<or> v_heap v (unat p) \<noteq> None"
| "allowed (Memcpy_c2n d bs) v \<longleftrightarrow> length bs < 2 ^ 30 \<and> (\<exists>a k cs. within v d (length bs) a k cs)"
| "allowed (Memcpy_n2c q n) v \<longleftrightarrow> unat n < 2 ^ 30 \<and> (\<exists>a k cs. within v q (unat n) a k cs)"
| "allowed (So_load name) v \<longleftrightarrow> 0 \<notin> set name \<and> length name < 2 ^ 30"
| "allowed (So_unload h) v \<longleftrightarrow> v_libs v (unat h) \<noteq> None"
| "allowed (So_upload name bs) v \<longleftrightarrow> 0 \<notin> set name \<and> length name < 2 ^ 29 \<and> length bs < 2 ^ 29 \<and>
     \<not> v_readonly v (so_path_of name)"
| "allowed (Func_load h symbol) v \<longleftrightarrow>
     (h = 0 \<or> v_libs v (unat h) \<noteq> None) \<and> 0 \<notin> set symbol \<and> length symbol < 2 ^ 30"
| "allowed (Run f a) v \<longleftrightarrow> True"
| "allowed (Join t) v \<longleftrightarrow> (\<exists>ret. v_threads v t = Some (Finished ret))"

text \<open>A new thread: the list \<open>v_spawn\<close> says of each future call of \<open>pthread_create\<close> whether it succeeds, and which
  name it leaves. Only a call that fails starts nothing.\<close>

definition spawn :: "nat \<Rightarrow> nat \<Rightarrow> view \<Rightarrow> u64 \<times> view" where
  "spawn func arg v =
     (case v_spawn v of
        [] \<Rightarrow> (0, v)
      | (ok, t) # r \<Rightarrow>
          (t, if ok \<and> v_threads v t = None then v\<lparr>v_threads := (v_threads v)(t \<mapsto> Running func arg), v_spawn := r\<rparr>
              else v\<lparr>v_spawn := r\<rparr>))"

lemma spawn_heap: "v_heap (snd (spawn func arg v)) = v_heap v"
  by (simp add: spawn_def split: list.split prod.split)

text \<open>The possible replies and effects of a request.\<close>

fun exec :: "request \<Rightarrow> view \<Rightarrow> byte list \<Rightarrow> view \<Rightarrow> bool" where
  "exec (Malloc n) v rb v' \<longleftrightarrow>
     rb = ptr_reply 0 \<and> v' = v \<or>
     n \<noteq> 0 \<and> (\<exists>p bs. new_object v (unat n) p bs \<and> rb = ptr_reply p \<and> v' = v\<lparr>v_heap := (v_heap v)(p \<mapsto> bs)\<rparr>)"
| "exec (Realloc q n) v rb v' \<longleftrightarrow>
     rb = ptr_reply 0 \<and> v' = (if n = 0 \<and> q \<noteq> 0 then v\<lparr>v_heap := (v_heap v)(unat q := None)\<rparr> else v) \<or>
     rb = ptr_reply 0 \<and> v' = v \<and> n \<noteq> 0 \<or>
     (\<exists>p bs. q = 0 \<and> new_object v (unat n) p bs \<and> rb = ptr_reply p \<and> v' = v\<lparr>v_heap := (v_heap v)(p \<mapsto> bs)\<rparr>) \<or>
     (\<exists>p bs old. q \<noteq> 0 \<and> n \<noteq> 0 \<and> v_heap v (unat q) = Some old \<and>
        new_object (v\<lparr>v_heap := (v_heap v)(unat q := None)\<rparr>) (unat n) p bs \<and>
        (\<forall>i < min (unat n) (length old). bs ! i = old ! i) \<and>
        rb = ptr_reply p \<and> v' = v\<lparr>v_heap := (v_heap v)(unat q := None, p \<mapsto> bs)\<rparr>)"
| "exec (Free q) v rb v' \<longleftrightarrow>
     rb = [0] \<and> v' = (if q = 0 then v else v\<lparr>v_heap := (v_heap v)(unat q := None)\<rparr>)"
| "exec (Memcpy_c2n d bs) v rb v' \<longleftrightarrow>
     rb = enc_word 4 (0 :: u32) \<and>
     (\<exists>a k cs. within v d (length bs) a k cs \<and> v' = v\<lparr>v_heap := (v_heap v)(a \<mapsto> patch cs k bs)\<rparr>)"
| "exec (Memcpy_n2c q n) v rb v' \<longleftrightarrow>
     v' = v \<and> (\<exists>a k cs. within v q (unat n) a k cs \<and> rb = enc_word 4 n @ take (unat n) (drop k cs))"
| "exec (So_load name) v rb v' \<longleftrightarrow>
     rb = ptr_reply 0 \<and> v' = v \<or>
     (\<exists>h n. 0 < h \<and> v_files v (so_path_of name) \<noteq> None \<and> rb = ptr_reply h \<and>
        v' = v\<lparr>v_libs := (v_libs v)(h \<mapsto> (so_path_of name, n))\<rparr> \<and>
        (v_libs v h = None \<and> n = 1 \<or> v_libs v h = Some (so_path_of name, n - 1) \<and> 0 < n))"
| "exec (So_unload h) v rb v' \<longleftrightarrow>
     rb = enc_word 4 (0 :: u32) \<and>
     (\<exists>path n. v_libs v (unat h) = Some (path, n) \<and>
        v' = v\<lparr>v_libs := (v_libs v)(unat h := if n \<le> 1 then None else Some (path, n - 1))\<rparr>)"
| "exec (So_upload name bs) v rb v' \<longleftrightarrow>
     length rb = 4 \<and>
     (\<exists>q qs. new_object v (length (so_path_of name) + 1) q qs \<and>
        v' = v\<lparr>v_heap := (v_heap v)(q \<mapsto> qs), v_files := (v_files v)(so_path_of name \<mapsto> bs)\<rparr>)"
| "exec (Func_load h symbol) v rb v' \<longleftrightarrow> v' = v \<and> rb = ptr_reply (v_sym v (unat h) symbol)"
| "exec (Run f a) v rb v' \<longleftrightarrow>
     rb = enc_word 8 (fst (spawn (unat f) (unat a) v)) \<and> v' = snd (spawn (unat f) (unat a) v)"
| "exec (Join t) v rb v' \<longleftrightarrow>
     (\<exists>ret. v_threads v t = Some (Finished ret) \<and> rb = ptr_reply ret \<and>
        v' = v\<lparr>v_threads := (v_threads v)(t := None)\<rparr>)"

section \<open>The view of a concrete node\<close>

text \<open>The objects at the addresses \<open>H\<close> are the node's own buffers, not visible to clients.\<close>

definition view_of :: "nat set \<Rightarrow> 'a node_scheme \<Rightarrow> view" where
  "view_of H s = \<lparr>v_heap = heap_of s |` (- H), v_files = files s, v_libs = dl_open s,
     v_threads = threads s, v_sym = dl_sym s, v_readonly = unwritable s, v_spawn = thread_choices s\<rparr>"

text \<open>The sizes of the buffers a request makes its handler allocate, in order. The library path needs
  two bytes more than the source asks for.\<close>

fun needs :: "request \<Rightarrow> nat list" where
  "needs (Malloc _) = [12]"
| "needs (Realloc _ _) = [12]"
| "needs (Free _) = [5]"
| "needs (Memcpy_c2n _ _) = [8]"
| "needs (Memcpy_n2c _ n) = [8 + unat n]"
| "needs (So_load name) = [12, 17 + length name]"
| "needs (So_unload _) = [8]"
| "needs (So_upload name _) = [8, length (so_path_of name) + 1]"
| "needs (Func_load _ _) = [12]"
| "needs (Run _ _) = [12]"
| "needs (Join _) = [12]"

end
