(* ===== verification/Client_Correct.thy ===== *)
theory Client_Correct
  imports Client Node_Spec
begin

text \<open>
  The client library speaks the protocol of theory Node_Spec. The request builder is executed once; a
  builder that produces the wire image of a request satisfies the contract of the locale
  \<open>request_builder\<close>, inside which the exchange and the two shapes of a call (which buffer is freed
  first) are proved once; the locale is interpreted on the builders of the source.
\<close>

section \<open>The request under construction\<close>

lemma patch_right: "length a = j \<Longrightarrow> patch (a @ b) (j + i) v = a @ patch b i v"
  by (simp add: patch_def)

text \<open>\<open>draft s ns msg len n l m\<close>: in \<open>m\<close> a message buffer for a body of \<open>n\<close> bytes stands at \<open>msg\<close>, with \<open>l\<close>
  bytes of room after the head; otherwise \<open>m\<close> is \<open>s\<close> and its allocator still serves \<open>ns\<close>.\<close>

definition draft ::
  "'a mem_scheme \<Rightarrow> nat list \<Rightarrow> nat \<Rightarrow> c_int \<Rightarrow> nat \<Rightarrow> nat \<Rightarrow> 'a mem_scheme \<Rightarrow> bool" where
  "draft s ns msg len n l m \<longleftrightarrow>
     0 < msg \<and> heap_of s msg = None \<and> mem_ok m \<and> stocked ns m \<and> mem.more m = mem.more s \<and>
     (\<exists>bs. heap_of m = (heap_of s)(msg \<mapsto> bs) \<and> length bs = 8 + l) \<and>
     unat len = 8 + n \<and> 8 + n < 2 ^ 31 \<and> n \<le> l"

text \<open>\<open>built s ns bytes msg s'\<close>: the message \<open>msg\<close> is complete.\<close>

definition built ::
  "'a mem_scheme \<Rightarrow> nat list \<Rightarrow> byte list \<Rightarrow> req_msg \<Rightarrow> 'a mem_scheme \<Rightarrow> bool" where
  "built s ns bytes msg s' \<longleftrightarrow>
     0 < fst msg \<and> heap_of s (fst msg) = None \<and> mem_ok s' \<and> stocked ns s' \<and> mem.more s' = mem.more s \<and>
     (\<exists>tail. heap_of s' = (heap_of s)(fst msg \<mapsto> bytes @ tail)) \<and>
     unat (snd msg) = length bytes \<and> length bytes < 2 ^ 31"

lemma draft_store:
  assumes "draft s ns msg len n l m" "length hdr = 8" "length rest = l" "i + length v \<le> l"
  shows "store (msg + 8 + i) v (set_block msg (hdr @ rest) m) = Inr (set_block msg (hdr @ patch rest i v) m)"
proof -
  from assms(1) obtain bs where m: "mem_ok m" "heap_of m msg = Some bs" "length bs = 8 + l"
    by (auto simp: draft_def)
  have "store (msg + (8 + i)) v (set_block msg (hdr @ rest) m) =
      Inr (set_block msg (patch (hdr @ rest) (8 + i) v) m)"
    using assms(2-4) m(3) by (intro store_set_block [OF m(1,2)]) simp_all
  then show ?thesis using patch_right [OF assms(2), of rest i v] by (simp add: add.assoc)
qed

lemmas draft_store0 = draft_store [where i = 0, simplified]

lemma draft_built:
  assumes d: "draft s ns msg len n l m" and "length hdr = 8" "length (body @ tail) = l" "length body = n"
  shows "built s ns (hdr @ body) (msg, len) (set_block msg (hdr @ body @ tail) m)"
proof -
  from d obtain bs where m: "mem_ok m" "heap_of m = (heap_of s)(msg \<mapsto> bs)" "length bs = 8 + l"
    by (auto simp: draft_def)
  have at: "heap_of m msg = Some bs" "length (hdr @ body @ tail) = length bs" using m assms(2,3) by simp_all
  have "heap_of (set_block msg (hdr @ body @ tail) m) = (heap_of s)(msg \<mapsto> (hdr @ body) @ tail)"
    using m(2) by auto
  moreover have "mem_ok (set_block msg (hdr @ body @ tail) m)"
    "stocked ns (set_block msg (hdr @ body @ tail) m) \<longleftrightarrow> stocked ns m"
    using set_block_mem_ok [OF m(1) at] stocked_set_block [OF m(1) at] by simp_all
  ultimately show ?thesis using d assms(2,4) by (auto simp: built_def draft_def)
qed

text \<open>Objects of the client are still there while the message is written.\<close>

lemma draft_reads:
  assumes d: "draft s ns msg len n l m" and "length hdr = 8" "length rest = l" "heap_of s a = Some bs"
  shows "k + j \<le> length bs \<Longrightarrow> load (a + k) j (set_block msg (hdr @ rest) m) = Inr (take j (drop k bs))"
    and "k < length bs \<Longrightarrow> c_string (drop k bs) = Some t \<Longrightarrow>
      load_str (a + k) (set_block msg (hdr @ rest) m) = Inr t"
proof -
  from d obtain cs where m: "mem_ok m" "heap_of m = (heap_of s)(msg \<mapsto> cs)" "length cs = 8 + l"
    "heap_of s msg = None" by (auto simp: draft_def)
  have ok: "mem_ok (set_block msg (hdr @ rest) m)"
    using m(2,3) assms(2,3) by (intro set_block_mem_ok [OF m(1), of msg cs]) simp_all
  have h: "heap_of (set_block msg (hdr @ rest) m) a = Some bs" using m assms(4) by auto
  show "k + j \<le> length bs \<Longrightarrow> load (a + k) j (set_block msg (hdr @ rest) m) = Inr (take j (drop k bs))"
    using load_block [OF ok h] .
  show "k < length bs \<Longrightarrow> c_string (drop k bs) = Some t \<Longrightarrow>
      load_str (a + k) (set_block msg (hdr @ rest) m) = Inr t"
    using load_str_block [OF ok h] .
qed

lemma req_builder_start:
  assumes st: "stocked ((8 + n + unat d) # ns) s" and ok: "mem_ok s" and small: "8 + n + unat d < 2 ^ 31"
  obtains msg len rest m where "draft s ns msg len (n + unat d) (length rest) m"
    and "REQ_BUILDER_INIT_DYNAMIC n d s = ((msg, len), m)"
    and "REQ_BUILDER_SET_HEAD opr (msg, len) m =
      Inr (set_block msg (head_bytes (op_code opr) (n + unat d) @ rest) m)"
proof -
  define len :: c_int where "len = word_of_nat (8 + n) + d"
  have u: "unat (word_of_nat (8 + n) :: c_int) = 8 + n" using small by (subst unat_of_nat) simp
  then have len: "unat len = 8 + n + unat d"
    using small unfolding len_def by (subst unat_add_lem [THEN iffD1]) simp_all
  then have sz: "size_of_int len = 8 + n + unat d" using small by (subst size_of_int_small) simp_all
  from st obtain c where c: "grants (8 + n + unat d) c s" "stocked ns (add_block c s)" by (rule stocked_Cons)
  let ?m = "add_block c s" and ?bs = "snd c" and ?rest = "drop 8 (snd c)"
  have m: "mem_ok ?m" "heap_of ?m (fst c) = Some ?bs" "8 + n + unat d \<le> length ?bs"
    using grants_mem_ok [OF c(1) ok] grants_length [OF c(1)] by simp_all
  let ?h1 = "enc_word 2 (op_code opr)" and ?h2 = "enc_word 2 (0 :: u16)" and ?h3 = "enc_word 4 (len - 8)"
  have st1: "store (fst c) ?h1 ?m = Inr (set_block (fst c) (patch ?bs 0 ?h1) ?m)"
    using m by (intro store_in_block0) simp_all
  have st2: "store (fst c + 2) ?h2 (set_block (fst c) (patch ?bs 0 ?h1) ?m) =
      Inr (set_block (fst c) (patch (patch ?bs 0 ?h1) 2 ?h2) ?m)"
    using m by (intro store_set_block [OF m(1,2)]) simp_all
  have st3: "store (fst c + 4) ?h3 (set_block (fst c) (patch (patch ?bs 0 ?h1) 2 ?h2) ?m) =
      Inr (set_block (fst c) (patch (patch (patch ?bs 0 ?h1) 2 ?h2) 4 ?h3) ?m)"
    using m by (intro store_set_block [OF m(1,2)]) simp_all
  have "len - 8 = word_of_nat (n + unat d)" by (simp add: len_def)
  then have bytes: "patch (patch (patch ?bs 0 ?h1) 2 ?h2) 4 ?h3 =
      head_bytes (op_code opr) (n + unat d) @ ?rest"
    by (simp add: patch_def head_bytes_def enc_dic_req_head_generic_def)
  show ?thesis
  proof (rule that [of "fst c" len ?rest ?m])
    show "draft s ns (fst c) len (n + unat d) (length ?rest) ?m"
      using m c grants_pos [OF c(1)] grants_fresh [OF c(1) ok] len small by (auto simp: draft_def)
    show "REQ_BUILDER_INIT_DYNAMIC n d s = ((fst c, len), ?m)"
      using sz c_malloc_grants [OF c(1)]
      by (simp add: REQ_BUILDER_INIT_DYNAMIC_def REQ_HEAD_SIZE_def sizeof_dic_req_head_generic_def
          len_def [symmetric, simplified] Let_def)
    show "REQ_BUILDER_SET_HEAD opr (fst c, len) ?m =
        Inr (set_block (fst c) (head_bytes (op_code opr) (n + unat d) @ ?rest) ?m)"
      using st1 st2 st3 by (simp add: REQ_BUILDER_SET_HEAD_def REQ_HEAD_SIZE_def
          sizeof_dic_req_head_generic_def store_word_def bytes)
  qed
qed

section \<open>The exchange\<close>

text \<open>\<open>exchanged s c k bytes rb rest msg rcv s2\<close>: the message \<open>msg\<close> with the given bytes has gone out, and
  the reply body \<open>rb\<close> is in the buffer \<open>rcv\<close>; both buffers are new, the rest is as in \<open>s\<close>.\<close>

definition exchanged ::
  "'a net_scheme \<Rightarrow> dic_conn \<Rightarrow> sock \<Rightarrow> byte list \<Rightarrow> byte list \<Rightarrow> byte list \<Rightarrow> nat \<Rightarrow> nat \<Rightarrow>
    'a net_scheme \<Rightarrow> bool" where
  "exchanged s c k bytes rb rest msg rcv s2 \<longleftrightarrow>
     msg \<noteq> rcv \<and> heap_of s msg = None \<and> heap_of s rcv = None \<and> mem_ok s2 \<and>
     (\<exists>mbs sl. heap_of s2 = (heap_of s)(msg \<mapsto> mbs, rcv \<mapsto> rb @ sl)) \<and>
     conns s2 = conns s \<and> net.more s2 = net.more s \<and>
     (\<exists>ks. concat ks = rest \<and> [] \<notin> set ks \<and>
        socks s2 = (socks s)(sockfd c \<mapsto> k\<lparr>sk_in := ks, sk_out := sk_out k @ bytes\<rparr>))"

text \<open>What a finished call leaves: no buffer, one request sent, one reply taken.\<close>

definition call_done ::
  "'a net_scheme \<Rightarrow> dic_conn \<Rightarrow> sock \<Rightarrow> byte list \<Rightarrow> byte list \<Rightarrow> 'a net_scheme \<Rightarrow> bool" where
  "call_done s c k bytes rest s' \<longleftrightarrow>
     heap_of s' = heap_of s \<and> mem_ok s' \<and> conns s' = conns s \<and> net.more s' = net.more s \<and>
     (\<exists>ks. concat ks = rest \<and> [] \<notin> set ks \<and>
        socks s' = (socks s)(sockfd c \<mapsto> k\<lparr>sk_in := ks, sk_out := sk_out k @ bytes\<rparr>))"

lemma send_built:
  fixes s s1 :: "'a net_scheme"
  assumes b: "built s ns bytes msg s1" and con: "connected device c k s" "\<not> sk_reset k"
  obtains s2 where "dic_conn_send device (fst msg) (snd msg) s1 = Inr (0, s2)"
    and "heap_of s2 = heap_of s1" "mem_ok s2" "stocked ns s2" "conns s2 = conns s"
    and "connected device c (k\<lparr>sk_out := sk_out k @ bytes\<rparr>) s2" "net.more s2 = net.more s"
    and "socks s2 = (socks s)(sockfd c \<mapsto> k\<lparr>sk_out := sk_out k @ bytes\<rparr>)"
proof -
  let ?s2 = "s1\<lparr>socks := (socks s)(sockfd c \<mapsto> k\<lparr>sk_out := sk_out k @ bytes\<rparr>)\<rparr>"
  from b obtain tail where f: "0 < fst msg" "mem_ok s1" "stocked ns s1" "mem.more s1 = mem.more s"
    "heap_of s1 (fst msg) = Some (bytes @ tail)" "unat (snd msg) = length bytes" "length bytes < 2 ^ 31"
    by (auto simp: built_def)
  note m = more_net [OF f(4)]
  have sz: "size_of_int (snd msg) = length bytes" using f(6,7) by (simp add: size_of_int_small)
  have "snd msg \<noteq> SEND_STR"
    using f(6,7) by (auto simp: SEND_STR_def c_minus1_def unsigned_minus_1_eq_mask mask_eq_exp_minus_1)
  moreover have "load (fst msg) (length bytes) s1 = Inr bytes" by (simp add: load_block0 [OF f(2,5)])
  moreover have "connected device c k s1" using con(1) m by (simp add: connected_def)
  ultimately have "dic_conn_send device (fst msg) (snd msg) s1 = Inr (0, ?s2)"
    using dic_conn_send_spec [of device c k s1 "snd msg" "fst msg" bytes] con(2) sz f(1) m by simp
  moreover have "heap_of ?s2 = heap_of s1" "mem_ok ?s2" "stocked ns ?s2"
    using f by (simp_all add: heap_of_def mem_ok_def stocked_def)
  moreover have "connected device c (k\<lparr>sk_out := sk_out k @ bytes\<rparr>) ?s2"
    using con(1) m by (simp add: connected_def)
  moreover have "net.more ?s2 = net.more s" using net_more_of_mem [OF f(4)] by simp
  ultimately show ?thesis using m by (intro that [of ?s2]) simp_all
qed

lemma atomic_exchange:
  fixes s s1 :: "'a net_scheme"
  assumes b: "built s [4, length rb] bytes msg s1" and ok: "mem_ok s"
    and con: "connected device c k s" "\<not> sk_reset k" "concat (sk_in k) = reply_bytes rb @ rest"
    and rb: "length rb < 2 ^ 31"
  obtains rcv s2 where "dic_atomic_send_recv device msg s1 = Inr ((rcv, word_of_nat (length rb)), s2)"
    and "exchanged s c k bytes rb rest (fst msg) rcv s2"
proof -
  let ?k = "k\<lparr>sk_out := sk_out k @ bytes\<rparr>"
  obtain s2 where send: "dic_conn_send device (fst msg) (snd msg) s1 = Inr (0, s2)"
    and s2: "heap_of s2 = heap_of s1" "mem_ok s2" "stocked [4, length rb] s2" "conns s2 = conns s"
      "connected device c ?k s2" "net.more s2 = net.more s" "socks s2 = (socks s)(sockfd c \<mapsto> ?k)"
    by (rule send_built [OF b con(1,2)])
  have in2: "concat (sk_in ?k) = enc_word 4 (word_of_nat (length rb) :: u32) @ rb @ rest"
    using con(3) by (simp add: reply_bytes_def enc_dic_resp_head_generic_def)
  obtain head t1 t2 rcv t3 t4 bs ks where run: "c_alloca 4 s2 = Inr (head, t1)"
      "dic_conn_recv device head 4 False t1 = Inr (0, t2)"
      "load_word 4 head t2 = Inr (word_of_nat (length rb) :: u32)"
      "unat (word_of_nat (length rb) :: u32) = length rb" "c_malloc (length rb) t2 = (rcv, t3)"
      "dic_conn_recv device rcv (word_of_nat (length rb)) False t3 = Inr (0, t4)"
    and t4: "heap_of (del_block head t4) = (heap_of s2)(rcv \<mapsto> rb @ bs)" "heap_of s2 rcv = None" "mem_ok t4"
      "0 < rcv" "concat ks = rest" "[] \<notin> set ks" "conns t4 = conns s2" "net.more t4 = net.more s2"
      "socks t4 = (socks s2)(sockfd c \<mapsto> ?k\<lparr>sk_in := ks\<rparr>)"
    by (rule receive_framed [OF s2(5) in2 s2(2,3) rb])
  let ?t = "del_block head t4"
  have "dic_atomic_send_recv device msg s1 = Inr ((rcv, word_of_nat (length rb)), ?t)"
    using send run by (simp add: dic_atomic_send_recv_def sizeof_dic_resp_head_generic_def)
  moreover from b obtain tail where m: "heap_of s (fst msg) = None"
    "heap_of s1 = (heap_of s)(fst msg \<mapsto> bytes @ tail)" by (auto simp: built_def)
  then have "fst msg \<noteq> rcv" "heap_of s rcv = None" using t4(2) s2(1) by (auto split: if_splits)
  moreover have "heap_of ?t = (heap_of s)(fst msg \<mapsto> bytes @ tail, rcv \<mapsto> rb @ bs)"
    using t4(1) s2(1) m(2) by simp
  moreover have "conns ?t = conns s" "net.more ?t = net.more s"
    "socks ?t = (socks s)(sockfd c \<mapsto> k\<lparr>sk_in := ks, sk_out := sk_out k @ bytes\<rparr>)"
    using s2 t4 by (simp_all add: del_block_def sk_swap)
  ultimately show ?thesis using that m(1) t4(3,5,6) by (auto simp: exchanged_def)
qed

lemma exchanged_release:
  assumes "exchanged s c k bytes rb rest msg rcv s2" "a = msg \<and> b = rcv \<or> a = rcv \<and> b = msg"
  shows "\<exists>s3 s4. c_free a s2 = Inr s3 \<and> c_free b s3 = Inr s4 \<and> call_done s c k bytes rest s4"
proof -
  from assms(1) obtain mbs sl where h: "msg \<noteq> rcv" "heap_of s msg = None" "heap_of s rcv = None"
    "mem_ok s2" "heap_of s2 = (heap_of s)(msg \<mapsto> mbs, rcv \<mapsto> rb @ sl)"
    "conns s2 = conns s" "net.more s2 = net.more s" by (auto simp: exchanged_def)
  from assms(2) h(1,5) obtain xa xb where x: "heap_of s2 a = Some xa" "heap_of s2 b = Some xb" "a \<noteq> b"
    by (auto split: if_splits)
  then have f: "c_free a s2 = Inr (del_block a s2)" "c_free b (del_block a s2) = Inr (del_block b (del_block a s2))"
    using h(4) by (auto intro!: c_free_block)
  have "heap_of (del_block b (del_block a s2)) = heap_of s" using h assms(2) by auto
  moreover have "conns (del_block b (del_block a s2)) = conns s" "net.more (del_block b (del_block a s2)) = net.more s"
    "socks (del_block b (del_block a s2)) = socks s2"
    using h by (simp_all add: del_block_def)
  ultimately have "call_done s c k bytes rest (del_block b (del_block a s2))"
    using assms(1) h(4) by (simp add: call_done_def exchanged_def)
  with f show ?thesis by blast
qed

lemma exchanged_field:
  assumes "exchanged s c k bytes rb rest msg rcv s2" "w \<le> length rb"
  shows "load_word w rcv s2 = Inr (dec_word w rb)"
proof -
  from assms(1) obtain sl where h: "mem_ok s2" "heap_of s2 rcv = Some (rb @ sl)"
    by (auto simp: exchanged_def)
  from assms(2) show ?thesis
    by (simp add: load_word_at0 [OF h]) (simp add: dec_word_def)
qed

section \<open>The contract of a builder\<close>

text \<open>What a call needs besides the preconditions of its builder: memory for the request, the reply
  head and the reply body, and an open connection on which the reply \<open>rb\<close> arrives.\<close>

definition calling ::
  "request \<Rightarrow> nat \<Rightarrow> dic_conn \<Rightarrow> sock \<Rightarrow> byte list \<Rightarrow> byte list \<Rightarrow> 'a net_scheme \<Rightarrow> bool" where
  "calling r device c k rb rest s \<longleftrightarrow>
     mem_ok s \<and> stocked [length (request_bytes r), 4, length rb] s \<and>
     connected device c k s \<and> \<not> sk_reset k \<and> concat (sk_in k) = reply_bytes rb @ rest \<and> length rb < 2 ^ 31"

locale request_builder =
  fixes build :: "'x \<Rightarrow> 'a net_scheme \<Rightarrow> (req_msg \<times> 'a net_scheme) res"
    and req :: "'x \<Rightarrow> 'a net_scheme \<Rightarrow> request"
    and fit :: "'x \<Rightarrow> 'a net_scheme \<Rightarrow> bool"
  assumes builds: "fit x s \<Longrightarrow> mem_ok s \<Longrightarrow> stocked (length (request_bytes (req x s)) # ns) s \<Longrightarrow>
      \<exists>msg s1. build x s = Inr (msg, s1) \<and> built s ns (request_bytes (req x s)) msg s1"
begin

lemma call_exchange:
  assumes "fit x s" "calling (req x s) device c k rb rest s"
  obtains msg s1 rcv s2 where "build x s = Inr (msg, s1)"
    and "dic_atomic_send_recv device msg s1 = Inr ((rcv, word_of_nat (length rb)), s2)"
    and "exchanged s c k (request_bytes (req x s)) rb rest (fst msg) rcv s2"
proof -
  from assms builds [of x s "[4, length rb]"] obtain msg s1 where b: "build x s = Inr (msg, s1)"
    "built s [4, length rb] (request_bytes (req x s)) msg s1" by (auto simp: calling_def)
  from assms obtain rcv s2 where "dic_atomic_send_recv device msg s1 = Inr ((rcv, word_of_nat (length rb)), s2)"
    "exchanged s c k (request_bytes (req x s)) rb rest (fst msg) rcv s2"
    by (auto simp: calling_def intro: atomic_exchange [OF b(2)])
  with b(1) show ?thesis by (rule that)
qed

lemma call_msg_first:
  assumes "fit x s" "calling (req x s) device c k rb rest s" "w \<le> length rb"
  shows "\<exists>s'. bindR (build x s) (\<lambda>(msg, s1).
     bindR (dic_atomic_send_recv device msg s1) (\<lambda>(rcv, s2).
     bindR (load_word w (fst rcv) s2) (\<lambda>v.
     bindR (c_free (fst msg) s2) (\<lambda>s3.
     bindR (c_free (fst rcv) s3) (\<lambda>s4. Inr (g v, s4)))))) = Inr (g (dec_word w rb), s') \<and>
    call_done s c k (request_bytes (req x s)) rest s'"
proof -
  from assms(1,2) obtain msg s1 rcv s2 where e: "build x s = Inr (msg, s1)"
    "dic_atomic_send_recv device msg s1 = Inr ((rcv, word_of_nat (length rb)), s2)"
    "exchanged s c k (request_bytes (req x s)) rb rest (fst msg) rcv s2" by (rule call_exchange)
  from exchanged_release [OF e(3), of "fst msg" rcv] e(1,2)
  show ?thesis by (auto simp: exchanged_field [OF e(3) assms(3)])
qed

lemma call_rcv_first:
  assumes "fit x s" "calling (req x s) device c k rb rest s" "w \<le> length rb"
  shows "\<exists>s'. bindR (build x s) (\<lambda>(msg, s1).
     bindR (dic_atomic_send_recv device msg s1) (\<lambda>(rcv, s2).
     bindR (load_word w (fst rcv) s2) (\<lambda>v.
     bindR (c_free (fst rcv) s2) (\<lambda>s3.
     bindR (c_free (fst msg) s3) (\<lambda>s4. Inr (g v, s4)))))) = Inr (g (dec_word w rb), s') \<and>
    call_done s c k (request_bytes (req x s)) rest s'"
proof -
  from assms(1,2) obtain msg s1 rcv s2 where e: "build x s = Inr (msg, s1)"
    "dic_atomic_send_recv device msg s1 = Inr ((rcv, word_of_nat (length rb)), s2)"
    "exchanged s c k (request_bytes (req x s)) rb rest (fst msg) rcv s2" by (rule call_exchange)
  from exchanged_release [OF e(3), of rcv "fst msg"] e(1,2)
  show ?thesis by (auto simp: exchanged_field [OF e(3) assms(3)])
qed

end

section \<open>The builders keep the contract\<close>

lemma req_start_fixed:
  assumes "stocked ((8 + n) # ns) s" "mem_ok s" "8 + n < 2 ^ 31"
  obtains msg len rest m where "draft s ns msg len n (length rest) m"
    and "length (head_bytes (op_code opr) n) = 8" "n \<le> length rest"
    and "REQ_BUILDER_INIT n s = ((msg, len), m)"
    and "REQ_BUILDER_SET_HEAD opr (msg, len) m = Inr (set_block msg (head_bytes (op_code opr) n @ rest) m)"
proof -
  from assms have "stocked ((8 + n + unat (0 :: c_int)) # ns) s" "8 + n + unat (0 :: c_int) < 2 ^ 31" by simp_all
  from this(1) assms(2) this(2) obtain msg len rest m where
    d: "draft s ns msg len (n + unat (0 :: c_int)) (length rest) m"
    and r: "REQ_BUILDER_INIT_DYNAMIC n 0 s = ((msg, len), m)"
      "REQ_BUILDER_SET_HEAD opr (msg, len) m =
        Inr (set_block msg (head_bytes (op_code opr) (n + unat (0 :: c_int)) @ rest) m)"
    by (rule req_builder_start)
  then show ?thesis
    by (intro that [of msg len rest m])
      (auto simp: REQ_BUILDER_INIT_def head_bytes_def layout_lengths draft_def)
qed

lemma req_start_dynamic:
  assumes "stocked ((8 + n + k) # ns) s" "mem_ok s" "8 + n + k < 2 ^ 31" "unat d = k"
  obtains msg len rest m where "draft s ns msg len (n + k) (length rest) m"
    and "length (head_bytes (op_code opr) (n + k)) = 8" "n + k \<le> length rest"
    and "REQ_BUILDER_INIT_DYNAMIC n d s = ((msg, len), m)"
    and "REQ_BUILDER_SET_HEAD opr (msg, len) m =
      Inr (set_block msg (head_bytes (op_code opr) (n + k) @ rest) m)"
proof -
  have a: "stocked ((8 + n + unat d) # ns) s" "8 + n + unat d < 2 ^ 31" using assms by simp_all
  obtain msg len rest m where d: "draft s ns msg len (n + k) (length rest) m"
    and r: "REQ_BUILDER_INIT_DYNAMIC n d s = ((msg, len), m)"
      "REQ_BUILDER_SET_HEAD opr (msg, len) m = Inr (set_block msg (head_bytes (op_code opr) (n + k) @ rest) m)"
    by (rule req_builder_start [OF a(1) assms(2) a(2), unfolded assms(4)])
  then show ?thesis
    by (intro that [of msg len rest m]) (auto simp: head_bytes_def layout_lengths draft_def)
qed

lemmas builder_defs = req_body_def REQ_HEAD_SIZE_def sizeof_dic_req_head_generic_def store_word_def

lemma length_request_bytes: "length (request_bytes r) = 8 + length (body_bytes r)"
  by (simp add: request_bytes_def head_bytes_def layout_lengths)

text \<open>A body of one field, and of two fields written in order.\<close>

lemma one_field_built:
  assumes "draft s ns msg len n (length rest) m" "length hdr = 8" "n \<le> length rest" "length v = n"
  shows "store (msg + 8) v (set_block msg (hdr @ rest) m) = Inr (set_block msg (hdr @ v @ drop n rest) m)"
    and "built s ns (hdr @ v) (msg, len) (set_block msg (hdr @ v @ drop n rest) m)"
  using draft_store0 [OF assms(1,2) refl, of v] draft_built [OF assms(1,2), of v "drop n rest"] assms(3,4)
  by (simp_all add: patch_def)

lemma two_fields_built:
  assumes "draft s ns msg len n (length rest) m" "length hdr = 8" "n \<le> length rest"
    and "length v = i" "n = i + length w"
  shows "store (msg + 8) v (set_block msg (hdr @ rest) m) = Inr (set_block msg (hdr @ v @ drop i rest) m)"
    and "store (msg + 8 + i) w (set_block msg (hdr @ v @ drop i rest) m) =
      Inr (set_block msg (hdr @ (v @ w) @ drop n rest) m)"
    and "built s ns (hdr @ v @ w) (msg, len) (set_block msg (hdr @ (v @ w) @ drop n rest) m)"
proof -
  show "store (msg + 8) v (set_block msg (hdr @ rest) m) = Inr (set_block msg (hdr @ v @ drop i rest) m)"
    using draft_store0 [OF assms(1,2) refl, of v] assms(3-5) by (simp add: patch_def)
  have "length (v @ drop i rest) = length rest" using assms(3-5) by simp
  then show "store (msg + 8 + i) w (set_block msg (hdr @ v @ drop i rest) m) =
      Inr (set_block msg (hdr @ (v @ w) @ drop n rest) m)"
    using draft_store [OF assms(1,2), of "v @ drop i rest" i w] assms(3-5) by (simp add: patch_def add.commute)
  show "built s ns (hdr @ v @ w) (msg, len) (set_block msg (hdr @ (v @ w) @ drop n rest) m)"
    using draft_built [OF assms(1,2), of "v @ w" "drop n rest"] assms(3-5) by simp
qed

lemma build_rmalloc_built:
  assumes "mem_ok s" "stocked (length (request_bytes (Malloc n)) # ns) s"
  shows "\<exists>msg s1. build_rmalloc_req n s = Inr (msg, s1) \<and> built s ns (request_bytes (Malloc n)) msg s1"
proof -
  from assms(2) have "stocked ((8 + 4) # ns) s" by (simp add: length_request_bytes layout_lengths)
  from this assms(1) obtain msg len rest m where d: "draft s ns msg len 4 (length rest) m"
      "length (head_bytes (op_code DIC_MALLOC) 4) = 8" "4 \<le> length rest"
    and r: "REQ_BUILDER_INIT 4 s = ((msg, len), m)"
      "REQ_BUILDER_SET_HEAD DIC_MALLOC (msg, len) m = Inr (set_block msg (head_bytes (op_code DIC_MALLOC) 4 @ rest) m)"
    by (rule req_start_fixed) simp
  note w = one_field_built [OF d, of "enc_word 4 n"]
  show ?thesis
    using r w by (simp add: build_rmalloc_req_def sizeof_dic_req_malloc_def builder_defs request_bytes_def
        enc_dic_req_malloc_def)
qed

lemma build_rfree_built:
  assumes "mem_ok s" "stocked (length (request_bytes (Free (r_ptr p))) # ns) s"
  shows "\<exists>msg s1. build_rfree_req p s = Inr (msg, s1) \<and> built s ns (request_bytes (Free (r_ptr p))) msg s1"
proof -
  from assms(2) have "stocked ((8 + 8) # ns) s" by (simp add: length_request_bytes layout_lengths)
  from this assms(1) obtain msg len rest m where d: "draft s ns msg len 8 (length rest) m"
      "length (head_bytes (op_code DIC_FREE) 8) = 8" "8 \<le> length rest"
    and r: "REQ_BUILDER_INIT 8 s = ((msg, len), m)"
      "REQ_BUILDER_SET_HEAD DIC_FREE (msg, len) m = Inr (set_block msg (head_bytes (op_code DIC_FREE) 8 @ rest) m)"
    by (rule req_start_fixed) simp
  note w = one_field_built [OF d, of "enc_word 8 (r_ptr p)"]
  show ?thesis
    using r w by (simp add: build_rfree_req_def sizeof_dic_req_free_def builder_defs request_bytes_def
        enc_dic_req_free_def)
qed

lemma build_so_unload_built:
  assumes "mem_ok s" "stocked (length (request_bytes (So_unload (r_ptr p))) # ns) s"
  shows "\<exists>msg s1. build_so_unload p s = Inr (msg, s1) \<and> built s ns (request_bytes (So_unload (r_ptr p))) msg s1"
proof -
  from assms(2) have "stocked ((8 + 8) # ns) s" by (simp add: length_request_bytes layout_lengths)
  from this assms(1) obtain msg len rest m where d: "draft s ns msg len 8 (length rest) m"
      "length (head_bytes (op_code DIC_SO_UNLOAD) 8) = 8" "8 \<le> length rest"
    and r: "REQ_BUILDER_INIT 8 s = ((msg, len), m)"
      "REQ_BUILDER_SET_HEAD DIC_SO_UNLOAD (msg, len) m = Inr (set_block msg (head_bytes (op_code DIC_SO_UNLOAD) 8 @ rest) m)"
    by (rule req_start_fixed) simp
  note w = one_field_built [OF d, of "enc_word 8 (r_ptr p)"]
  show ?thesis
    using r w by (simp add: build_so_unload_def sizeof_dic_req_so_unload_def builder_defs request_bytes_def
        enc_dic_req_so_unload_def)
qed

lemma build_rthread_join_built:
  assumes "mem_ok s" "stocked (length (request_bytes (Join (rt_tid p))) # ns) s"
  shows "\<exists>msg s1. build_rthread_join p s = Inr (msg, s1) \<and> built s ns (request_bytes (Join (rt_tid p))) msg s1"
proof -
  from assms(2) have "stocked ((8 + 8) # ns) s" by (simp add: length_request_bytes layout_lengths)
  from this assms(1) obtain msg len rest m where d: "draft s ns msg len 8 (length rest) m"
      "length (head_bytes (op_code DIC_JOIN) 8) = 8" "8 \<le> length rest"
    and r: "REQ_BUILDER_INIT 8 s = ((msg, len), m)"
      "REQ_BUILDER_SET_HEAD DIC_JOIN (msg, len) m = Inr (set_block msg (head_bytes (op_code DIC_JOIN) 8 @ rest) m)"
    by (rule req_start_fixed) simp
  note w = one_field_built [OF d, of "enc_word 8 (rt_tid p)"]
  show ?thesis
    using r w by (simp add: build_rthread_join_def sizeof_dic_req_join_def builder_defs request_bytes_def
        enc_dic_req_join_def)
qed

lemma build_rrealloc_built:
  assumes "mem_ok s" "stocked (length (request_bytes (Realloc (r_ptr p) n)) # ns) s"
  shows "\<exists>msg s1. build_rrealloc_req p n s = Inr (msg, s1) \<and> built s ns (request_bytes (Realloc (r_ptr p) n)) msg s1"
proof -
  from assms(2) have "stocked ((8 + 12) # ns) s" by (simp add: length_request_bytes layout_lengths)
  from this assms(1) obtain msg len rest m where d: "draft s ns msg len 12 (length rest) m"
      "length (head_bytes (op_code DIC_REALLOC) 12) = 8" "12 \<le> length rest"
    and r: "REQ_BUILDER_INIT 12 s = ((msg, len), m)"
      "REQ_BUILDER_SET_HEAD DIC_REALLOC (msg, len) m = Inr (set_block msg (head_bytes (op_code DIC_REALLOC) 12 @ rest) m)"
    by (rule req_start_fixed) simp
  note w = two_fields_built [OF d, of "enc_word 8 (r_ptr p)" 8 "enc_word 4 n"]
  show ?thesis
    using r w by (simp add: build_rrealloc_req_def sizeof_dic_req_realloc_def builder_defs request_bytes_def
        enc_dic_req_realloc_def)
qed

lemma build_rthread_run_built:
  assumes "mem_ok s" "stocked (length (request_bytes (Run (r_ptr f) (r_ptr a))) # ns) s"
  shows "\<exists>msg s1. build_rthread_run f a s = Inr (msg, s1) \<and> built s ns (request_bytes (Run (r_ptr f) (r_ptr a))) msg s1"
proof -
  from assms(2) have "stocked ((8 + 16) # ns) s" by (simp add: length_request_bytes layout_lengths)
  from this assms(1) obtain msg len rest m where d: "draft s ns msg len 16 (length rest) m"
      "length (head_bytes (op_code DIC_RUN) 16) = 8" "16 \<le> length rest"
    and r: "REQ_BUILDER_INIT 16 s = ((msg, len), m)"
      "REQ_BUILDER_SET_HEAD DIC_RUN (msg, len) m = Inr (set_block msg (head_bytes (op_code DIC_RUN) 16 @ rest) m)"
    by (rule req_start_fixed) simp
  note w = two_fields_built [OF d, of "enc_word 8 (r_ptr f)" 8 "enc_word 8 (r_ptr a)"]
  show ?thesis
    using r w by (simp add: build_rthread_run_def sizeof_dic_req_run_def builder_defs request_bytes_def
        enc_dic_req_run_def)
qed

text \<open>The two fields of the copy requests are written in the opposite order.\<close>

lemma swapped_fields:
  assumes "draft s ns msg len n (length rest) m" "length hdr = 8" "12 \<le> n" "n \<le> length rest"
    and "length v = 8" "length w = 4"
  shows "store (msg + 8 + 8) w (set_block msg (hdr @ rest) m) = Inr (set_block msg (hdr @ patch rest 8 w) m)"
    and "store (msg + 8) v (set_block msg (hdr @ patch rest 8 w) m) =
      Inr (set_block msg (hdr @ v @ w @ drop 12 rest) m)"
proof -
  have l: "length (patch rest 8 w) = length rest" using assms by simp
  show "store (msg + 8 + 8) w (set_block msg (hdr @ rest) m) = Inr (set_block msg (hdr @ patch rest 8 w) m)"
    using draft_store [OF assms(1,2) refl, of 8 w] assms by simp
  have "patch (patch rest 8 w) 0 v = v @ w @ drop 12 rest" using assms by (simp add: patch_def)
  with draft_store0 [OF assms(1,2) l, of v] assms
  show "store (msg + 8) v (set_block msg (hdr @ patch rest 8 w) m) =
      Inr (set_block msg (hdr @ v @ w @ drop 12 rest) m)" by simp
qed

lemma build_memcpy_n2c_built:
  assumes "mem_ok s" "stocked (length (request_bytes (Memcpy_n2c (r_ptr p) n)) # ns) s"
  shows "\<exists>msg s1. build_memcpy_n2c_req dst p n s = Inr (msg, s1) \<and>
    built s ns (request_bytes (Memcpy_n2c (r_ptr p) n)) msg s1"
proof -
  from assms(2) have "stocked ((8 + 12) # ns) s" by (simp add: length_request_bytes layout_lengths)
  from this assms(1) obtain msg len rest m where d: "draft s ns msg len 12 (length rest) m"
      "length (head_bytes (op_code DIC_MEMCPY_N2C) 12) = 8" "12 \<le> length rest"
    and r: "REQ_BUILDER_INIT 12 s = ((msg, len), m)"
      "REQ_BUILDER_SET_HEAD DIC_MEMCPY_N2C (msg, len) m =
        Inr (set_block msg (head_bytes (op_code DIC_MEMCPY_N2C) 12 @ rest) m)"
    by (rule req_start_fixed) simp
  note w = swapped_fields [OF d(1,2) order_refl d(3), of "enc_word 8 (r_ptr p)" "enc_word 4 n"]
  have "built s ns (head_bytes (op_code DIC_MEMCPY_N2C) 12 @ enc_word 8 (r_ptr p) @ enc_word 4 n) (msg, len)
      (set_block msg (head_bytes (op_code DIC_MEMCPY_N2C) 12 @ (enc_word 8 (r_ptr p) @ enc_word 4 n) @ drop 12 rest) m)"
    using d by (intro draft_built) simp_all
  then show ?thesis
    using r w by (simp add: build_memcpy_n2c_req_def sizeof_dic_req_memcpy_n2c_def builder_defs
        request_bytes_def enc_dic_req_memcpy_n2c_def)
qed

text \<open>The bytes that a client pointer points to.\<close>

definition client_bytes :: "nat \<Rightarrow> nat \<Rightarrow> 'a mem_scheme \<Rightarrow> byte list" where
  "client_bytes p n m = (case load p n m of Inl _ \<Rightarrow> [] | Inr v \<Rightarrow> v)"

definition in_object :: "nat \<Rightarrow> nat \<Rightarrow> 'a mem_scheme \<Rightarrow> bool" where
  "in_object p n m \<longleftrightarrow> (\<exists>a k bs. p = a + k \<and> heap_of m a = Some bs \<and> k + n \<le> length bs)"

lemma build_memcpy_c2n_built:
  assumes "mem_ok s" "in_object p (unat n) s" "unat n < 2 ^ 30"
    and st: "stocked (length (request_bytes (Memcpy_c2n (r_ptr q) (client_bytes p (unat n) s))) # ns) s"
  shows "\<exists>msg s1. build_memcpy_c2n_req p q n s = Inr (msg, s1) \<and>
    built s ns (request_bytes (Memcpy_c2n (r_ptr q) (client_bytes p (unat n) s))) msg s1"
proof -
  from assms(2) obtain a k bs where a: "p = a + k" "heap_of s a = Some bs" "k + unat n \<le> length bs"
    by (auto simp: in_object_def)
  let ?v = "take (unat n) (drop k bs)"
  have v: "client_bytes p (unat n) s = ?v" "length ?v = unat n"
    using load_block [OF assms(1) a(2,3)] a by (simp_all add: client_bytes_def)
  have sz: "size_of_int n = unat n" using assms(3) by (simp add: size_of_int_small)
  from st v have "stocked ((8 + 12 + unat n) # ns) s" by (simp add: length_request_bytes layout_lengths)
  from this assms(1) obtain msg len rest m where d: "draft s ns msg len (12 + unat n) (length rest) m"
      "length (head_bytes (op_code DIC_MEMCPY_C2N) (12 + unat n)) = 8" "12 + unat n \<le> length rest"
    and r: "REQ_BUILDER_INIT_DYNAMIC 12 n s = ((msg, len), m)"
      "REQ_BUILDER_SET_HEAD DIC_MEMCPY_C2N (msg, len) m =
        Inr (set_block msg (head_bytes (op_code DIC_MEMCPY_C2N) (12 + unat n) @ rest) m)"
    by (rule req_start_dynamic [OF _ _ _ refl]) (use assms(3) in simp)
  let ?hdr = "head_bytes (op_code DIC_MEMCPY_C2N) (12 + unat n)"
  let ?f = "enc_word 8 (r_ptr q) @ enc_word 4 n"
  note w = swapped_fields [OF d(1,2) _ d(3), of "enc_word 8 (r_ptr q)" "enc_word 4 n"]
  have l: "length (enc_word 8 (r_ptr q) @ enc_word 4 n @ drop 12 rest) = length rest" using d(3) by simp
  have rd: "load p (unat n) (set_block msg (?hdr @ enc_word 8 (r_ptr q) @ enc_word 4 n @ drop 12 rest) m) = Inr ?v"
    using draft_reads(1) [OF d(1,2) l a(2,3)] a(1) by simp
  have "patch (enc_word 8 (r_ptr q) @ enc_word 4 n @ drop 12 rest) 12 ?v =
      (?f @ ?v) @ drop (12 + unat n) rest"
    using v(2) by (simp add: patch_def add.commute)
  then have cp: "store (msg + 8 + 12) ?v (set_block msg (?hdr @ enc_word 8 (r_ptr q) @ enc_word 4 n @ drop 12 rest) m) =
      Inr (set_block msg (?hdr @ (?f @ ?v) @ drop (12 + unat n) rest) m)"
    using draft_store [OF d(1,2) l, of 12 ?v] d(3) v(2) by simp
  have b: "built s ns (?hdr @ ?f @ ?v) (msg, len) (set_block msg (?hdr @ (?f @ ?v) @ drop (12 + unat n) rest) m)"
    using d v(2) by (intro draft_built) simp_all
  have "build_memcpy_c2n_req p q n s =
      Inr ((msg, len), set_block msg (?hdr @ (?f @ ?v) @ drop (12 + unat n) rest) m)"
    using r w rd cp by (simp add: build_memcpy_c2n_req_def sizeof_dic_req_memcpy_c2n_def builder_defs
        c_memcpy_def sz)
  moreover have "request_bytes (Memcpy_c2n (r_ptr q) ?v) = ?hdr @ ?f @ ?v"
    using v(2) by (simp add: request_bytes_def enc_dic_req_memcpy_c2n_def)
  ultimately show ?thesis using b v(1) by auto
qed

text \<open>The name a client pointer points to.\<close>

definition client_text :: "nat \<Rightarrow> 'a mem_scheme \<Rightarrow> byte list" where
  "client_text p m = (case load_str p m of Inl _ \<Rightarrow> [] | Inr t \<Rightarrow> t)"

definition text_in :: "nat \<Rightarrow> 'a mem_scheme \<Rightarrow> bool" where
  "text_in p m \<longleftrightarrow> (\<exists>a k bs. p = a + k \<and> heap_of m a = Some bs \<and> k < length bs \<and> c_string (drop k bs) \<noteq> None)"

lemma text_inE:
  assumes "text_in p m" "mem_ok m"
  obtains a k bs where "p = a + k" "heap_of m a = Some bs" "k < length bs"
    "c_string (drop k bs) = Some (client_text p m)" "load_str p m = Inr (client_text p m)"
    "0 \<notin> set (client_text p m)"
proof -
  from assms(1) obtain a k bs t where a: "p = a + k" "heap_of m a = Some bs" "k < length bs"
    "c_string (drop k bs) = Some t" by (auto simp: text_in_def)
  from load_str_block [OF assms(2) a(2-4)] have "load_str p m = Inr t" "client_text p m = t"
    using a(1) by (simp_all add: client_text_def)
  then show ?thesis using that a c_string_no_null [OF a(4)] by simp
qed

lemma build_so_load_built:
  assumes "mem_ok s" "text_in name s" "length (client_text name s) < 2 ^ 30"
    and st: "stocked (length (request_bytes (So_load (client_text name s))) # ns) s"
  shows "\<exists>msg s1. build_so_load device name s = Inr (msg, s1) \<and>
    built s ns (request_bytes (So_load (client_text name s))) msg s1"
proof -
  let ?t = "client_text name s"
  let ?n = "length ?t + 1" and ?w = "word_of_nat (length ?t + 1) :: c_int"
  obtain a k bs where a: "name = a + k" "heap_of s a = Some bs" "k < length bs"
    "c_string (drop k bs) = Some ?t" "load_str name s = Inr ?t"
    using text_inE [OF assms(2,1)] by metis
  have n: "unat ?w = ?n" using assms(3) by (subst unat_of_nat) simp
  from st have "stocked ((8 + 4 + ?n) # ns) s" by (simp add: length_request_bytes layout_lengths add.commute)
  from this assms(1) obtain msg len rest m where d: "draft s ns msg len (4 + ?n) (length rest) m"
      "length (head_bytes (op_code DIC_SO_LOAD) (4 + ?n)) = 8" "4 + ?n \<le> length rest"
    and r: "REQ_BUILDER_INIT_DYNAMIC 4 ?w s = ((msg, len), m)"
      "REQ_BUILDER_SET_HEAD DIC_SO_LOAD (msg, len) m =
        Inr (set_block msg (head_bytes (op_code DIC_SO_LOAD) (4 + ?n) @ rest) m)"
    by (rule req_start_dynamic [OF _ _ _ n]) (use assms(3) in simp)
  let ?hdr = "head_bytes (op_code DIC_SO_LOAD) (4 + ?n)"
  note w = two_fields_built [OF d, of "enc_word 4 ?w" 4 "?t @ [0]"]
  have l: "length (enc_word 4 ?w @ drop 4 rest) = length rest" using d(3) by simp
  have rd: "load_str name (set_block msg (?hdr @ enc_word 4 ?w @ drop 4 rest) m) = Inr ?t"
    using draft_reads(2) [OF d(1,2) l a(2-4)] a(1) by simp
  have "build_so_load device name s =
      Inr ((msg, len), set_block msg (?hdr @ (enc_word 4 ?w @ ?t @ [0]) @ drop (4 + ?n) rest) m)"
    using r w rd a(5) by (simp add: build_so_load_def sizeof_dic_req_so_load_def builder_defs c_strcpy_def
        add.commute)
  moreover have "request_bytes (So_load ?t) = ?hdr @ enc_word 4 ?w @ ?t @ [0]"
    by (simp add: request_bytes_def enc_dic_req_so_load_def)
  ultimately show ?thesis using w(3) by auto
qed

lemma build_so_upload_built:
  fixes s :: "'a client_scheme"
  assumes "mem_ok s" "text_in path s" "text_in name s" "local_files s (client_text path s) = Some bytes"
    and small: "length (client_text name s) < 2 ^ 29" "length bytes < 2 ^ 29"
    and st: "stocked (length (request_bytes (So_upload (client_text name s) bytes)) # ns) s"
  shows "\<exists>msg s1. build_so_upload device path name s = Inr (msg, s1) \<and>
    built s ns (request_bytes (So_upload (client_text name s) bytes)) msg s1"
proof -
  let ?t = "client_text name s"
  let ?nl = "word_of_nat (length ?t) :: c_int" and ?fs = "word_of_nat (length bytes) :: u64"
  let ?k = "length ?t + 1 + length bytes"
  obtain a k bs where a: "name = a + k" "heap_of s a = Some bs" "k < length bs"
    "c_string (drop k bs) = Some ?t" "load_str name s = Inr ?t"
    using text_inE [OF assms(3,1)] by metis
  have path: "load_str path s = Inr (client_text path s)" using text_inE [OF assms(2,1)] by metis
  have "?nl + 1 + word_of_nat (length bytes) = (word_of_nat ?k :: c_int)" by simp
  then have n: "unat (?nl + 1 + word_of_nat (length bytes) :: c_int) = ?k"
    using small by (simp only:) (subst unat_of_nat, simp)
  from st have "stocked ((8 + 12 + ?k) # ns) s" by (simp add: length_request_bytes layout_lengths ac_simps)
  from this assms(1) obtain msg len rest m where d: "draft s ns msg len (12 + ?k) (length rest) m"
      "length (head_bytes (op_code DIC_SO_UPLOAD) (12 + ?k)) = 8" "12 + ?k \<le> length rest"
    and r: "REQ_BUILDER_INIT_DYNAMIC 12 (?nl + 1 + word_of_nat (length bytes)) s = ((msg, len), m)"
      "REQ_BUILDER_SET_HEAD DIC_SO_UPLOAD (msg, len) m =
        Inr (set_block msg (head_bytes (op_code DIC_SO_UPLOAD) (12 + ?k) @ rest) m)"
    by (rule req_start_dynamic [OF _ _ _ n]) (use small in simp)
  let ?hdr = "head_bytes (op_code DIC_SO_UPLOAD) (12 + ?k)" and ?f = "enc_word 8 ?fs @ enc_word 4 ?nl"
  let ?r1 = "enc_word 8 ?fs @ enc_word 4 ?nl @ drop 12 rest"
  let ?r2 = "?f @ (?t @ [0]) @ drop (12 + length ?t + 1) rest"
  let ?r3 = "(?f @ (?t @ [0]) @ bytes) @ drop (12 + ?k) rest"
  note w = swapped_fields [OF d(1,2) le_add1 d(3), of "enc_word 8 ?fs" "enc_word 4 ?nl",
      OF length_enc_word length_enc_word]
  have l: "length ?r1 = length rest" "length ?r2 = length rest" using d(3) by simp_all
  have rd: "load_str name (set_block msg (?hdr @ ?r1) m) = Inr ?t"
    using draft_reads(2) [OF d(1,2) l(1) a(2-4)] a(1) by simp
  have st1: "store (msg + 8 + 12) (?t @ [0]) (set_block msg (?hdr @ ?r1) m) = Inr (set_block msg (?hdr @ ?r2) m)"
    using draft_store [OF d(1,2) l(1), of 12 "?t @ [0]"] d(3) by (simp add: patch_def add.commute)
  have st2: "store (msg + 8 + 12 + length ?t) (enc_word 1 (0 :: byte)) (set_block msg (?hdr @ ?r2) m) =
      Inr (set_block msg (?hdr @ ?r2) m)"
    using draft_store [OF d(1,2) l(2), of "12 + length ?t" "[0]"] d(3)
    by (simp add: patch_def enc_word_def add.assoc)
  have st3: "store (msg + 8 + 12 + (length ?t + 1)) bytes (set_block msg (?hdr @ ?r2) m) =
      Inr (set_block msg (?hdr @ ?r3) m)"
    using draft_store [OF d(1,2) l(2), of "12 + (length ?t + 1)" bytes] d(3)
    by (simp add: patch_def ac_simps)
  have "build_so_upload device path name s = Inr ((msg, len), set_block msg (?hdr @ ?r3) m)"
    unfolding build_so_upload_def sizeof_dic_req_so_upload_def builder_defs c_strcpy_def Let_def
    by (simp only: path a(5) assms(4) bindR.simps option.case r prod.case fst_conv w rd st1 st2 st3)
  moreover have "built s ns (?hdr @ ?f @ (?t @ [0]) @ bytes) (msg, len) (set_block msg (?hdr @ ?r3) m)"
    by (intro draft_built [OF d(1,2)]) (use d(3) in auto)
  moreover have "request_bytes (So_upload ?t bytes) = ?hdr @ ?f @ (?t @ [0]) @ bytes"
    by (simp add: request_bytes_def enc_dic_req_so_upload_def ac_simps)
  ultimately show ?thesis by auto
qed

section \<open>The calls\<close>

interpretation rmalloc_builder: request_builder build_rmalloc_req "\<lambda>n s. Malloc n" "\<lambda>n s. True"
  by unfold_locales (rule build_rmalloc_built)

interpretation rrealloc_builder: request_builder "\<lambda>(p, n). build_rrealloc_req p n"
  "\<lambda>(p, n) s. Realloc (r_ptr p) n" "\<lambda>x s. True"
  by unfold_locales (auto simp del: split_paired_Ex intro: build_rrealloc_built)

interpretation rfree_builder: request_builder build_rfree_req "\<lambda>p s. Free (r_ptr p)" "\<lambda>p s. True"
  by unfold_locales (rule build_rfree_built)

interpretation c2n_builder: request_builder "\<lambda>(l, p, n). build_memcpy_c2n_req l p n"
  "\<lambda>(l, p, n) s. Memcpy_c2n (r_ptr p) (client_bytes l (unat n) s)"
  "\<lambda>(l, p, n) s. in_object l (unat n) s \<and> unat n < 2 ^ 30"
  by unfold_locales (auto simp del: split_paired_Ex intro: build_memcpy_c2n_built)

interpretation n2c_builder: request_builder "\<lambda>(l, p, n). build_memcpy_n2c_req l p n"
  "\<lambda>(l, p, n) s. Memcpy_n2c (r_ptr p) n" "\<lambda>x s. True"
  by unfold_locales (auto simp del: split_paired_Ex intro: build_memcpy_n2c_built)

interpretation so_load_builder: request_builder "\<lambda>(device, name). build_so_load device name"
  "\<lambda>(device, name) s. So_load (client_text name s)"
  "\<lambda>(device, name) s. text_in name s \<and> length (client_text name s) < 2 ^ 30"
  by unfold_locales (auto simp del: split_paired_Ex intro: build_so_load_built)

interpretation so_unload_builder: request_builder build_so_unload "\<lambda>p s. So_unload (r_ptr p)" "\<lambda>p s. True"
  by unfold_locales (rule build_so_unload_built)

interpretation so_upload_builder: request_builder
  "\<lambda>(device, path, name). build_so_upload device path name"
  "\<lambda>(device, path, name) s. So_upload (client_text name s) (the (local_files s (client_text path s)))"
  "\<lambda>(device, path, name) s. text_in path s \<and> text_in name s \<and> length (client_text name s) < 2 ^ 29 \<and>
     (\<exists>bytes. local_files s (client_text path s) = Some bytes \<and> length bytes < 2 ^ 29)"
  by unfold_locales (auto simp del: split_paired_Ex intro: build_so_upload_built)

interpretation run_builder: request_builder "\<lambda>(f, a). build_rthread_run f a"
  "\<lambda>(f, a) s. Run (r_ptr f) (r_ptr a)" "\<lambda>x s. True"
  by unfold_locales (auto simp del: split_paired_Ex intro: build_rthread_run_built)

interpretation join_builder: request_builder build_rthread_join "\<lambda>t s. Join (rt_tid t)" "\<lambda>t s. True"
  by unfold_locales (rule build_rthread_join_built)

lemma dic_rmalloc_call:
  assumes "calling (Malloc n) device c k rb rest s" "8 \<le> length rb"
  shows "\<exists>s'. dic_rmalloc device n s = Inr (\<lparr>r_ptr = dec_word 8 rb, r_device = device\<rparr>, s') \<and>
    call_done s c k (request_bytes (Malloc n)) rest s'"
  using rmalloc_builder.call_msg_first [where x = n and device = device and c = c and k = k
      and rb = rb and rest = rest and s = s and w = 8 and g = "\<lambda>v. \<lparr>r_ptr = v, r_device = device\<rparr>"] assms
  by (simp add: dic_rmalloc_def)

lemma dic_rrealloc_call:
  assumes "calling (Realloc (r_ptr p) n) (r_device p) c k rb rest s" "8 \<le> length rb"
  shows "\<exists>s'. dic_rrealloc p n s = Inr (p\<lparr>r_ptr := dec_word 8 rb\<rparr>, s') \<and>
    call_done s c k (request_bytes (Realloc (r_ptr p) n)) rest s'"
  using rrealloc_builder.call_msg_first [where x = "(p, n)" and device = "r_device p" and c = c and k = k
      and rb = rb and rest = rest and s = s and w = 8 and g = "\<lambda>v. p\<lparr>r_ptr := v\<rparr>"] assms
  by (simp add: dic_rrealloc_def)

lemma dic_rfree_call:
  assumes "calling (Free (r_ptr p)) (r_device p) c k rb rest s" "1 \<le> length rb"
  shows "\<exists>s'. dic_rfree p s = Inr (scast (dec_word 1 rb :: byte), s') \<and>
    call_done s c k (request_bytes (Free (r_ptr p))) rest s'"
  using rfree_builder.call_msg_first [where x = p and device = "r_device p" and c = c and k = k
      and rb = rb and rest = rest and s = s and w = 1 and g = "\<lambda>v. scast (v :: byte) :: c_int"] assms
  by (simp add: dic_rfree_def)

lemma dic_memcpy_c2n_call:
  assumes "calling (Memcpy_c2n (r_ptr p) (client_bytes l (unat n) s)) (r_device p) c k rb rest s" "4 \<le> length rb"
    and "in_object l (unat n) s" "unat n < 2 ^ 30"
  shows "\<exists>s'. dic_memcpy_c2n l p n s = Inr (dec_word 4 rb, s') \<and>
    call_done s c k (request_bytes (Memcpy_c2n (r_ptr p) (client_bytes l (unat n) s))) rest s'"
  using c2n_builder.call_rcv_first [where x = "(l, p, n)" and device = "r_device p" and c = c and k = k
      and rb = rb and rest = rest and s = s and w = 4 and g = "\<lambda>v. v :: c_int"] assms
  by (simp add: dic_memcpy_c2n_def)

lemma dic_so_load_call:
  assumes "calling (So_load (client_text name s)) device c k rb rest s" "8 \<le> length rb"
    and "text_in name s" "length (client_text name s) < 2 ^ 30"
  shows "\<exists>s'. dic_so_load device name s = Inr (\<lparr>r_ptr = dec_word 8 rb, r_device = device\<rparr>, s') \<and>
    call_done s c k (request_bytes (So_load (client_text name s))) rest s'"
  using so_load_builder.call_rcv_first [where x = "(device, name)" and device = device and c = c and k = k
      and rb = rb and rest = rest and s = s and w = 8 and g = "\<lambda>v. \<lparr>r_ptr = v, r_device = device\<rparr>"] assms
  by (simp add: dic_so_load_def)

text \<open>\<open>dic_so_verify\<close> sends the request of \<open>dic_so_load\<close>: the node loads the library again, and what the
  call returns as a checksum is the handle.\<close>

theorem dic_so_verify_call:
  assumes "calling (So_load (client_text name s)) device c k rb rest s" "8 \<le> length rb"
    and "text_in name s" "length (client_text name s) < 2 ^ 30"
  shows "\<exists>s'. dic_so_verify device name s = Inr (dec_word 8 rb, s') \<and>
    call_done s c k (request_bytes (So_load (client_text name s))) rest s'"
  using so_load_builder.call_rcv_first [where x = "(device, name)" and device = device and c = c and k = k
      and rb = rb and rest = rest and s = s and w = 8 and g = "\<lambda>v. v :: u64"] assms
  by (simp add: dic_so_verify_def)

lemma dic_so_unload_call:
  assumes "calling (So_unload (r_ptr h)) (r_device h) c k rb rest s" "4 \<le> length rb"
  shows "\<exists>s'. dic_so_unload h s = Inr (dec_word 4 rb, s') \<and>
    call_done s c k (request_bytes (So_unload (r_ptr h))) rest s'"
  using so_unload_builder.call_rcv_first [where x = h and device = "r_device h" and c = c and k = k
      and rb = rb and rest = rest and s = s and w = 4 and g = "\<lambda>v. v :: c_int"] assms
  by (simp add: dic_so_unload_def)

lemma dic_so_upload_call:
  fixes s :: "'a client_scheme"
  assumes "calling (So_upload (client_text name s) bytes) device c k rb rest s" "4 \<le> length rb"
    and "text_in path s" "text_in name s" "length (client_text name s) < 2 ^ 29"
    "local_files s (client_text path s) = Some bytes" "length bytes < 2 ^ 29"
  shows "\<exists>s'. dic_so_upload device path name s = Inr (dec_word 4 rb, s') \<and>
    call_done s c k (request_bytes (So_upload (client_text name s) bytes)) rest s'"
  using so_upload_builder.call_rcv_first [where x = "(device, path, name)" and device = device and c = c and k = k
      and rb = rb and rest = rest and s = s and w = 4 and g = "\<lambda>v. v :: c_int"] assms
  by (simp add: dic_so_upload_def)

lemma dic_rthread_run_call:
  assumes "calling (Run (r_ptr f) (r_ptr a)) (r_device f) c k rb rest s" "8 \<le> length rb"
  shows "\<exists>s'. dic_rthread_run f a s = Inr (\<lparr>rt_tid = dec_word 8 rb, rt_device = r_device f\<rparr>, s') \<and>
    call_done s c k (request_bytes (Run (r_ptr f) (r_ptr a))) rest s'"
  using run_builder.call_rcv_first [where x = "(f, a)" and device = "r_device f" and c = c and k = k
      and rb = rb and rest = rest and s = s and w = 8 and g = "\<lambda>v. \<lparr>rt_tid = v, rt_device = r_device f\<rparr>"] assms
  by (simp add: dic_rthread_run_def)

lemma dic_rthread_join_call:
  assumes "calling (Join (rt_tid t)) (rt_device t) c k rb rest s" "8 \<le> length rb"
  shows "\<exists>s'. dic_rthread_join t s = Inr (\<lparr>r_ptr = dec_word 8 rb, r_device = rt_device t\<rparr>, s') \<and>
    call_done s c k (request_bytes (Join (rt_tid t))) rest s'"
  using join_builder.call_rcv_first [where x = t and device = "rt_device t" and c = c and k = k
      and rb = rb and rest = rest and s = s and w = 8 and g = "\<lambda>v. \<lparr>r_ptr = v, r_device = rt_device t\<rparr>"] assms
  by (simp add: dic_rthread_join_def)

text \<open>The copy to the client also writes the client's object.\<close>

lemma exchanged_write:
  fixes s :: "'a net_scheme"
  assumes e: "exchanged s c k bytes rb rest msg rcv s2" and ok: "mem_ok s"
    and a: "heap_of s a = Some bs" "length v = length bs"
  shows "exchanged (set_block a v s) c k bytes rb rest msg rcv (set_block a v s2)"
proof -
  from e obtain mbs sl where h: "msg \<noteq> rcv" "heap_of s msg = None" "heap_of s rcv = None" "mem_ok s2"
    "heap_of s2 = (heap_of s)(msg \<mapsto> mbs, rcv \<mapsto> rb @ sl)" by (auto simp: exchanged_def)
  have ne: "a \<noteq> msg" "a \<noteq> rcv" using a(1) h by auto
  then have at: "heap_of s2 a = Some bs" using h(5) a(1) by simp
  have "heap_of (set_block a v s2) = (heap_of (set_block a v s))(msg \<mapsto> mbs, rcv \<mapsto> rb @ sl)"
    using h(5) ne by (auto simp: fun_eq_iff)
  moreover have "net.more (set_block a v s2) = net.more s2" "net.more (set_block a v s) = net.more s"
    by (simp_all add: set_block_def)
  ultimately show ?thesis
    using e h ne set_block_mem_ok [OF h(4) at a(2)] by (auto simp: exchanged_def)
qed

lemma dic_memcpy_n2c_call:
  assumes call: "calling (Memcpy_n2c (r_ptr p) n) (r_device p) c k rb rest s" and rb: "rb = enc_word 4 n @ v"
    and v: "length v = unat n" and a: "l = a + i" "heap_of s a = Some bs" "i + unat n \<le> length bs"
  shows "\<exists>s'. dic_memcpy_n2c l p n s = Inr (0, s') \<and>
    call_done (set_block a (patch bs i v) s) c k (request_bytes (Memcpy_n2c (r_ptr p) n)) rest s'"
proof -
  from call have ok: "mem_ok s" by (simp add: calling_def)
  from n2c_builder.call_exchange [where x = "(l, p, n)", OF TrueI, unfolded prod.case, OF call]
  obtain msg s1 rcv s2 where e: "build_memcpy_n2c_req l p n s = Inr (msg, s1)"
    "dic_atomic_send_recv (r_device p) msg s1 = Inr ((rcv, word_of_nat (length rb)), s2)"
    "exchanged s c k (request_bytes (Memcpy_n2c (r_ptr p) n)) rb rest (fst msg) rcv s2" by blast
  from e(3) obtain mbs sl where h: "mem_ok s2" "heap_of s2 rcv = Some (rb @ sl)" "heap_of s rcv = None"
    "heap_of s (fst msg) = None" "heap_of s2 = (heap_of s)(fst msg \<mapsto> mbs, rcv \<mapsto> rb @ sl)"
    by (auto simp: exchanged_def)
  have at: "heap_of s2 a = Some bs" using h a(2) by auto
  let ?s3 = "set_block a (patch bs i v) s2"
  have "load (rcv + 4) (unat n) s2 = Inr v" using load_block [OF h(1,2), of 4 "unat n"] rb v by simp
  moreover have "store l v s2 = Inr ?s3" using store_in_block [OF h(1) at] a(1,3) v by simp
  ultimately have cp: "c_memcpy l (rcv + 4) (unat n) s2 = Inr ?s3" by (simp add: c_memcpy_def)
  have sz: "load_word 4 rcv s2 = Inr n" using rb by (simp add: exchanged_field [OF e(3)])
  have "length (patch bs i v) = length bs" using a(3) v by simp
  from exchanged_release [OF exchanged_write [OF e(3) ok a(2) this], of "fst msg" rcv]
  obtain s4 s5 where "c_free (fst msg) ?s3 = Inr s4" "c_free rcv s4 = Inr s5"
    "call_done (set_block a (patch bs i v) s) c k (request_bytes (Memcpy_n2c (r_ptr p) n)) rest s5" by blast
  then show ?thesis using e(1,2) sz cp by (simp add: dic_memcpy_n2c_def)
qed

section \<open>The symbol request is one byte short\<close>

text \<open>C29. \<open>build_func_load\<close> asks for room for the symbol without its null byte and then \<open>strcpy\<close>s it: when the
  allocator gives exactly what was asked for, the null byte lands outside the object.\<close>

theorem build_func_load_overflow:
  assumes ok: "mem_ok s" and symbol: "text_in symbol s" "length (client_text symbol s) < 2 ^ 30"
      "client_text symbol s \<noteq> []"
    and st: "stocked [20 + length (client_text symbol s)] s"
    and tight: "length (snd (hd (choices s))) = 20 + length (client_text symbol s)"
  shows "build_func_load p symbol s = Inl OutOfBounds"
proof -
  let ?t = "client_text symbol s"
  let ?w = "word_of_nat (length ?t) :: c_int"
  obtain a k bs where a: "symbol = a + k" "heap_of s a = Some bs" "k < length bs"
    "c_string (drop k bs) = Some ?t" "load_str symbol s = Inr ?t"
    using text_inE [OF symbol(1) ok] by metis
  have n: "unat ?w = length ?t" using symbol(2) by (subst unat_of_nat) simp
  from st have "stocked [8 + 12 + length ?t] s" by simp
  from this ok obtain msg len rest m where d: "draft s [] msg len (12 + length ?t) (length rest) m"
      "length (head_bytes (op_code DIC_FUNC_LOAD) (12 + length ?t)) = 8" "12 + length ?t \<le> length rest"
    and r: "REQ_BUILDER_INIT_DYNAMIC 12 ?w s = ((msg, len), m)"
      "REQ_BUILDER_SET_HEAD DIC_FUNC_LOAD (msg, len) m =
        Inr (set_block msg (head_bytes (op_code DIC_FUNC_LOAD) (12 + length ?t) @ rest) m)"
    by (rule req_start_dynamic [OF _ _ _ n]) (use symbol(2) in simp)
  let ?hdr = "head_bytes (op_code DIC_FUNC_LOAD) (12 + length ?t)" and ?f = "enc_word 8 (r_ptr p)"
  let ?m = "set_block msg (?hdr @ ?f @ drop 8 rest) m"
  have "heap_of m msg = Some (snd (hd (choices s)))"
    using r(1) d(1) by (auto simp: REQ_BUILDER_INIT_DYNAMIC_def draft_def Let_def split: prod.splits
        dest: c_malloc_gives)
  then have "length rest = 12 + length ?t" using d(1) tight by (auto simp: draft_def)
  then have l: "length (?f @ drop 8 rest) = length rest" "length rest = 12 + length ?t" by simp_all
  have st1: "store (msg + 8) ?f (set_block msg (?hdr @ rest) m) = Inr ?m"
    using draft_store0 [OF d(1,2) refl, of ?f] l by (simp add: patch_def)
  have rd: "load_str symbol ?m = Inr ?t"
    using draft_reads(2) [OF d(1,2) l(1) a(2-4)] a(1) by simp
  from d(1) obtain cs where m: "mem_ok m" "heap_of m msg = Some cs" "length cs = 8 + length rest"
    by (auto simp: draft_def)
  have "mem_ok ?m" "heap_of ?m msg = Some (?hdr @ ?f @ drop 8 rest)"
    using m d(2) l by (auto intro!: set_block_mem_ok)
  then have "store (msg + 20) (?t @ [0]) ?m = Inl OutOfBounds"
    using l d(2) symbol(3) by (intro store_overflow [of _ _ "?hdr @ ?f @ drop 8 rest"]) simp_all
  then have "store (msg + 8 + 12) (?t @ [0]) ?m = Inl OutOfBounds" by (simp add: add.commute)
  then show ?thesis
    unfolding build_func_load_def sizeof_dic_req_func_load_def builder_defs c_strcpy_def Let_def
    by (simp only: a(5) bindR.simps r prod.case fst_conv st1 rd)
qed

end
