(* ===== verification/Sockets_Correct.thy ===== *)
theory Sockets_Correct
  imports Sockets
begin

text \<open>
  What the connection layer guarantees: a stream that ends is reported and closes the connection, a new
  connection structure is fresh and is released completely, a second attempt to connect succeeds exactly
  when it leaves a socket, a dotted address is stored in network order.
\<close>

section \<open>A stream that ends too early\<close>

lemma closed_state:
  "heap_of (put_conn p c (c_close fd s)) = heap_of s" "mem_ok (put_conn p c (c_close fd s)) = mem_ok s"
  "net.more (put_conn p c (c_close fd s)) = net.more s"
  "conns (put_conn p c (c_close fd s)) = (conns s)(p \<mapsto> c)" "socks (put_conn p c (c_close fd s)) = (socks s)(fd := None)"
  "socks s fd = Some k \<Longrightarrow> hung_up (put_conn p c (c_close fd s)) = (fd, k) # hung_up s"
  by (simp_all add: put_conn_def c_close_def heap_of_def mem_ok_def)

lemma eat_all: "length (concat cs) < n \<Longrightarrow> eat n cs = []"
  by (induction n cs rule: eat.induct) auto

lemma recv_stream_ends:
  fixes s :: "'a net_scheme"
  assumes con: "connected p c k s" "sk_eof k" "length (concat (sk_in k)) < n" and ok: "mem_ok s"
    and b: "grants n b s" and w: "size_of_int w = n"
  obtains t bs where "dic_conn_recv p (fst b) w False (add_block b s) = Inr (1, t)"
    and "mem_ok t" "heap_of t = (heap_of s)(fst b \<mapsto> bs)" "length bs = length (snd b)" "heap_of s (fst b) = None"
    and "conns t = (conns s)(p \<mapsto> c\<lparr>sockfd := - 1\<rparr>)" "socks t = (socks s)(sockfd c := None)"
    and "net.more t = net.more s" "hung_up t = (sockfd c, k\<lparr>sk_in := []\<rparr>) # hung_up s"
proof -
  let ?m = "add_block b s"
  let ?t = "recv_state (sockfd c) k (fst b) (snd b) 0 n ?m"
  note m = more_net [OF more_blocks(1) [of b s]] net_more_of_mem [OF more_blocks(1) [of b s]]
  have mok: "mem_ok ?m" "heap_of ?m (fst b) = Some (snd b)" "n \<le> length (snd b)"
    using grants_mem_ok [OF b ok] grants_length [OF b] by simp_all
  have c': "connected p c k ?m" using con(1) m by (simp add: connected_def)
  have "dic_conn_recv p (fst b) w False ?m = Inr (1, put_conn p (c\<lparr>sockfd := - 1\<rparr>) (c_close (sockfd c) ?t))"
    using dic_conn_recv_spec [OF c' mok(1,2) w, of 0] mok(3) con(2,3) by (simp add: Let_def)
  moreover have "heap_of ?t = (heap_of s)(fst b \<mapsto> patch (snd b) 0 (concat (sk_in k)))"
    using con(3) by (auto simp: fun_eq_iff)
  moreover have "socks ?t = (socks s)(sockfd c \<mapsto> k\<lparr>sk_in := []\<rparr>)" "conns ?t = conns s"
    using c' m eat_all [OF con(3)] by (simp_all add: recv_state_socks connected_def)
  moreover have "net.more ?t = net.more s" "hung_up ?t = hung_up s" using m by (simp_all add: recv_state_def set_in_def set_block_def)
  moreover have "mem_ok ?t" using mok by (intro recv_state_mem_ok) simp_all
  moreover have "length (patch (snd b) 0 (concat (sk_in k))) = length (snd b)" using con(3) mok(3) by simp
  ultimately show ?thesis using that grants_fresh [OF b ok] by (simp add: closed_state)
qed

section \<open>New connections\<close>

lemma tcp_connect_keeps:
  assumes "tcp_connect addr prt s = (fd, s')"
  shows "blocks s' = blocks s" "choices s' = choices s" "conns s' = conns s" "fd = - 1 \<or> 0 \<le> fd \<and> socks s fd = None"
    "socks s' = (if fd = - 1 then socks s else (socks s)(fd := socks s' fd))" "fd \<noteq> - 1 \<Longrightarrow> socks s' fd \<noteq> None"
    "uninit_destroyed s' = uninit_destroyed s"
  using assms
  by (auto simp: tcp_connect_def c_socket_def c_connect_def c_close_def Let_def fun_eq_iff
      split: list.splits option.splits if_splits)

lemma dic_conn_new_fresh:
  fixes s :: "'a net_scheme"
  assumes "stocked (sizeof_dic_conn # ns) s" "mem_ok s"
  obtains p t bs c where "dic_conn_new addr prt s = Inr (p, t)" "0 < p" "p < 2 ^ 64" "heap_of s p = None" "mem_ok t"
    and "stocked ns t" "heap_of t = (heap_of s)(p \<mapsto> bs)" "conns t = (conns s)(p \<mapsto> c)" "ip c = addr" "port c = prt"
    and "sockfd c = fst (tcp_connect addr prt s)" "socks t = socks (snd (tcp_connect addr prt s))"
    and "queue_cond_init c" "queue_mut_init c" "recv_mut_init c" "send_mut_init c" "uninit_destroyed t = uninit_destroyed s"
proof -
  obtain fd s1 where s1: "tcp_connect addr prt s = (fd, s1)" by (cases "tcp_connect addr prt s")
  note m = tcp_connect_keeps [OF this]
  have "stocked (sizeof_dic_conn # ns) s1" "mem_ok s1" using assms m by (simp_all add: stocked_def mem_ok_def)
  then obtain b where b: "grants sizeof_dic_conn b s1" "stocked ns (add_block b s1)" by (elim stocked_Cons)
  let ?c = "\<lparr>sockfd = fd, queue_len = Some 0, queue_cond_init = True, queue_mut_init = True,
     recv_mut_init = True, send_mut_init = True, port = prt, ip = addr\<rparr>"
  let ?t = "put_conn (fst b) ?c (add_block b s1)"
  have h: "heap_of s1 = heap_of s" using m by (simp add: heap_of_def)
  have net: "conns (add_block b s1) = conns s" "socks (add_block b s1) = socks s1"
    "uninit_destroyed (add_block b s1) = uninit_destroyed s"
    using more_net [OF more_blocks(1) [of b s1]] m(3,7) by (simp_all add: add_block_def)
  have keep: "heap_of ?t = heap_of (add_block b s1)" "mem_ok ?t = mem_ok (add_block b s1)"
    "stocked ns ?t = stocked ns (add_block b s1)" by (simp_all add: put_conn_def heap_of_def mem_ok_def stocked_def)
  show ?thesis
  proof (rule that [of "fst b" ?t "snd b" ?c])
    show "dic_conn_new addr prt s = Inr (fst b, ?t)"
      using s1 c_malloc_grants [OF b(1)] grants_pos [OF b(1)] by (simp add: dic_conn_new_def)
    show "conns ?t = (conns s)(fst b \<mapsto> ?c)" "socks ?t = socks (snd (tcp_connect addr prt s))"
      "uninit_destroyed ?t = uninit_destroyed s" using net s1 by (simp_all add: put_conn_def)
  qed (use keep h b(2) s1 grants_mem_ok [OF b(1) \<open>mem_ok s1\<close>] grants_pos [OF b(1)] grants_limit [OF b(1)]
        grants_fresh [OF b(1) \<open>mem_ok s1\<close>] in simp_all)
qed

text \<open>Releasing a connection.\<close>

definition uninitialised :: "dic_conn \<Rightarrow> nat" where
  "uninitialised c = of_bool (\<not> queue_cond_init c) + of_bool (\<not> queue_mut_init c) +
     of_bool (\<not> send_mut_init c) + of_bool (\<not> recv_mut_init c)"

lemma dic_conn_destroy_releases:
  assumes "conns s p = Some c" "0 < p" "heap_of s p = Some bs" "mem_ok s"
  obtains t where "dic_conn_destroy p s = Inr t" "heap_of t = (heap_of s)(p := None)" "mem_ok t"
    and "conns t = (conns s)(p := None)" "socks t = (socks s)(sockfd c := None)"
    and "uninit_destroyed t = uninit_destroyed s + uninitialised c"
proof -
  let ?s1 = "put_conn p (c\<lparr>sockfd := - 1\<rparr>) (c_close (sockfd c) s)"
  let ?s2 = "?s1\<lparr>uninit_destroyed := uninit_destroyed ?s1 + uninitialised c, conns := (conns ?s1)(p := None)\<rparr>"
  have h: "heap_of ?s2 = heap_of s" "mem_ok ?s2" using assms(4) by (simp_all add: put_conn_def c_close_def heap_of_def mem_ok_def)
  then have "c_free p ?s2 = Inr (del_block p ?s2)" using assms(3) by (intro c_free_block) simp_all
  moreover have "get_conn p s = Inr c" "get_conn p ?s1 = Inr (c\<lparr>sockfd := - 1\<rparr>)"
    using assms(1,2) by (simp_all add: get_conn_def put_conn_def)
  ultimately have "dic_conn_destroy p s = Inr (del_block p ?s2)"
    by (simp add: dic_conn_destroy_def dic_conn_disconnect_def uninitialised_def Let_def)
  moreover have "heap_of (del_block p ?s2) = (heap_of s)(p := None)" "mem_ok (del_block p ?s2)" using h by simp_all
  moreover have "conns (del_block p ?s2) = (conns s)(p := None)" "socks (del_block p ?s2) = (socks s)(sockfd c := None)"
    "uninit_destroyed (del_block p ?s2) = uninit_destroyed s + uninitialised c"
    by (simp_all add: del_block_def put_conn_def c_close_def)
  ultimately show ?thesis by (rule that)
qed

text \<open>A connection that is made and destroyed leaves nothing behind: no memory, no entry, no socket, and
  every mutex and condition variable it destroys was initialised.\<close>

theorem conn_new_destroy:
  fixes s :: "'a net_scheme"
  assumes "stocked [sizeof_dic_conn] s" "mem_ok s" "socks s (- 1) = None"
  shows "\<exists>p t u. dic_conn_new addr prt s = Inr (p, t) \<and> dic_conn_destroy p t = Inr u \<and>
    heap_of u = heap_of s \<and> conns u = (conns s)(p := None) \<and> socks u = socks s \<and>
    uninit_destroyed u = uninit_destroyed s"
proof -
  obtain p t bs c where new: "dic_conn_new addr prt s = Inr (p, t)" "0 < p" "p < 2 ^ 64" "heap_of s p = None" "mem_ok t"
    "stocked [] t" "heap_of t = (heap_of s)(p \<mapsto> bs)" "conns t = (conns s)(p \<mapsto> c)" "ip c = addr" "port c = prt"
    "sockfd c = fst (tcp_connect addr prt s)" "socks t = socks (snd (tcp_connect addr prt s))"
    "queue_cond_init c" "queue_mut_init c" "recv_mut_init c" "send_mut_init c" "uninit_destroyed t = uninit_destroyed s"
    by (rule dic_conn_new_fresh [OF assms(1,2)])
  have c: "conns t p = Some c" "heap_of t p = Some bs" using new(7,8) by simp_all
  obtain u where u: "dic_conn_destroy p t = Inr u" "heap_of u = (heap_of t)(p := None)" "mem_ok u"
    "conns u = (conns t)(p := None)" "socks u = (socks t)(sockfd c := None)"
    "uninit_destroyed u = uninit_destroyed t + uninitialised c"
    by (rule dic_conn_destroy_releases [OF c(1) new(2) c(2) new(5)])
  obtain fd s1 where tc: "tcp_connect addr prt s = (fd, s1)" by (cases "tcp_connect addr prt s")
  then have "socks u = (socks s1)(fd := None)" using u(5) new(11,12) by simp
  also have "\<dots> = (socks s)(fd := None)" by (subst tcp_connect_keeps(5) [OF tc]) simp
  also have "\<dots> = socks s" using tcp_connect_keeps(4) [OF tc] assms(3) by (auto intro!: fun_upd_idem)
  finally have "socks u = socks s" .
  moreover have "heap_of u = heap_of s" using u(2) new(4,7) by (simp add: fun_upd_idem)
  moreover have "conns u = (conns s)(p := None)" using u(4) new(8) by simp
  moreover have "uninit_destroyed u = uninit_destroyed s" using u(6) new(13-17) by (simp add: uninitialised_def)
  ultimately show ?thesis using new(1) u(1) by blast
qed

text \<open>An accepted connection is different: its condition variable and its queue mutex were never
  initialised, and destroying it destroys both.\<close>

lemma accepted_conn_destroy:
  fixes s :: "'a net_scheme"
  assumes lc: "get_conn lp s = Inr lc" "socks s (sockfd lc) \<noteq> None" "accept_answers s = Some (fd, k) # r"
    "0 \<le> fd" "socks s fd = None" and mem: "stocked [sizeof_dic_conn] s" "mem_ok s"
  shows "\<exists>p t u c. dic_conn_accept lp s = Inr (p, t) \<and> conns t p = Some c \<and> sockfd c = fd \<and>
    family (ip c) = sin_family (sk_peer k) \<and> ipv4 (ip c) = s_addr (sk_peer k) \<and>
    dic_conn_destroy p t = Inr u \<and> heap_of u = heap_of s \<and> socks u = socks s \<and>
    uninit_destroyed u = uninit_destroyed s + 2"
proof -
  let ?s1 = "s\<lparr>socks := (socks s)(fd \<mapsto> k), accept_answers := r\<rparr>"
  have "stocked [sizeof_dic_conn] ?s1" and ok: "mem_ok ?s1" using mem by (simp_all add: stocked_def mem_ok_def)
  then obtain b where b: "grants sizeof_dic_conn b ?s1" by (elim stocked_Cons)
  let ?s2 = "add_block b ?s1"
  have "heap_of ?s1 = heap_of s" by (simp add: heap_of_def)
  then have h: "heap_of ?s2 = (heap_of s)(fst b \<mapsto> snd b)" "mem_ok ?s2" "heap_of s (fst b) = None"
    using grants_mem_ok [OF b ok] grants_fresh [OF b ok] by simp_all
  have len: "200 \<le> length (snd b)" using grants_length [OF b] by (simp add: sizeof_dic_conn_def)
  then have "load (fst b + 188) 12 ?s2 = Inr (take 12 (drop 188 (snd b)))"
    using h(1,2) by (intro load_block) simp_all
  let ?c = "\<lparr>sockfd = fd, queue_len = None, queue_cond_init = False, queue_mut_init = False, recv_mut_init = True,
     send_mut_init = True, port = ucast (sin_port (sk_peer k)), ip = \<lparr>family = sin_family (sk_peer k),
     ipv4 = s_addr (sk_peer k), ip_hi = dec_word 12 (take 12 (drop 188 (snd b)))\<rparr>\<rparr>"
  let ?t = "put_conn (fst b) ?c ?s2"
  have acc: "dic_conn_accept lp s = Inr (fst b, ?t)"
    using lc \<open>load _ _ _ = _\<close> c_malloc_grants [OF b] grants_pos [OF b] by (simp add: dic_conn_accept_def c_accept_def)
  have keep: "heap_of ?t = heap_of ?s2" "mem_ok ?t = mem_ok ?s2" by (simp_all add: put_conn_def heap_of_def mem_ok_def)
  then have t: "conns ?t (fst b) = Some ?c" "heap_of ?t (fst b) = Some (snd b)" "mem_ok ?t"
    using h by (simp_all add: put_conn_def)
  obtain u where u: "dic_conn_destroy (fst b) ?t = Inr u" "heap_of u = (heap_of ?t)(fst b := None)" "mem_ok u"
    "conns u = (conns ?t)(fst b := None)" "socks u = (socks ?t)(sockfd ?c := None)"
    "uninit_destroyed u = uninit_destroyed ?t + uninitialised ?c"
    by (rule dic_conn_destroy_releases [OF t(1) grants_pos [OF b] t(2,3)])
  have "socks ?t = (socks s)(fd \<mapsto> k)" "uninit_destroyed ?t = uninit_destroyed s"
    by (simp_all add: put_conn_def add_block_def)
  then have "heap_of u = heap_of s" "socks u = socks s" "uninit_destroyed u = uninit_destroyed s + 2"
    using u(2,5,6) h(1,3) keep(1) lc(5) by (simp_all add: uninitialised_def fun_upd_idem)
  then show ?thesis using acc t(1) u(1) by (intro exI [of _ "fst b"] exI [of _ ?t] exI [of _ u] exI [of _ ?c]) simp
qed

text \<open>\<open>dic_conn_tryconnect\<close> returns 0 or 1, and 0 exactly when the connection has a socket afterwards.\<close>

lemma tryconnect_result:
  fixes s :: "'a net_scheme"
  assumes "dic_conn_tryconnect p s = Inr (r, t)"
  shows "(r = 0 \<or> r = 1) \<and> (\<exists>c'. conns t p = Some c' \<and> (r = 0 \<longleftrightarrow> sockfd c' \<noteq> - 1))"
proof -
  from assms obtain c where c: "get_conn p s = Inr c" by (auto simp: dic_conn_tryconnect_def res_simps)
  then have p: "conns s p = Some c" by (auto simp: get_conn_def split: if_splits option.splits)
  obtain fd s1 where "tcp_connect (ip c) (port c) s = (fd, s1)" by (cases "tcp_connect (ip c) (port c) s")
  with c p assms tcp_connect_keeps(3) [OF this] show ?thesis
    by (auto simp: dic_conn_tryconnect_def put_conn_def split: if_splits)
qed

section \<open>Dotted addresses\<close>

text \<open>The decimal text of a byte, and of an address.\<close>

definition digit_char :: "nat \<Rightarrow> char" where
  "digit_char d = char_of (48 + d)"

definition show_octet :: "byte \<Rightarrow> string" where
  "show_octet b =
     (let n = unat b in
      if n < 10 then [digit_char n]
      else if n < 100 then [digit_char (n div 10), digit_char (n mod 10)]
      else [digit_char (n div 100), digit_char (n div 10 mod 10), digit_char (n mod 10)])"

definition dotted :: "byte \<Rightarrow> byte \<Rightarrow> byte \<Rightarrow> byte \<Rightarrow> string" where
  "dotted a b c d = show_octet a @ ''.'' @ show_octet b @ ''.'' @ show_octet c @ ''.'' @ show_octet d"

lemma digit_code [simp]: "d < 10 \<Longrightarrow> of_char (digit_char d) = 48 + d"
  by (simp add: digit_char_def)

lemma digit_not [simp]: "d < 10 \<Longrightarrow> digit_char d \<noteq> CHR ''.''"
proof
  assume d: "d < 10" "digit_char d = CHR ''.''"
  then have "of_char (digit_char d) = (of_char CHR ''.'' :: nat)" by simp
  with d(1) show False by simp
qed

lemma digit_zero [simp]: "0 < d \<Longrightarrow> d < 10 \<Longrightarrow> digit_char d \<noteq> CHR ''0''"
proof
  assume d: "0 < d" "d < 10" "digit_char d = CHR ''0''"
  then have "of_char (digit_char d) = (of_char CHR ''0'' :: nat)" by simp
  with d(1,2) show False by simp
qed

lemma digits_value_digit: "d < 10 \<Longrightarrow> digits_value v (digit_char d # cs) = digits_value (10 * v + d) cs"
  by simp

lemma octet_show_octet: "octet (show_octet b) = Some b"
proof -
  let ?n = "unat b"
  have n: "?n < 256" using unsigned_less [of b] by simp
  consider (one) "?n < 10" | (two) "10 \<le> ?n" "?n < 100" | (three) "100 \<le> ?n" by linarith
  then show ?thesis
  proof cases
    case one
    then show ?thesis by (simp add: octet_def show_octet_def)
  next
    case two
    then have "0 < ?n div 10" "?n div 10 < 10" by (simp_all add: div_greater_zero_iff)
    with two show ?thesis
      by (simp add: octet_def show_octet_def Let_def digits_value_digit del: digits_value.simps(2))
  next
    case three
    have "?n div 100 = ?n div 10 div 10" by (simp flip: div_mult2_eq)
    then have "10 * (10 * (?n div 100) + ?n div 10 mod 10) + ?n mod 10 = ?n" by simp
    moreover have "0 < ?n div 100" "?n div 100 < 10" using three n by (simp_all add: div_greater_zero_iff)
    ultimately show ?thesis
      using three n by (simp add: octet_def show_octet_def Let_def digits_value_digit del: digits_value.simps(2))
  qed
qed

lemma show_octet_no_dot: "CHR ''.'' \<notin> set (show_octet b)"
proof -
  have "unat b < 256" using unsigned_less [of b] by simp
  then have "unat b div 100 < 10" "unat b < 100 \<Longrightarrow> unat b div 10 < 10" by simp_all
  then show ?thesis
    using digit_not [symmetric, of "unat b"] digit_not [symmetric, of "unat b div 10"]
      digit_not [symmetric, of "unat b div 100"] digit_not [symmetric, of "unat b mod 10"]
      digit_not [symmetric, of "unat b div 10 mod 10"]
    by (auto simp: show_octet_def Let_def)
qed

lemma split_dots_plain: "CHR ''.'' \<notin> set t \<Longrightarrow> split_dots t = [t]"
  by (induction t) auto

lemma split_dots_not_Nil: "split_dots u \<noteq> []"
  by (induction u) (auto split: list.splits)

lemma split_dots_dot: "CHR ''.'' \<notin> set t \<Longrightarrow> split_dots (t @ CHR ''.'' # u) = t # split_dots u"
proof (induction t)
  case Nil
  then show ?case using split_dots_not_Nil [of u] by (cases "split_dots u") auto
next
  case (Cons x t)
  then show ?case by auto
qed

text \<open>Reading the dotted text of any IPv4 address gives that address, its first number in the lowest
  byte (network order).\<close>

lemma ipv4_from_str_dotted:
  "ipv4_from_str pton6 junk (dotted a b c d) = junk\<lparr>family := AF_INET, ipv4 := dec_word 4 [a, b, c, d]\<rparr>"
  by (simp add: ipv4_from_str_def ip_from_str_def inet_pton4_def dotted_def split_dots_dot split_dots_plain
      show_octet_no_dot octet_show_octet)

end
