(* ===== verification/Allocations.thy ===== *)
theory Allocations
  imports Sockets_Correct
begin

text \<open>
  How much memory calls take: the list of the allocator's future answers is followed through the primitives and
  the connection layer, and an allocator that serves a list of requests serves the rest of the list after a
  call that leaves no new object behind.
\<close>

section \<open>Following the allocator\<close>

lemma choices_kept:
  assumes "choices s = L"
  shows "yields (\<lambda>t. choices t = L) (store p v s)" "yields (\<lambda>t. choices t = L) (store_word k p w s)"
    "yields (\<lambda>t. choices t = L) (c_free p s)" "yields (\<lambda>t. choices t = L) (c_memcpy p q n s)"
proof -
  show st: "yields (\<lambda>t. choices t = L) (store p v s)" for p v
    using assms by (auto simp: yields_def store_def split: if_splits option.splits)
  then show "yields (\<lambda>t. choices t = L) (store_word k p w s)" by (simp add: store_word_def)
  show "yields (\<lambda>t. choices t = L) (c_free p s)"
    using assms by (auto simp: yields_def c_free_def split: if_splits option.splits)
  show "yields (\<lambda>t. choices t = L) (c_memcpy p q n s)"
    unfolding c_memcpy_def by (rule yields_bind_eq) (rule st)
qed

lemma c_malloc_takes: "choices (snd (c_malloc n s)) = drop 1 (choices s)"
  by (simp add: c_malloc_def split: list.split)

lemma c_alloca_takes: "yields (\<lambda>x. choices (snd x) = drop 1 (choices s)) (c_alloca n s)"
  using c_malloc_takes [of n s] by (auto simp: yields_def c_alloca_def Let_def case_prod_unfold split: if_splits)

lemma choices_set_in [simp]: "choices (set_in fd cs s) = choices s"
  by (simp add: set_in_def)

lemma c_recv_choices: "yields (\<lambda>x. choices (snd x) = choices s) (c_recv fd p n s)"
  using choices_kept(1) [of s "choices s"]
  by (auto simp: yields_def c_recv_def res_simps split: option.splits list.splits if_splits)

lemma tcp_recv_loop_choices: "yields (\<lambda>x. choices (snd x) = choices s) (tcp_recv_loop fd buf n k s)"
proof (induction fd buf n k s rule: tcp_recv_loop.induct)
  case (1 fd buf n k s)
  show ?case
  proof (subst tcp_recv_loop.simps, intro yields_rules)
    assume "k < n"
    show "yields (\<lambda>x. choices (snd x) = choices s) (bindR (c_recv fd (buf + k) (n - k) s) (\<lambda>(bytes, s1).
        if bytes \<le> 0 then Inr (- 1, s1) else tcp_recv_loop fd buf n (k + nat bytes) s1))"
    proof (rule yields_bind_eq, clarify)
      fix b t assume r: "c_recv fd (buf + k) (n - k) s = Inr (b, t)"
      then have t: "choices t = choices s" using c_recv_choices [of s fd "buf + k" "n - k"] by (simp add: yields_def)
      show "yields (\<lambda>x. choices (snd x) = choices s) (if b \<le> 0 then Inr (- 1, t) else tcp_recv_loop fd buf n (k + nat b) t)"
        using t 1(1) [OF \<open>k < n\<close> r refl] by (auto intro!: yields_rules)
    qed
  qed simp
qed

lemma dic_conn_recv_choices: "yields (\<lambda>x. choices (snd x) = choices s) (dic_conn_recv p b n False s)"
proof -
  have "choices t = choices s" if "dic_conn_recv p b n False s = Inr (r, t)" for r t
  proof -
    from that obtain c err u where u: "tcp_recv_loop (sockfd c) b (size_of_int n) 0 s = Inr (err, u)"
      and t: "t = put_conn p (c\<lparr>sockfd := - 1\<rparr>) (c_close (sockfd c) u) \<or> t = u"
      by (auto simp: dic_conn_recv_def get_conn_def tcp_recv_n_def res_simps split: if_splits option.splits)
    have "choices u = choices s" using tcp_recv_loop_choices [of s "sockfd c" b "size_of_int n" 0] u by (simp add: yields_def)
    with t show ?thesis by (auto simp: put_conn_def c_close_def)
  qed
  then show ?thesis by (auto simp: yields_def)
qed

lemma received_choices: "dic_conn_recv p b n False s = Inr (r, t) \<Longrightarrow> choices t = choices s"
  using dic_conn_recv_choices [of s p b n] by (simp add: yields_def)

lemma dic_conn_send_choices: "yields (\<lambda>x. choices (snd x) = choices s) (dic_conn_send p a n s)"
  by (auto simp: yields_def dic_conn_send_def c_send_def res_simps split: option.splits if_splits)

text \<open>Rules for sequences: the list of future answers is followed through a call.\<close>

lemma takes_rules:
  assumes L: "choices s = L" and f: "\<And>t. choices t = L \<Longrightarrow> yields P (f t)"
  shows "yields P (bindR (store_word k p w s) f)" "yields P (bindR (c_free p s) f)" "yields P (bindR (c_memcpy p q n s) f)"
  by (rule yields_bind [OF choices_kept(2) [OF L] f], assumption,
      rule yields_bind [OF choices_kept(3) [OF L] f], assumption,
      rule yields_bind [OF choices_kept(4) [OF L] f], assumption)

lemma takes_read: "(\<And>x. yields P (f x)) \<Longrightarrow> yields P (bindR (load_word k p s) f)"
  by (rule yields_bind_eq) simp

lemma takes_pair:
  assumes "yields (\<lambda>x. choices (snd x) = L) r" "\<And>a t. choices t = L \<Longrightarrow> yields P (f (a, t))"
  shows "yields P (bindR r f)"
  using assms by (auto simp: yields_def res_simps)

definition takes3 :: "'a net_scheme \<Rightarrow> 'a net_scheme \<Rightarrow> bool" where
  "takes3 s t \<longleftrightarrow> choices t = drop 3 (choices s)"

section \<open>One call after the other\<close>

definition covers :: "(nat \<times> byte list) list \<Rightarrow> (nat \<times> byte list) list \<Rightarrow> bool" where
  "covers B B' \<longleftrightarrow> (\<forall>d \<in> set B'. \<exists>e \<in> set B. fst e = fst d \<and> length (snd e) = length (snd d))"

lemma usable_fewer: "usable B n c \<Longrightarrow> covers B B' \<Longrightarrow> usable B' n c"
  by (cases c) (fastforce simp: list_all_iff covers_def)

lemma serves_fewer: "serves B ns cs \<Longrightarrow> covers B B' \<Longrightarrow> serves B' ns cs"
proof (induction B ns cs arbitrary: B' rule: serves.induct)
  case (3 B n ns c cs)
  then have "covers (c # B) (c # B')" by (auto simp: covers_def)
  with 3 have "serves (c # B') ns cs" by auto
  with usable_fewer [OF _ 3(3)] 3(2) show ?case by simp
qed simp_all

text \<open>When the objects are the same again, possibly with other bytes, the allocator serves what it was to serve
  after the call.\<close>

definition same_extents :: "'a mem_scheme \<Rightarrow> 'a mem_scheme \<Rightarrow> bool" where
  "same_extents s t \<longleftrightarrow> (\<forall>a bs. heap_of t a = Some bs \<longrightarrow> (\<exists>cs. heap_of s a = Some cs \<and> length cs = length bs))"

lemma same_extents_covers:
  assumes "same_extents s t" "mem_ok t"
  shows "covers (blocks s) (blocks t)"
proof -
  have "\<exists>e \<in> set (blocks s). fst e = fst d \<and> length (snd e) = length (snd d)" if d: "d \<in> set (blocks t)" for d
  proof -
    have "heap_of t (fst d) = Some (snd d)" unfolding heap_of_def
      using d assms(2) by (intro map_of_is_SomeI apart_all_distinct) (simp_all add: mem_ok_def)
    with assms(1) obtain cs where "heap_of s (fst d) = Some cs" "length cs = length (snd d)"
      unfolding same_extents_def by blast
    then show ?thesis by (intro bexI [of _ "(fst d, cs)"]) (auto simp: heap_of_def dest: map_of_SomeD)
  qed
  then show ?thesis by (simp add: covers_def)
qed

lemma covers_more: "covers B B' \<Longrightarrow> covers (c # B) B'"
  by (auto simp: covers_def)

lemma stocked_after:
  assumes "stocked (a # b # d # ns) s" "same_extents s t" "mem_ok t" "takes3 s t"
  shows "stocked ns t"
proof -
  from assms(1) obtain x y z cs where c: "choices s = x # y # z # cs" "serves (z # y # x # blocks s) ns cs"
    by (cases "choices s"; cases "drop 1 (choices s)"; cases "drop 2 (choices s)") (auto simp: stocked_def)
  have "covers (z # y # x # blocks s) (blocks t)" by (intro covers_more same_extents_covers assms(2,3))
  from serves_fewer [OF c(2) this] c(1) assms(4) show ?thesis by (simp add: stocked_def takes3_def)
qed

lemma serves_prefix: "serves B (ns @ ms) cs \<Longrightarrow> serves B ns cs"
  by (induction B ns cs rule: serves.induct) auto

lemma stocked_prefix: "stocked (ns @ ms) s \<Longrightarrow> stocked ns s"
  unfolding stocked_def by (rule serves_prefix)

end
