(* ===== verification/Client_Stock.thy ===== *)
theory Client_Stock
  imports Client_Correct Allocations
begin

text \<open>
  How much memory a call of the client library takes: every call asks the allocator three times, for the
  request, the head of the reply and its body, and gives everything back. So a program can make one call
  after the other when the allocator has memory for all of them.
\<close>

section \<open>What the calls take from the allocator\<close>

lemma dic_atomic_send_recv_takes:
  "yields (\<lambda>x. choices (snd x) = drop 2 (choices s)) (dic_atomic_send_recv device msg s)"
  unfolding dic_atomic_send_recv_def Let_def case_prod_unfold
  by (rule takes_pair [OF dic_conn_send_choices], rule takes_pair [OF c_alloca_takes],
      rule takes_pair [OF dic_conn_recv_choices], rule takes_read, rule takes_pair [OF dic_conn_recv_choices],
      rule yields_Inr) (simp add: c_malloc_takes del_block_def numeral_2_eq_2)

text \<open>The builders.\<close>

lemma REQ_BUILDER_takes:
  "choices (snd (REQ_BUILDER_INIT n s)) = drop 1 (choices s)"
  "choices (snd (REQ_BUILDER_INIT_DYNAMIC n d s)) = drop 1 (choices s)"
  by (simp_all add: REQ_BUILDER_INIT_def REQ_BUILDER_INIT_DYNAMIC_def Let_def case_prod_unfold c_malloc_takes)

lemma REQ_BUILDER_SET_HEAD_choices:
  "choices s = L \<Longrightarrow> (\<And>t. choices t = L \<Longrightarrow> yields P (f t)) \<Longrightarrow> yields P (bindR (REQ_BUILDER_SET_HEAD opr r s) f)"
  by (rule yields_bind [where Q = "\<lambda>t. choices t = L"])
    (auto simp: REQ_BUILDER_SET_HEAD_def intro!: takes_rules choices_kept)

lemmas takes_defs = Let_def case_prod_unfold REQ_BUILDER_takes

lemma builders_take:
  "yields (\<lambda>x. choices (snd x) = drop 1 (choices s)) (build_rthread_join t s)"
  "yields (\<lambda>x. choices (snd x) = drop 1 (choices s)) (build_rfree_req p s)"
  "yields (\<lambda>x. choices (snd x) = drop 1 (choices s)) (build_memcpy_n2c_req l p n s)"
  "yields (\<lambda>x. choices (snd x) = drop 1 (choices s)) (build_memcpy_c2n_req l p n s)"
  "yields (\<lambda>x. choices (snd x) = drop 1 (choices s)) (build_rmalloc_req n s)"
  "yields (\<lambda>x. choices (snd x) = drop 1 (choices s)) (build_rrealloc_req p n s)"
  "yields (\<lambda>x. choices (snd x) = drop 1 (choices s)) (build_rthread_run f p s)"
  "yields (\<lambda>x. choices (snd x) = drop 1 (choices s)) (build_so_unload p s)"
  unfolding build_rthread_join_def build_rfree_req_def build_memcpy_n2c_req_def build_memcpy_c2n_req_def
    build_rmalloc_req_def build_rrealloc_req_def build_rthread_run_def build_so_unload_def takes_defs
  by (intro REQ_BUILDER_SET_HEAD_choices [OF REQ_BUILDER_takes(1)] REQ_BUILDER_SET_HEAD_choices [OF REQ_BUILDER_takes(2)]
      takes_rules yields_Inr; simp)+

lemma takes_text:
  assumes "choices s = L" "\<And>t. choices t = L \<Longrightarrow> yields P (f t)"
  shows "yields P (bindR (c_strcpy p q s) f)"
proof (rule yields_bind [OF _ assms(2)], unfold c_strcpy_def)
  show "yields (\<lambda>t. choices t = L) (bindR (load_str q s) (\<lambda>t. store p (t @ [0]) s))"
    by (rule yields_bind_eq, rule choices_kept(1), rule assms(1))
qed

lemma build_so_load_takes: "yields (\<lambda>x. choices (snd x) = drop 1 (choices s)) (build_so_load device name s)"
  unfolding build_so_load_def takes_defs
  by (rule yields_bind_eq, intro REQ_BUILDER_SET_HEAD_choices [OF REQ_BUILDER_takes(2)] takes_rules takes_text yields_Inr; simp)

lemma takes_store:
  assumes "choices s = L" "\<And>t. choices t = L \<Longrightarrow> yields P (f t)"
  shows "yields P (bindR (store p v s) f)"
  by (rule yields_bind [OF choices_kept(1) [OF assms(1)] assms(2)])

lemma build_so_upload_takes: "yields (\<lambda>x. choices (snd x) = drop 1 (choices s)) (build_so_upload device path name s)"
  unfolding build_so_upload_def takes_defs
  by (rule yields_bind_eq, rule yields_bind_eq)
    (auto simp: yields_def [of _ "Inl _"] yields_def [of _ "Inr _"] split: option.split
      intro!: REQ_BUILDER_SET_HEAD_choices [OF REQ_BUILDER_takes(2)] takes_rules takes_text takes_store)

text \<open>The calls.\<close>

lemmas takes_builder = takes_pair [OF builders_take(1)] takes_pair [OF builders_take(2)] takes_pair [OF builders_take(3)]
  takes_pair [OF builders_take(4)] takes_pair [OF builders_take(5)] takes_pair [OF builders_take(6)]
  takes_pair [OF builders_take(7)] takes_pair [OF builders_take(8)]
  takes_pair [OF build_so_load_takes] takes_pair [OF build_so_upload_takes]

lemma calls_take:
  "yields (\<lambda>x. takes3 s (snd x)) (dic_rthread_join t s)"
  "yields (\<lambda>x. takes3 s (snd x)) (dic_rfree p s)"
  "yields (\<lambda>x. takes3 s (snd x)) (dic_memcpy_n2c l p n s)"
  "yields (\<lambda>x. takes3 s (snd x)) (dic_memcpy_c2n l p n s)"
  "yields (\<lambda>x. takes3 s (snd x)) (dic_rmalloc device n s)"
  "yields (\<lambda>x. takes3 s (snd x)) (dic_rrealloc p n s)"
  "yields (\<lambda>x. takes3 s (snd x)) (dic_rthread_run f p s)"
  "yields (\<lambda>x. takes3 s (snd x)) (dic_so_unload p s)"
  "yields (\<lambda>x. takes3 s (snd x)) (dic_so_load device l s)"
  unfolding dic_rthread_join_def dic_rfree_def dic_memcpy_n2c_def dic_memcpy_c2n_def dic_rmalloc_def dic_rrealloc_def
    dic_rthread_run_def dic_so_unload_def dic_so_load_def case_prod_unfold
  by (rule takes_builder, rule takes_pair [OF dic_atomic_send_recv_takes], simp,
      intro takes_read takes_rules yields_Inr; simp add: takes3_def numeral_3_eq_3 numeral_2_eq_2)+

lemma dic_so_upload_takes: "yields (\<lambda>x. takes3 s (snd x)) (dic_so_upload device path name s)"
  unfolding dic_so_upload_def case_prod_unfold
  by (rule takes_builder, rule takes_pair [OF dic_atomic_send_recv_takes], simp,
      intro takes_read takes_rules yields_Inr; simp add: takes3_def numeral_3_eq_3 numeral_2_eq_2)

lemma call_done_extents: "call_done s c k bytes rest t \<Longrightarrow> same_extents s t"
  by (simp add: call_done_def same_extents_def)

end
