(* ===== verification/Node_Correct.thy ===== *)
theory Node_Correct
  imports Node_Spec Allocations
begin

text \<open>
  The node implements its specification. The response builder is executed once and for all; each
  handler is shown to keep the contract of the locale \<open>node_handler\<close> (it answers with one well-framed
  reply, keeps every buffer it does not own, and changes the visible state as \<open>exec\<close> says); inside
  the locale the whole of \<open>dic_node_recv_send\<close> is proved once for every handler that keeps it.
\<close>

section \<open>Frame facts\<close>

text \<open>The memory is one part of the state; \<^const>\<open>mem.more\<close> is all the rest.\<close>

lemma more_node:
  fixes s t :: "'a node_scheme"
  assumes "mem.more s = mem.more t"
  shows "conns s = conns t" "socks s = socks t" "files s = files t" "unwritable s = unwritable t"
    "dl_choices s = dl_choices t" "dl_open s = dl_open t" "dl_sym s = dl_sym t"
    "thread_choices s = thread_choices t" "threads s = threads t"
  using assms by (cases s; cases t; simp)+

section \<open>The response buffer\<close>

text \<open>The state with a fresh response buffer \<open>c\<close> whose head is written.\<close>

definition opened :: "nat \<times> byte list \<Rightarrow> c_int \<Rightarrow> 'a mem_scheme \<Rightarrow> 'a mem_scheme" where
  "opened c len s = set_block (fst c) (patch (snd c) 0 (enc_word 4 (len - 4))) (add_block c s)"

lemma RESP_BUILDER_INIT_DYNAMIC_grants:
  assumes "grants (size_of_int len) c s" "len = word_of_nat (4 + n) + d"
  shows "RESP_BUILDER_INIT_DYNAMIC n d s = ((fst c, len), add_block c s)"
  using assms
  by (simp add: RESP_BUILDER_INIT_DYNAMIC_def RESP_HEAD_SIZE_def sizeof_dic_resp_head_generic_def
      c_malloc_grants)

lemma RESP_SET_HEAD_grants:
  assumes "grants n c s" "4 \<le> n" "mem_ok s"
  shows "RESP_SET_HEAD (fst c, len) (add_block c s) = Inr (opened c len s)"
proof -
  have "store (fst c) (enc_word 4 (len - 4)) (add_block c s) =
      Inr (set_block (fst c) (patch (snd c) 0 (enc_word 4 (len - 4))) (add_block c s))"
    using grants_mem_ok [OF assms(1,3)] grants_length [OF assms(1)] assms(2)
    by (intro store_in_block0) auto
  then show ?thesis
    by (simp add: RESP_SET_HEAD_def RESP_HEAD_SIZE_def sizeof_dic_resp_head_generic_def
        store_word_def opened_def)
qed

lemma opened_facts:
  assumes "grants n c s" "4 \<le> n" "mem_ok s"
  shows "mem_ok (opened c len s)"
    and "heap_of (opened c len s) = (heap_of s)(fst c \<mapsto> patch (snd c) 0 (enc_word 4 (len - 4)))"
    and "stocked ns (opened c len s) \<longleftrightarrow> stocked ns (add_block c s)"
proof -
  have l: "length (patch (snd c) 0 (enc_word 4 (len - 4))) = length (snd c)"
    using grants_length [OF assms(1)] assms(2) by simp
  have h: "heap_of (add_block c s) (fst c) = Some (snd c)" by simp
  show "mem_ok (opened c len s)" "stocked ns (opened c len s) \<longleftrightarrow> stocked ns (add_block c s)"
    unfolding opened_def
    using set_block_mem_ok [OF grants_mem_ok [OF assms(1,3)] h l]
      stocked_set_block [OF grants_mem_ok [OF assms(1,3)] h l] by auto
  show "heap_of (opened c len s) = (heap_of s)(fst c \<mapsto> patch (snd c) 0 (enc_word 4 (len - 4)))"
    by (auto simp: opened_def)
qed

lemma more_opened: "mem.more (opened c len s) = mem.more s"
  by (simp add: opened_def add_block_def)

text \<open>\<open>resp_ready H s k msg len mbs t\<close>: in \<open>t\<close> a response buffer for a body of \<open>k\<close> bytes stands at \<open>msg\<close>
  with its head written, and \<open>t\<close> is otherwise \<open>s\<close>; \<open>H\<close> are the buffers that exist already.\<close>

definition resp_ready ::
  "nat set \<Rightarrow> 'a mem_scheme \<Rightarrow> nat \<Rightarrow> nat \<Rightarrow> c_int \<Rightarrow> byte list \<Rightarrow> 'a mem_scheme \<Rightarrow> bool" where
  "resp_ready H s k msg len mbs t \<longleftrightarrow>
     0 < msg \<and> msg \<notin> H \<and> heap_of s msg = None \<and> heap_of t = (heap_of s)(msg \<mapsto> mbs) \<and> mem_ok t \<and>
     unat len = 4 + k \<and> 4 + k < 2 ^ 31 \<and> 4 + k \<le> length mbs \<and>
     take 4 mbs = enc_dic_resp_head_generic \<lparr>resp_head_body_size = word_of_nat k\<rparr> \<and>
     mem.more t = mem.more s"

lemma resp_ready_dynamic:
  assumes "stocked ((4 + n + unat d) # ns) s" "mem_ok s" "H \<subseteq> dom (heap_of s)" "4 + n + unat d < 2 ^ 31"
  obtains msg len mbs s1 t where "resp_ready H s (n + unat d) msg len mbs t" "stocked ns t"
    and "RESP_BUILDER_INIT_DYNAMIC n d s = ((msg, len), s1)" "RESP_SET_HEAD (msg, len) s1 = Inr t"
proof -
  define len :: c_int where "len = word_of_nat (4 + n) + d"
  have u: "unat (word_of_nat (4 + n) :: c_int) = 4 + n"
    using assms(4) by (subst unat_of_nat) simp
  then have len: "unat len = 4 + n + unat d"
    using assms(4) unfolding len_def by (subst unat_add_lem [THEN iffD1]) simp_all
  then have sz: "size_of_int len = 4 + n + unat d"
    using assms(4) by (subst size_of_int_small) simp_all
  from assms(1) obtain c where c: "grants (4 + n + unat d) c s" "stocked ns (add_block c s)"
    by (rule stocked_Cons)
  let ?mbs = "patch (snd c) 0 (enc_word 4 (len - 4))"
  have l: "4 + n + unat d \<le> length (snd c)" using c(1) by (rule grants_length)
  have len4: "len - 4 = word_of_nat (n + unat d)"
    unfolding len_def by simp
  have fresh: "heap_of s (fst c) = None" using c(1) assms(2) by (rule grants_fresh)
  have head: "take 4 ?mbs = enc_dic_resp_head_generic \<lparr>resp_head_body_size = word_of_nat (n + unat d)\<rparr>"
    by (simp add: patch_def enc_dic_resp_head_generic_def len4)
  show ?thesis
  proof (rule that [of "fst c" len ?mbs "opened c len s" "add_block c s"])
    show "resp_ready H s (n + unat d) (fst c) len ?mbs (opened c len s)"
      unfolding resp_ready_def
      using opened_facts [OF c(1) _ assms(2)] grants_pos [OF c(1)] fresh head l len assms(3,4)
      by (auto simp: more_opened add.assoc)
    show "stocked ns (opened c len s)"
      using opened_facts [OF c(1) _ assms(2)] c(2) by simp
    show "RESP_BUILDER_INIT_DYNAMIC n d s = ((fst c, len), add_block c s)"
      using c(1) sz by (intro RESP_BUILDER_INIT_DYNAMIC_grants) (simp_all add: len_def)
    show "RESP_SET_HEAD (fst c, len) (add_block c s) = Inr (opened c len s)"
      using assms(2) by (intro RESP_SET_HEAD_grants [OF c(1)]) simp_all
  qed
qed

lemma resp_ready_fixed:
  assumes "stocked ((4 + n) # ns) s" "mem_ok s" "H \<subseteq> dom (heap_of s)" "4 + n < 2 ^ 31"
  obtains msg len mbs s1 t where "resp_ready H s n msg len mbs t" "stocked ns t"
    and "RESP_BUILDER_INIT n s = ((msg, len), s1)" "RESP_SET_HEAD (msg, len) s1 = Inr t"
proof -
  from assms(1) have "stocked ((4 + n + unat (0 :: u32)) # ns) s" by simp
  from resp_ready_dynamic [OF this assms(2,3)] assms(4) that show ?thesis
    unfolding RESP_BUILDER_INIT_def by (metis add.right_neutral unsigned_0)
qed

lemma resp_ready_hidden:
  assumes "resp_ready H s k msg len mbs t" "a \<in> H"
  shows "heap_of t a = heap_of s a"
  using assms by (auto simp: resp_ready_def)

section \<open>The contract of a handler\<close>

text \<open>\<open>answers H s out rb v'\<close>: the call \<open>out\<close>, made in state \<open>s\<close> with the node's own buffers at \<open>H\<close>,
  returns a message that is the frame of \<open>rb\<close>, leaves the buffers in \<open>H\<close> and the connections alone,
  and leaves the visible state \<open>v'\<close>.\<close>

definition answers ::
  "nat set \<Rightarrow> 'a node_scheme \<Rightarrow> (msg_builder_ret \<times> 'a node_scheme) res \<Rightarrow> byte list \<Rightarrow> view \<Rightarrow> bool" where
  "answers H s out rb v' \<longleftrightarrow>
     (\<exists>msg len s' mbs. out = Inr ((msg, len), s') \<and> mem_ok s' \<and> 0 < msg \<and> msg \<notin> H \<and>
        heap_of s' msg = Some mbs \<and> unat len < 2 ^ 31 \<and> unat len \<le> length mbs \<and>
        take (unat len) mbs = reply_bytes rb \<and> (\<forall>a \<in> H. heap_of s' a = heap_of s a) \<and>
        conns s' = conns s \<and> socks s' = socks s \<and> view_of (insert msg H) s' = v')"

text \<open>The last step of most handlers: writing the body of the reply.\<close>

lemma answers_store:
  fixes s s3 :: "'a node_scheme"
  assumes ready: "resp_ready H s (length rb) msg len mbs t"
    and s3: "mem_ok s3" "heap_of s3 msg = Some mbs" "\<forall>a \<in> H. heap_of s3 a = heap_of s a"
      "conns s3 = conns s" "socks s3 = socks s"
  shows "answers H s (bindR (store (msg + 4) rb s3) (\<lambda>s4. Inr ((msg, len), s4))) rb
    (view_of (insert msg H) s3)"
proof -
  let ?mbs = "patch mbs 4 rb" and ?s4 = "set_block msg (patch mbs 4 rb) s3"
  have len: "4 + length rb \<le> length mbs" using ready by (simp add: resp_ready_def)
  then have l4: "length (take 4 mbs) = 4" by simp
  have st: "store (msg + 4) rb s3 = Inr ?s4"
    using s3(1,2) len by (intro store_in_block) auto
  have ok: "mem_ok ?s4" using s3(1,2) len by (intro set_block_mem_ok) auto
  have hp: "heap_of ?s4 = (heap_of s3)(msg \<mapsto> ?mbs)" using s3(2) by auto
  have "take (4 + length rb) ?mbs = take 4 mbs @ rb" using l4 by (simp add: patch_def)
  then have frame: "take (4 + length rb) ?mbs = reply_bytes rb"
    using ready by (simp add: resp_ready_def reply_bytes_def)
  have "view_of (insert msg H) ?s4 = view_of (insert msg H) s3"
    by (auto simp: view_of_def hp restrict_map_def more_node
        [OF set_block_other_fields(2), of msg ?mbs s3])
  moreover have "heap_of ?s4 a = heap_of s a" if "a \<in> H" for a
    using that ready s3(3) hp by (auto simp: resp_ready_def)
  ultimately show ?thesis
    using st ok hp frame ready s3 len unfolding answers_def
    by (intro exI [of _ msg] exI [of _ len] exI [of _ ?s4] exI [of _ ?mbs])
      (auto simp: resp_ready_def)
qed

text \<open>Hiding the response buffer again gives the view before, when nothing else has changed.\<close>

lemma view_ready:
  fixes s t :: "'a node_scheme"
  assumes "resp_ready H s k msg len mbs t"
  shows "view_of (insert msg H) t = view_of H s"
proof -
  have "mem.more t = mem.more s" using assms by (simp add: resp_ready_def)
  note m = more_node [OF this]
  with assms show ?thesis by (auto simp: resp_ready_def view_of_def restrict_map_def)
qed

text \<open>A handler whose only visible effect is on the objects: they become \<open>g\<close>.\<close>

lemma answers_heap:
  fixes s s3 :: "'a node_scheme"
  assumes ready: "resp_ready H s (length rb) msg len mbs t"
    and s3: "mem_ok s3" "heap_of s3 = g(msg \<mapsto> mbs)" "mem.more s3 = mem.more s"
    and g: "g msg = None" "\<forall>a \<in> H. g a = heap_of s a"
  shows "answers H s (bindR (store (msg + 4) rb s3) (\<lambda>s4. Inr ((msg, len), s4))) rb
    ((view_of H s)\<lparr>v_heap := g |` (- H)\<rparr>)"
proof -
  have "view_of (insert msg H) s3 = (view_of H s)\<lparr>v_heap := g |` (- H)\<rparr>"
    using g by (auto simp: view_of_def s3(2) restrict_map_def more_node [OF s3(3)])
  moreover have "msg \<notin> H" using ready by (simp add: resp_ready_def)
  ultimately show ?thesis
    using answers_store [OF ready, of s3] s3 g more_node [OF s3(3)] by force
qed

lemma answers_unchanged:
  fixes s t :: "'a node_scheme"
  assumes "resp_ready H s (length rb) msg len mbs t"
    and "mem_ok s3" "heap_of s3 = heap_of t" "mem.more s3 = mem.more t"
  shows "answers H s (bindR (store (msg + 4) rb s3) (\<lambda>s4. Inr ((msg, len), s4))) rb (view_of H s)"
proof -
  have v: "(view_of H s)\<lparr>v_heap := heap_of s |` (- H)\<rparr> = view_of H s" by (simp add: view_of_def)
  show ?thesis
    using answers_heap [of H s rb msg len mbs t s3 "heap_of s"] assms unfolding v
    by (simp add: resp_ready_def)
qed

section \<open>The handlers keep the contract\<close>

lemmas resp_consts =
  resp_body_def RESP_HEAD_SIZE_def sizeof_dic_resp_head_generic_def

lemma handler_start:
  fixes s :: "'a node_scheme"
  assumes "stocked ((4 + n) # ns) s" "mem_ok s" "H \<subseteq> dom (heap_of s)" "body \<in> H"
    and "heap_of s body = Some bs" "4 + n < 2 ^ 31"
  obtains msg len mbs s1 t where "resp_ready H s n msg len mbs t" "stocked ns t"
    and "RESP_BUILDER_INIT n s = ((msg, len), s1)" "RESP_SET_HEAD (msg, len) s1 = Inr t"
    and "mem_ok t" "heap_of t body = Some bs" "body \<noteq> msg"
proof -
  from assms obtain msg len mbs s1 t where r: "resp_ready H s n msg len mbs t" "stocked ns t"
    "RESP_BUILDER_INIT n s = ((msg, len), s1)" "RESP_SET_HEAD (msg, len) s1 = Inr t"
    by (metis resp_ready_fixed)
  moreover from this have "mem_ok t" "heap_of t body = Some bs" "body \<noteq> msg"
    using assms(4,5) resp_ready_hidden [OF r(1)] by (auto simp: resp_ready_def)
  ultimately show ?thesis by (rule that)
qed

text \<open>The handler hands the address of a fresh object, or null, to the client.\<close>

lemma answers_malloc:
  fixes s t :: "'a node_scheme"
  assumes ready: "resp_ready H s 8 msg len mbs t" and H: "H \<subseteq> dom (heap_of s)"
  shows "\<exists>rb v'. (rb = ptr_reply 0 \<and> v' = view_of H s \<or>
      (\<exists>p bs. new_object (view_of H s) n p bs \<and> rb = ptr_reply p \<and>
        v' = (view_of H s)\<lparr>v_heap := (v_heap (view_of H s))(p \<mapsto> bs)\<rparr>)) \<and>
    answers H s (bindR (store (msg + 4) (ptr_reply (fst (c_malloc n t))) (snd (c_malloc n t)))
      (\<lambda>s4. Inr ((msg, len), s4))) rb v'"
proof -
  have t: "mem_ok t" using ready by (simp add: resp_ready_def)
  show ?thesis
  proof (cases rule: c_malloc_cases [of n t])
    case null
    have "answers H s (bindR (store (msg + 4) (ptr_reply 0) (snd (c_malloc n t)))
        (\<lambda>s4. Inr ((msg, len), s4))) (ptr_reply 0) (view_of H s)"
      using ready null t
      by (intro answers_unchanged) (simp_all add: ptr_reply_def c_malloc_mem_ok)
    then show ?thesis using null by auto
  next
    case (grant c)
    let ?g = "(heap_of s)(fst c \<mapsto> snd c)"
    have fresh: "fst c \<noteq> msg" "fst c \<notin> H" "heap_of s (fst c) = None"
      using grants_fresh [OF grant(1) t(1)] ready H
      by (auto simp: resp_ready_def split: if_splits)
    have "answers H s (bindR (store (msg + 4) (ptr_reply (fst c)) (add_block c t))
        (\<lambda>s4. Inr ((msg, len), s4))) (ptr_reply (fst c)) ((view_of H s)\<lparr>v_heap := ?g |` (- H)\<rparr>)"
      using ready fresh grants_mem_ok [OF grant(1) t(1)]
      by (intro answers_heap) (auto simp: resp_ready_def ptr_reply_def)
    moreover have "?g |` (- H) = (v_heap (view_of H s))(fst c \<mapsto> snd c)"
      using fresh by (auto simp: view_of_def restrict_map_def)
    moreover have "new_object (view_of H s) n (fst c) (snd c)"
      using fresh grants_pos [OF grant(1)] grants_limit [OF grant(1)] grants_length [OF grant(1)]
      by (auto simp: new_object_def view_of_def restrict_map_def)
    ultimately show ?thesis using grant(2) by auto
  qed
qed

lemma handle_malloc_contract:
  fixes s :: "'a node_scheme"
  assumes "mem_ok s" "body \<in> H" "H \<subseteq> dom (heap_of s)"
    and "heap_of s body = Some (body_bytes (Malloc n) @ rest)" "stocked (needs (Malloc n)) s"
  shows "\<exists>rb v'. exec (Malloc n) (view_of H s) rb v' \<and> answers H s (handle_malloc body s) rb v'"
proof -
  obtain msg len mbs s1 t where ready: "resp_ready H s 8 msg len mbs t"
    and run: "RESP_BUILDER_INIT 8 s = ((msg, len), s1)" "RESP_SET_HEAD (msg, len) s1 = Inr t"
    and t: "mem_ok t" "heap_of t body = Some (body_bytes (Malloc n) @ rest)"
    using assms by (auto intro: handler_start [of 8 "[]" s H body])
  have size: "load_word 4 body t = Inr n"
    by (simp add: load_word_at0 [OF t] enc_dic_req_malloc_def)
  have step: "handle_malloc body s =
      (if n = 0 then bindR (store (msg + 4) (ptr_reply 0) t) (\<lambda>s4. Inr ((msg, len), s4))
       else bindR (store (msg + 4) (ptr_reply (fst (c_malloc (unat n) t))) (snd (c_malloc (unat n) t)))
         (\<lambda>s4. Inr ((msg, len), s4)))"
    by (simp add: handle_malloc_def sizeof_dic_resp_malloc_def run size resp_consts store_word_def
        ptr_reply_def UNULL_def case_prod_beta)
  show ?thesis
  proof (cases "n = 0")
    case True
    with ready t step show ?thesis
      by (auto simp: ptr_reply_def intro!: exI answers_unchanged)
  next
    case False
    with step answers_malloc [OF ready assms(3), of "unat n"] show ?thesis by auto
  qed
qed

lemma handle_free_contract:
  fixes s :: "'a node_scheme"
  assumes "mem_ok s" "body \<in> H" "H \<subseteq> dom (heap_of s)"
    and "heap_of s body = Some (body_bytes (Free q) @ rest)" "stocked (needs (Free q)) s"
    and "allowed (Free q) (view_of H s)"
  shows "\<exists>rb v'. exec (Free q) (view_of H s) rb v' \<and> answers H s (handle_free body s) rb v'"
proof -
  obtain msg len mbs s1 t where ready: "resp_ready H s 1 msg len mbs t"
    and run: "RESP_BUILDER_INIT 1 s = ((msg, len), s1)" "RESP_SET_HEAD (msg, len) s1 = Inr t"
    and t: "mem_ok t" "heap_of t body = Some (body_bytes (Free q) @ rest)"
    using assms by (auto intro: handler_start [of 1 "[]" s H body])
  have ptr: "load_word 8 body t = Inr q"
    by (simp add: load_word_at0 [OF t] enc_dic_req_free_def)
  have step: "handle_free body s =
      bindR (c_free (unat q) t) (\<lambda>s3. bindR (store (msg + 4) [0] s3) (\<lambda>s4. Inr ((msg, len), s4)))"
    by (simp add: handle_free_def sizeof_dic_resp_free_def run [unfolded One_nat_def] ptr resp_consts
        store_word_def enc_word_def)
  show ?thesis
  proof (cases "q = 0")
    case True
    with ready t step show ?thesis by (auto intro!: answers_unchanged)
  next
    case False
    with assms(6) obtain bs where q: "heap_of s (unat q) = Some bs" "unat q \<notin> H"
      by (auto simp: view_of_def restrict_map_def split: if_splits)
    let ?g = "(heap_of s)(unat q := None)"
    have q': "unat q \<noteq> msg" "heap_of t (unat q) = Some bs" using q ready by (auto simp: resp_ready_def)
    have "answers H s (bindR (store (msg + 4) [0] (del_block (unat q) t)) (\<lambda>s4. Inr ((msg, len), s4)))
        [0] ((view_of H s)\<lparr>v_heap := ?g |` (- H)\<rparr>)"
      using ready q q' t by (intro answers_heap) (auto simp: resp_ready_def)
    moreover have "?g |` (- H) = (v_heap (view_of H s))(unat q := None)"
      using q by (auto simp: view_of_def restrict_map_def)
    ultimately show ?thesis using False step c_free_block [OF t(1) q'(2)] by auto
  qed
qed

text \<open>The two ways in which \<open>realloc\<close> changes the memory: the object is freed, or it is moved.\<close>

lemma realloc_frees:
  fixes s t :: "'a node_scheme"
  assumes ready: "resp_ready H s 8 msg len mbs t" and q: "heap_of s p = Some old" "p \<notin> H"
  shows "answers H s (bindR (store (msg + 4) (ptr_reply 0) (del_block p t)) (\<lambda>s4. Inr ((msg, len), s4))) (ptr_reply 0)
    ((view_of H s)\<lparr>v_heap := (v_heap (view_of H s))(p := None)\<rparr>)"
proof -
  let ?g = "(heap_of s)(p := None)"
  have "p \<noteq> msg" using q(1) ready by (auto simp: resp_ready_def)
  have g: "?g |` (- H) = (v_heap (view_of H s))(p := None)" using q by (auto simp: view_of_def restrict_map_def)
  have "answers H s (bindR (store (msg + 4) (ptr_reply 0) (del_block p t)) (\<lambda>s4. Inr ((msg, len), s4))) (ptr_reply 0)
      ((view_of H s)\<lparr>v_heap := ?g |` (- H)\<rparr>)"
    using ready q \<open>p \<noteq> msg\<close> by (intro answers_heap) (auto simp: resp_ready_def ptr_reply_def)
  then show ?thesis by (simp only: g)
qed

lemma realloc_moves:
  fixes s t m :: "'a node_scheme"
  assumes ready: "resp_ready H s 8 msg len mbs t" and H: "H \<subseteq> dom (heap_of s)"
    and q: "heap_of s p = Some old" "p \<notin> H"
    and m: "mem_ok m" "mem.more m = mem.more t" "heap_of m = (heap_of t)(p := None, a \<mapsto> bs)" "a = p \<or> heap_of t a = None"
      "0 < a" "a < 2 ^ 64" "n \<le> length bs"
  shows "answers H s (bindR (store (msg + 4) (ptr_reply a) m) (\<lambda>s4. Inr ((msg, len), s4))) (ptr_reply a)
      ((view_of H s)\<lparr>v_heap := (v_heap (view_of H s))(p := None, a \<mapsto> bs)\<rparr>)"
    and "new_object ((view_of H s)\<lparr>v_heap := (v_heap (view_of H s))(p := None)\<rparr>) n a bs"
proof -
  let ?g = "(heap_of s)(p := None, a \<mapsto> bs)"
  have a: "a \<noteq> msg" "a \<notin> H" "a = p \<or> heap_of s a = None" "p \<noteq> msg"
    using m(4) q ready H by (auto simp: resp_ready_def split: if_splits)
  have g: "?g |` (- H) = (v_heap (view_of H s))(p := None, a \<mapsto> bs)" using q a by (auto simp: view_of_def restrict_map_def)
  have "answers H s (bindR (store (msg + 4) (ptr_reply a) m) (\<lambda>s4. Inr ((msg, len), s4))) (ptr_reply a)
      ((view_of H s)\<lparr>v_heap := ?g |` (- H)\<rparr>)"
    using ready m a q by (intro answers_heap) (auto simp: resp_ready_def ptr_reply_def)
  then show "answers H s (bindR (store (msg + 4) (ptr_reply a) m) (\<lambda>s4. Inr ((msg, len), s4))) (ptr_reply a)
      ((view_of H s)\<lparr>v_heap := (v_heap (view_of H s))(p := None, a \<mapsto> bs)\<rparr>)" by (simp only: g)
  show "new_object ((view_of H s)\<lparr>v_heap := (v_heap (view_of H s))(p := None)\<rparr>) n a bs"
    using a m by (auto simp: new_object_def view_of_def restrict_map_def)
qed

lemma handle_realloc_contract:
  fixes s :: "'a node_scheme"
  assumes "mem_ok s" "body \<in> H" "H \<subseteq> dom (heap_of s)"
    and "heap_of s body = Some (body_bytes (Realloc q n) @ rest)" "stocked (needs (Realloc q n)) s"
    and "allowed (Realloc q n) (view_of H s)"
  shows "\<exists>rb v'. exec (Realloc q n) (view_of H s) rb v' \<and> answers H s (handle_realloc body s) rb v'"
proof -
  obtain msg len mbs s1 t where ready: "resp_ready H s 8 msg len mbs t"
    and run: "RESP_BUILDER_INIT 8 s = ((msg, len), s1)" "RESP_SET_HEAD (msg, len) s1 = Inr t"
    and t: "mem_ok t" "heap_of t body = Some (body_bytes (Realloc q n) @ rest)"
    using assms by (auto intro: handler_start [of 8 "[]" s H body])
  let ?out = "\<lambda>rb s3. bindR (store (msg + 4) rb s3) (\<lambda>s4. Inr ((msg, len), s4))"
  have fields: "load_word 8 body t = Inr q" "load_word 4 (body + 8) t = Inr n"
    by (simp_all add: load_word_at0 [OF t] load_word_at [OF t] enc_dic_req_realloc_def)
  have step: "handle_realloc body s =
      bindR (c_realloc (unat q) (unat n) t) (\<lambda>(p, s3). ?out (ptr_reply p) s3)"
    by (simp add: handle_realloc_def sizeof_dic_resp_realloc_def run fields resp_consts store_word_def
        ptr_reply_def)
  show ?thesis
  proof (cases "q = 0")
    case True
    with step have "handle_realloc body s =
        ?out (ptr_reply (fst (c_malloc (unat n) t))) (snd (c_malloc (unat n) t))"
      by (simp add: c_realloc_def case_prod_beta)
    with True answers_malloc [OF ready assms(3), of "unat n"] show ?thesis by auto
  next
    case False
    with assms(6) obtain old where q: "heap_of s (unat q) = Some old" "unat q \<notin> H"
      by (auto simp: view_of_def restrict_map_def split: if_splits)
    then have q': "heap_of t (unat q) = Some old" using ready by (auto simp: resp_ready_def)
    have q0: "unat q \<noteq> 0" using False by (simp add: unat_eq_0)
    consider "n = 0" | "n \<noteq> 0" "0 < unat n" by (auto simp: unat_gt_0)
    then show ?thesis
    proof cases
      case 1
      have "c_realloc (unat q) (unat n) t = Inr (0, del_block (unat q) t)"
        using 1 q' q0 by (simp add: c_realloc_def del_block_def heap_of_def)
      with realloc_frees [OF ready q] step 1 False show ?thesis by auto
    next
      case n: 2
      from t(1) q' n(2) show ?thesis
      proof (cases rule: c_realloc_cases)
        case (null m')
        with step ready n answers_unchanged [of H s "ptr_reply 0" msg len mbs t m'] show ?thesis
          by (intro exI [of _ "ptr_reply 0"] exI [of _ "view_of H s"]) (simp add: ptr_reply_def)
      next
        case (moved a bs m')
        note mv = realloc_moves [OF ready assms(3) q moved(2-8)]
        have "v_heap (view_of H s) (unat q) = Some old" using q by (simp add: view_of_def)
        then have ex: "exec (Realloc q n) (view_of H s) (ptr_reply a)
            ((view_of H s)\<lparr>v_heap := (v_heap (view_of H s))(unat q := None, a \<mapsto> bs)\<rparr>)"
          using False n(1) moved(9) mv(2) unfolding exec.simps by metis
        have "handle_realloc body s = ?out (ptr_reply a) m'" using step moved(1) by simp
        with ex mv(1) show ?thesis by metis
      qed
    qed
  qed
qed

lemma handle_memcpy_c2n_contract:
  fixes s :: "'a node_scheme"
  assumes "mem_ok s" "body \<in> H" "H \<subseteq> dom (heap_of s)"
    and "heap_of s body = Some (body_bytes (Memcpy_c2n d bs) @ rest)" "stocked (needs (Memcpy_c2n d bs)) s"
    and "allowed (Memcpy_c2n d bs) (view_of H s)"
  shows "\<exists>rb v'. exec (Memcpy_c2n d bs) (view_of H s) rb v' \<and> answers H s (handle_memcpy_c2n body s) rb v'"
proof -
  obtain msg len mbs s1 t where ready: "resp_ready H s 4 msg len mbs t"
    and run: "RESP_BUILDER_INIT 4 s = ((msg, len), s1)" "RESP_SET_HEAD (msg, len) s1 = Inr t"
    and t: "mem_ok t" "heap_of t body = Some (body_bytes (Memcpy_c2n d bs) @ rest)"
    using assms by (auto intro: handler_start [of 4 "[]" s H body])
  from assms(6) obtain a k cs where len: "length bs < 2 ^ 30"
    and w: "within (view_of H s) d (length bs) a k cs" by auto
  then have a: "heap_of s a = Some cs" "a \<notin> H" "unat d = a + k" "k + length bs \<le> length cs"
    by (auto simp: within_def view_of_def restrict_map_def split: if_splits)
  then have a': "a \<noteq> msg" "heap_of t a = Some cs" using ready by (auto simp: resp_ready_def)
  have n: "unat (word_of_nat (length bs) :: u32) = length bs"
    using len by (simp add: unat_of_nat)
  have fields: "load_word 8 body t = Inr d"
    "load_word 4 (body + 8) t = Inr (word_of_nat (length bs) :: u32)"
    "load (body + 12) (length bs) t = Inr bs"
    by (simp_all add: load_word_at0 [OF t] load_word_at [OF t] load_block [OF t] enc_dic_req_memcpy_c2n_def)
  let ?s3 = "set_block a (patch cs k bs) t" and ?g = "(heap_of s)(a \<mapsto> patch cs k bs)"
  have "c_memcpy (unat d) (body + 12) (length bs) t = Inr ?s3"
    using a a' t(1) by (simp add: c_memcpy_def fields store_in_block)
  then have step: "handle_memcpy_c2n body s =
      bindR (store (msg + 4) (enc_word 4 (0 :: u32)) ?s3) (\<lambda>s4. Inr ((msg, len), s4))"
    by (simp add: handle_memcpy_c2n_def sizeof_dic_resp_memcpy_c2n_def run fields n resp_consts
        store_word_def)
  have "answers H s (bindR (store (msg + 4) (enc_word 4 (0 :: u32)) ?s3) (\<lambda>s4. Inr ((msg, len), s4)))
      (enc_word 4 (0 :: u32)) ((view_of H s)\<lparr>v_heap := ?g |` (- H)\<rparr>)"
    using ready a a' t(1) by (intro answers_heap) (auto simp: resp_ready_def intro!: set_block_mem_ok)
  moreover have "?g |` (- H) = (v_heap (view_of H s))(a \<mapsto> patch cs k bs)"
    using a by (auto simp: view_of_def restrict_map_def)
  ultimately show ?thesis using step w by auto
qed

lemma handle_memcpy_n2c_contract:
  fixes s :: "'a node_scheme"
  assumes "mem_ok s" "body \<in> H" "H \<subseteq> dom (heap_of s)"
    and "heap_of s body = Some (body_bytes (Memcpy_n2c q n) @ rest)" "stocked (needs (Memcpy_n2c q n)) s"
    and "allowed (Memcpy_n2c q n) (view_of H s)"
  shows "\<exists>rb v'. exec (Memcpy_n2c q n) (view_of H s) rb v' \<and> answers H s (handle_memcpy_n2c body s) rb v'"
proof -
  from assms(6) obtain a k cs where small: "unat n < 2 ^ 30"
    and w: "within (view_of H s) q (unat n) a k cs" by auto
  from assms(5) have "stocked [4 + 4 + unat n] s" by simp
  with small obtain msg len mbs s1 t where ready: "resp_ready H s (4 + unat n) msg len mbs t"
    and run: "RESP_BUILDER_INIT_DYNAMIC 4 n s = ((msg, len), s1)" "RESP_SET_HEAD (msg, len) s1 = Inr t"
    by (auto intro: resp_ready_dynamic [of 4 n "[]" s H, OF _ assms(1,3)])
  then have t: "mem_ok t" "heap_of t body = Some (body_bytes (Memcpy_n2c q n) @ rest)" "body \<noteq> msg"
    using assms(2,4) resp_ready_hidden [OF ready] by (auto simp: resp_ready_def)
  from w have a: "heap_of s a = Some cs" "unat q = a + k" "k + unat n \<le> length cs"
    by (auto simp: within_def view_of_def restrict_map_def split: if_splits)
  then have a': "a \<noteq> msg" "heap_of t a = Some cs" using ready by (auto simp: resp_ready_def)
  have size: "load_word 4 (body + 8) s = Inr n"
    by (simp add: load_word_at [OF assms(1,4)] enc_dic_req_memcpy_n2c_def)
  let ?v = "take (unat n) (drop k cs)"
  let ?rb = "enc_word 4 n @ ?v"
  let ?mb1 = "patch mbs 4 (enc_word 4 n)"
  let ?t1 = "set_block msg ?mb1 t"
  have mb: "4 + (4 + unat n) \<le> length mbs" "heap_of t msg = Some mbs" using ready by (auto simp: resp_ready_def)
  have t1: "store (msg + 4) (enc_word 4 n) t = Inr ?t1" "mem_ok ?t1"
    "heap_of ?t1 msg = Some ?mb1" "heap_of ?t1 a = Some cs" "heap_of ?t1 body = heap_of t body"
    using t mb a' by (auto simp: store_in_block intro!: set_block_mem_ok)
  have src: "load_word 8 body ?t1 = Inr q"
    by (simp add: load_word_at0 [OF t1(2) t1(5) [unfolded t(2)]] enc_dic_req_memcpy_n2c_def)
  have lv: "length ?v = unat n" using a(3) by simp
  have "store (msg + 8) ?v ?t1 = Inr (set_block msg (patch ?mb1 8 ?v) ?t1)"
    using t1 mb(1) lv by (intro store_in_block) auto
  moreover have "patch ?mb1 8 ?v = patch mbs 4 ?rb"
    using patch_append_adjacent [of 4 "enc_word 4 n" ?v mbs] mb(1) lv by simp
  moreover have "store (msg + 4) ?rb t = Inr (set_block msg (patch mbs 4 ?rb) t)"
    using t mb lv by (intro store_in_block) auto
  ultimately have st: "store (msg + 8) ?v ?t1 = store (msg + 4) ?rb t" by simp
  have "load (unat q) (unat n) ?t1 = Inr ?v"
    unfolding a(2) using load_block [OF t1(2,4) a(3)] .
  then have cp: "c_memcpy (msg + 8) (unat q) (unat n) ?t1 = store (msg + 4) ?rb t"
    by (simp add: c_memcpy_def st)
  have "handle_memcpy_n2c body s = bindR (store (msg + 4) ?rb t) (\<lambda>s4. Inr ((msg, len), s4))"
    by (simp add: handle_memcpy_n2c_def sizeof_dic_resp_memcpy_n2c_def size run resp_consts
        store_word_def t1(1) src cp [unfolded add.commute [of msg 8]])
  moreover have "answers H s (bindR (store (msg + 4) ?rb t) (\<lambda>s4. Inr ((msg, len), s4))) ?rb (view_of H s)"
    using ready t lv by (intro answers_unchanged) auto
  ultimately show ?thesis using w by auto
qed

text \<open>Handlers whose effect is outside the memory.\<close>

lemma node_updates_keep_memory [simp]:
  fixes s :: "'a node_scheme"
  shows "heap_of (s\<lparr>dl_open := a\<rparr>) = heap_of s" "mem_ok (s\<lparr>dl_open := a\<rparr>) = mem_ok s"
    "heap_of (s\<lparr>dl_choices := b\<rparr>) = heap_of s" "mem_ok (s\<lparr>dl_choices := b\<rparr>) = mem_ok s"
    "heap_of (s\<lparr>threads := c\<rparr>) = heap_of s" "mem_ok (s\<lparr>threads := c\<rparr>) = mem_ok s"
    "heap_of (s\<lparr>thread_choices := d\<rparr>) = heap_of s" "mem_ok (s\<lparr>thread_choices := d\<rparr>) = mem_ok s"
    "heap_of (s\<lparr>files := e\<rparr>) = heap_of s" "mem_ok (s\<lparr>files := e\<rparr>) = mem_ok s"
  by (simp_all add: heap_of_def mem_ok_def)

lemma answers_effect:
  fixes s s3 :: "'a node_scheme"
  assumes ready: "resp_ready H s (length rb) msg len mbs t"
    and s3: "mem_ok s3" "heap_of s3 = heap_of t" "conns s3 = conns t" "socks s3 = socks t"
      "dl_sym s3 = dl_sym t" "unwritable s3 = unwritable t"
  shows "answers H s (bindR (store (msg + 4) rb s3) (\<lambda>s4. Inr ((msg, len), s4))) rb
    ((view_of H s)\<lparr>v_files := files s3, v_libs := dl_open s3, v_threads := threads s3, v_spawn := thread_choices s3\<rparr>)"
proof -
  have more: "mem.more t = mem.more s" using ready by (simp add: resp_ready_def)
  note m = more_node [OF more]
  have "view_of (insert msg H) s3 =
      (view_of (insert msg H) t)\<lparr>v_files := files s3, v_libs := dl_open s3, v_threads := threads s3, v_spawn := thread_choices s3\<rparr>"
    using s3 by (simp add: view_of_def)
  then have v: "view_of (insert msg H) s3 =
      (view_of H s)\<lparr>v_files := files s3, v_libs := dl_open s3, v_threads := threads s3, v_spawn := thread_choices s3\<rparr>"
    by (simp add: view_ready [OF ready])
  have "heap_of s3 msg = Some mbs" "\<forall>a \<in> H. heap_of s3 a = heap_of s a"
    using ready s3(2) resp_ready_hidden [OF ready] by (auto simp: resp_ready_def)
  from answers_store [OF ready s3(1) this] show ?thesis using s3(3,4) m v by simp
qed

lemma handle_so_unload_contract:
  fixes s :: "'a node_scheme"
  assumes "mem_ok s" "body \<in> H" "H \<subseteq> dom (heap_of s)"
    and "heap_of s body = Some (body_bytes (So_unload h) @ rest)" "stocked (needs (So_unload h)) s"
    and "allowed (So_unload h) (view_of H s)"
  shows "\<exists>rb v'. exec (So_unload h) (view_of H s) rb v' \<and> answers H s (handle_so_unload body s) rb v'"
proof -
  obtain msg len mbs s1 t where ready: "resp_ready H s 4 msg len mbs t"
    and run: "RESP_BUILDER_INIT 4 s = ((msg, len), s1)" "RESP_SET_HEAD (msg, len) s1 = Inr t"
    and t: "mem_ok t" "heap_of t body = Some (body_bytes (So_unload h) @ rest)"
    using assms by (auto intro: handler_start [of 4 "[]" s H body])
  have more: "mem.more t = mem.more s" using ready by (simp add: resp_ready_def)
  note m = more_node [OF more]
  from assms(6) obtain path n where lib: "dl_open s (unat h) = Some (path, n)"
    by (auto simp: view_of_def)
  let ?s3 = "t\<lparr>dl_open := (dl_open s)(unat h := if n \<le> 1 then None else Some (path, n - 1))\<rparr>"
  have "load_word 8 body t = Inr h"
    by (simp add: load_word_at0 [OF t] enc_dic_req_so_unload_def)
  moreover have "c_dlclose (unat h) t = Inr ?s3" using lib m by (simp add: c_dlclose_def)
  ultimately have step: "handle_so_unload body s =
      bindR (store (msg + 4) (enc_word 4 (0 :: u32)) ?s3) (\<lambda>s4. Inr ((msg, len), s4))"
    by (simp add: handle_so_unload_def sizeof_dic_resp_so_unload_def run resp_consts store_word_def)
  have "answers H s (handle_so_unload body s) (enc_word 4 (0 :: u32))
      ((view_of H s)\<lparr>v_files := files ?s3, v_libs := dl_open ?s3, v_threads := threads ?s3, v_spawn := thread_choices ?s3\<rparr>)"
    unfolding step using ready t by (intro answers_effect) simp_all
  moreover have "(view_of H s)\<lparr>v_files := files ?s3, v_libs := dl_open ?s3, v_threads := threads ?s3, v_spawn := thread_choices ?s3\<rparr> =
      (view_of H s)\<lparr>v_libs := (v_libs (view_of H s))(unat h := if n \<le> 1 then None else Some (path, n - 1))\<rparr>"
    using m by (simp add: view_of_def)
  moreover have "v_libs (view_of H s) (unat h) = Some (path, n)" using lib by (simp add: view_of_def)
  ultimately show ?thesis by (auto simp del: One_nat_def)
qed

lemma handle_func_load_contract:
  fixes s :: "'a node_scheme"
  assumes "mem_ok s" "body \<in> H" "H \<subseteq> dom (heap_of s)"
    and "heap_of s body = Some (body_bytes (Func_load h symbol) @ rest)"
    and "stocked (needs (Func_load h symbol)) s" "allowed (Func_load h symbol) (view_of H s)"
  shows "\<exists>rb v'. exec (Func_load h symbol) (view_of H s) rb v' \<and>
    answers H s (handle_func_load body s) rb v'"
proof -
  obtain msg len mbs s1 t where ready: "resp_ready H s 8 msg len mbs t"
    and run: "RESP_BUILDER_INIT 8 s = ((msg, len), s1)" "RESP_SET_HEAD (msg, len) s1 = Inr t"
    and t: "mem_ok t" "heap_of t body = Some (body_bytes (Func_load h symbol) @ rest)"
    using assms by (auto intro: handler_start [of 8 "[]" s H body])
  have more: "mem.more t = mem.more s" using ready by (simp add: resp_ready_def)
  note m = more_node [OF more]
  from assms(6) have ok: "h = 0 \<or> dl_open s (unat h) \<noteq> None" "0 \<notin> set symbol"
    by (auto simp: view_of_def)
  have "load_word 8 body t = Inr h"
    by (simp add: load_word_at0 [OF t] enc_dic_req_func_load_def)
  moreover have "load_str (body + 12) t = Inr symbol"
    using ok(2) by (intro load_str_block [OF t]) (simp_all add: enc_dic_req_func_load_def)
  moreover have "c_dlsym (unat h) symbol t = Inr (v_sym (view_of H s) (unat h) symbol)"
    using ok(1) m by (auto simp: c_dlsym_def view_of_def)
  ultimately have "handle_func_load body s =
      bindR (store (msg + 4) (ptr_reply (v_sym (view_of H s) (unat h) symbol)) t)
        (\<lambda>s4. Inr ((msg, len), s4))"
    by (simp add: handle_func_load_def sizeof_dic_resp_func_load_def run resp_consts store_word_def
        ptr_reply_def)
  then show ?thesis
    using answers_unchanged [of H s "ptr_reply (v_sym (view_of H s) (unat h) symbol)" msg len mbs t t]
      ready t(1) by (auto simp: ptr_reply_def)
qed

lemma handle_run_contract:
  fixes s :: "'a node_scheme"
  assumes "mem_ok s" "body \<in> H" "H \<subseteq> dom (heap_of s)"
    and "heap_of s body = Some (body_bytes (Run f a) @ rest)" "stocked (needs (Run f a)) s"
  shows "\<exists>rb v'. exec (Run f a) (view_of H s) rb v' \<and> answers H s (handle_run body s) rb v'"
proof -
  obtain msg len mbs s1 t where ready: "resp_ready H s 8 msg len mbs t"
    and run: "RESP_BUILDER_INIT 8 s = ((msg, len), s1)" "RESP_SET_HEAD (msg, len) s1 = Inr t"
    and t: "mem_ok t" "heap_of t body = Some (body_bytes (Run f a) @ rest)"
    using assms by (auto intro: handler_start [of 8 "[]" s H body])
  have more: "mem.more t = mem.more s" using ready by (simp add: resp_ready_def)
  note m = more_node [OF more]
  obtain tid s3 where cr: "c_pthread_create (unat f) (unat a) t = (tid, s3)" by (cases "c_pthread_create (unat f) (unat a) t")
  then have s3: "mem_ok s3" "heap_of s3 = heap_of t" "conns s3 = conns t" "socks s3 = socks t"
      "dl_sym s3 = dl_sym t" "unwritable s3 = unwritable t" "files s3 = files s" "dl_open s3 = dl_open s"
    using t(1) m by (auto simp: c_pthread_create_def split: list.splits if_splits)
  have th: "spawn (unat f) (unat a) (view_of H s) = (tid, (view_of H s)\<lparr>v_threads := threads s3, v_spawn := thread_choices s3\<rparr>)"
    using cr m by (auto simp: spawn_def view_of_def c_pthread_create_def split: list.splits if_splits)
  have "load_word 8 body t = Inr f" "load_word 8 (body + 8) t = Inr a"
    by (simp_all add: load_word_at0 [OF t] load_word_at [OF t] enc_dic_req_run_def)
  then have step: "handle_run body s = bindR (store (msg + 4) (enc_word 8 tid) s3) (\<lambda>s4. Inr ((msg, len), s4))"
    by (simp add: handle_run_def sizeof_dic_resp_run_def run resp_consts store_word_def cr)
  have "answers H s (handle_run body s) (enc_word 8 tid)
      ((view_of H s)\<lparr>v_files := files s3, v_libs := dl_open s3, v_threads := threads s3, v_spawn := thread_choices s3\<rparr>)"
    unfolding step using ready s3 by (intro answers_effect) simp_all
  moreover have "(view_of H s)\<lparr>v_files := files s3, v_libs := dl_open s3, v_threads := threads s3, v_spawn := thread_choices s3\<rparr> =
      (view_of H s)\<lparr>v_threads := threads s3, v_spawn := thread_choices s3\<rparr>"
    using s3 by (simp add: view_of_def)
  moreover have "exec (Run f a) (view_of H s) (enc_word 8 tid) ((view_of H s)\<lparr>v_threads := threads s3, v_spawn := thread_choices s3\<rparr>)"
    using th by (simp add: view_of_def)
  ultimately show ?thesis by metis
qed

lemma handle_join_contract:
  fixes s :: "'a node_scheme"
  assumes "mem_ok s" "body \<in> H" "H \<subseteq> dom (heap_of s)"
    and "heap_of s body = Some (body_bytes (Join tid) @ rest)" "stocked (needs (Join tid)) s"
    and "allowed (Join tid) (view_of H s)"
  shows "\<exists>rb v'. exec (Join tid) (view_of H s) rb v' \<and> answers H s (handle_join user body s) rb v'"
proof -
  obtain msg len mbs s1 t where ready: "resp_ready H s 8 msg len mbs t"
    and run: "RESP_BUILDER_INIT 8 s = ((msg, len), s1)" "RESP_SET_HEAD (msg, len) s1 = Inr t"
    and t: "mem_ok t" "heap_of t body = Some (body_bytes (Join tid) @ rest)"
    using assms by (auto intro: handler_start [of 8 "[]" s H body])
  have more: "mem.more t = mem.more s" using ready by (simp add: resp_ready_def)
  note m = more_node [OF more]
  from assms(6) obtain ret where ret: "threads s tid = Some (Finished ret)" by (auto simp: view_of_def)
  let ?s3 = "t\<lparr>threads := (threads s)(tid := None)\<rparr>"
  have "load_word 8 body t = Inr tid"
    by (simp add: load_word_at0 [OF t] enc_dic_req_join_def)
  moreover have "c_pthread_join user tid t = Inr (ret, ?s3)" using ret m by (simp add: c_pthread_join_def)
  ultimately have step: "handle_join user body s =
      bindR (store (msg + 4) (ptr_reply ret) ?s3) (\<lambda>s4. Inr ((msg, len), s4))"
    by (simp add: handle_join_def sizeof_dic_resp_join_def run resp_consts store_word_def ptr_reply_def)
  have "answers H s (handle_join user body s) (ptr_reply ret)
      ((view_of H s)\<lparr>v_files := files ?s3, v_libs := dl_open ?s3, v_threads := threads ?s3, v_spawn := thread_choices ?s3\<rparr>)"
    unfolding step using ready t by (intro answers_effect) (simp_all add: ptr_reply_def)
  moreover have "(view_of H s)\<lparr>v_files := files ?s3, v_libs := dl_open ?s3, v_threads := threads ?s3, v_spawn := thread_choices ?s3\<rparr> =
      (view_of H s)\<lparr>v_threads := (v_threads (view_of H s))(tid := None)\<rparr>"
    using m by (simp add: view_of_def)
  moreover have "v_threads (view_of H s) tid = Some (Finished ret)" using ret by (simp add: view_of_def)
  ultimately show ?thesis by auto
qed

text \<open>The two handlers that build a path.\<close>

lemma length_so_path_prefix: "length so_path_prefix = 13"
  by (simp add: so_path_prefix_def bytes_of_def)

lemma length_so_path_of: "length (so_path_of name) = 16 + length name"
  by (simp add: so_path_of_def so_path_prefix_def bytes_of_def)

lemma so_path_of_no_null: "0 \<notin> set name \<Longrightarrow> 0 \<notin> set (so_path_of name)"
  by (simp add: so_path_of_def so_path_prefix_def bytes_of_def)

text \<open>A fresh buffer that receives a path with its null byte: the path can be read back.\<close>

definition with_path :: "nat \<times> byte list \<Rightarrow> byte list \<Rightarrow> 'a mem_scheme \<Rightarrow> 'a mem_scheme" where
  "with_path c path t = set_block (fst c) (patch (snd c) 0 (path @ [0])) (add_block c t)"

lemma with_path_facts:
  assumes c: "grants (length path + 1) c t" and ok: "mem_ok t"
  shows "store (fst c) (path @ [0]) (add_block c t) = Inr (with_path c path t)"
    and "mem_ok (with_path c path t)" "mem.more (with_path c path t) = mem.more t"
    and "heap_of (with_path c path t) = (heap_of t)(fst c \<mapsto> patch (snd c) 0 (path @ [0]))"
    and "0 \<notin> set path \<Longrightarrow> load_str (fst c) (with_path c path t) = Inr path"
proof -
  let ?m = "add_block c t" and ?v = "path @ [0]"
  have m: "mem_ok ?m" "heap_of ?m (fst c) = Some (snd c)" "length ?v \<le> length (snd c)"
    using grants_mem_ok [OF c ok] grants_length [OF c] by simp_all
  show "store (fst c) ?v ?m = Inr (with_path c path t)"
    unfolding with_path_def using m by (rule store_in_block0)
  show ok': "mem_ok (with_path c path t)"
    unfolding with_path_def by (rule set_block_mem_ok [OF m(1,2)]) (simp add: length_patch m(3) [simplified])
  show "mem.more (with_path c path t) = mem.more t" by (simp add: with_path_def)
  show h: "heap_of (with_path c path t) = (heap_of t)(fst c \<mapsto> patch (snd c) 0 ?v)"
    by (auto simp: with_path_def)
  assume "0 \<notin> set path"
  then show "load_str (fst c) (with_path c path t) = Inr path"
    using h m(3) by (intro load_str_block0 [OF ok']) (auto simp: patch_def)
qed

lemma c_dlopen_cases:
  fixes s :: "'a node_scheme"
  assumes "c_dlopen path s = (h, s')"
  shows "heap_of s' = heap_of s" "mem_ok s' = mem_ok s" "blocks s' = blocks s"
    and "conns s' = conns s" "socks s' = socks s"
    "dl_sym s' = dl_sym s" "unwritable s' = unwritable s" "files s' = files s" "threads s' = threads s" "thread_choices s' = thread_choices s"
    and "h = 0 \<and> dl_open s' = dl_open s \<or>
      0 < h \<and> files s path \<noteq> None \<and> (\<exists>n. dl_open s' = (dl_open s)(h \<mapsto> (path, n)) \<and>
        (dl_open s h = None \<and> n = 1 \<or> dl_open s h = Some (path, n - 1) \<and> 0 < n))"
  using assms
  by (auto simp: c_dlopen_def split: if_splits list.splits option.splits)
    (drule spec, erule impE, rule refl, simp)+

lemma handle_so_load_contract:
  fixes s :: "'a node_scheme"
  assumes "mem_ok s" "body \<in> H" "H \<subseteq> dom (heap_of s)"
    and "heap_of s body = Some (body_bytes (So_load name) @ rest)" "stocked (needs (So_load name)) s"
    and "allowed (So_load name) (view_of H s)"
  shows "\<exists>rb v'. exec (So_load name) (view_of H s) rb v' \<and> answers H s (handle_so_load body s) rb v'"
proof -
  let ?path = "so_path_of name"
  obtain msg len mbs s1 t where ready: "resp_ready H s 8 msg len mbs t"
    and st: "stocked [17 + length name] t"
    and run: "RESP_BUILDER_INIT 8 s = ((msg, len), s1)" "RESP_SET_HEAD (msg, len) s1 = Inr t"
    and t: "mem_ok t" "heap_of t body = Some (body_bytes (So_load name) @ rest)"
    using assms by (auto intro: handler_start [of 8 "[17 + length name]" s H body])
  have more: "mem.more t = mem.more s" using ready by (simp add: resp_ready_def)
  from assms(6) have ok: "0 \<notin> set name" "length name < 2 ^ 30" by auto
  from st obtain c where c: "grants (length ?path + 1) c t"
    by (auto elim!: stocked_Cons simp: length_so_path_of)
  let ?t2 = "with_path c ?path t"
  note w = with_path_facts [OF c t(1)]
  have fresh: "heap_of t (fst c) = None" using grants_fresh [OF c t(1)] .
  have n: "unat (word_of_nat (length name + 1) :: u32) = length name + 1"
    using ok by (subst unat_of_nat) simp
  have "load_word 4 body t = Inr (word_of_nat (length name + 1) :: u32)"
    by (simp add: load_word_at0 [OF t] enc_dic_req_so_load_def)
  moreover have "c_malloc (length so_path_prefix + 1 + unat (word_of_nat (length name + 1) :: u32)) t =
      (fst c, add_block c t)"
    unfolding n using c
    by (intro c_malloc_grants) (auto intro: grants_less simp: length_so_path_of length_so_path_prefix)
  moreover have "load_str (body + 4) (add_block c t) = Inr name"
    using t fresh ok grants_mem_ok [OF c t(1)]
    by (intro load_str_block [where bs = "body_bytes (So_load name) @ rest"])
      (auto simp: enc_dic_req_so_load_def)
  moreover obtain h s5 where dl: "c_dlopen ?path ?t2 = (h, s5)" by (cases "c_dlopen ?path ?t2")
  note d = c_dlopen_cases [OF dl]
  let ?s6 = "del_block (fst c) s5"
  have s5: "heap_of s5 (fst c) = Some (patch (snd c) 0 (?path @ [0]))" "mem_ok s5"
    using d(1,2) w(2,4) by auto
  then have "c_free (fst c) s5 = Inr ?s6" by (intro c_free_block)
  ultimately have step: "handle_so_load body s =
      bindR (store (msg + 4) (ptr_reply h) ?s6) (\<lambda>s4. Inr ((msg, len), s4))"
    using w(1,5) so_path_of_no_null [OF ok(1)] dl
    by (simp add: handle_so_load_def sizeof_dic_resp_so_load_def run resp_consts store_word_def
        ptr_reply_def)
  have more2: "mem.more ?t2 = mem.more s" using w(3) more by simp
  note m2 = more_node [OF more2] and m = more_node [OF more]
  note m6 = more_node [OF more_blocks(2) [of "fst c" s5]]
  have h6: "heap_of ?s6 = heap_of t" using d(1) w(4) fresh by auto
  have "answers H s (handle_so_load body s) (ptr_reply h)
      ((view_of H s)\<lparr>v_files := files ?s6, v_libs := dl_open ?s6, v_threads := threads ?s6, v_spawn := thread_choices ?s6\<rparr>)"
    unfolding step using ready s5 h6 d m m2 m6
    by (intro answers_effect [of H s "ptr_reply h" msg len mbs t]) (simp_all add: ptr_reply_def)
  moreover have "(view_of H s)\<lparr>v_files := files ?s6, v_libs := dl_open ?s6, v_threads := threads ?s6, v_spawn := thread_choices ?s6\<rparr> =
      (view_of H s)\<lparr>v_libs := dl_open s5\<rparr>"
    using d m2 m6 by (simp add: view_of_def)
  moreover have "exec (So_load name) (view_of H s) (ptr_reply h) ((view_of H s)\<lparr>v_libs := dl_open s5\<rparr>)"
    using d(11) m2 by (auto simp: view_of_def)
  ultimately show ?thesis by metis
qed

lemma so_upload_runs:
  fixes s t :: "'a node_scheme"
  assumes t: "mem_ok t" "heap_of t body = Some (body_bytes (So_upload name bs) @ rest)"
    and c: "grants (length (so_path_of name) + 1) c t"
    and ok: "0 \<notin> set name" "length name < 2 ^ 29" "length bs < 2 ^ 29" "\<not> unwritable t (so_path_of name)"
    and run: "RESP_BUILDER_INIT 4 s = ((msg, len), s1)" "RESP_SET_HEAD (msg, len) s1 = Inr t"
  shows "handle_so_upload body s = Inr ((msg, len), (with_path c (so_path_of name) t)\<lparr>files := (files t)(so_path_of name \<mapsto> bs)\<rparr>)"
proof -
  let ?path = "so_path_of name"
  let ?t2 = "with_path c ?path t"
  note w = with_path_facts [OF c t(1)]
  note m2 = more_node [OF w(3)]
  have b2: "heap_of ?t2 body = Some (body_bytes (So_upload name bs) @ rest)"
    using t(2) grants_fresh [OF c t(1)] w(4) by auto
  have u: "unat (word_of_nat (length name) :: u32) = length name"
    "unat (word_of_nat (length bs) :: u64) = length bs"
    using ok by (subst unat_of_nat; simp)+
  have "load_str (body + 12) t = Inr name"
    using ok by (intro load_str_block [OF t]) (simp_all add: enc_dic_req_so_upload_def)
  moreover have "c_asprintf ?path t = Inr (fst c, ?t2)"
    using w(1) grants_pos [OF c] c_malloc_grants [OF c] by (simp add: c_asprintf_def)
  moreover have "load_word 4 (body + 8) ?t2 = Inr (word_of_nat (length name) :: u32)"
    "load_word 8 body ?t2 = Inr (word_of_nat (length bs) :: u64)"
    by (simp_all add: load_word_at0 [OF w(2) b2] load_word_at [OF w(2) b2] enc_dic_req_so_upload_def)
  moreover have "load (body + (13 + length name)) (length bs) ?t2 = Inr bs"
    by (simp add: load_block [OF w(2) b2] enc_dic_req_so_upload_def)
  then have "load (body + 12 + length name + 1) (length bs) ?t2 = Inr bs" by (simp add: ac_simps)
  ultimately show ?thesis
    using w(5) so_path_of_no_null [OF ok(1)] ok(4) m2 u
    by (simp add: handle_so_upload_def sizeof_dic_resp_so_upload_def run)
qed

lemma handle_so_upload_contract:
  fixes s :: "'a node_scheme"
  assumes "mem_ok s" "body \<in> H" "H \<subseteq> dom (heap_of s)"
    and "heap_of s body = Some (body_bytes (So_upload name bs) @ rest)"
    and "stocked (needs (So_upload name bs)) s" "allowed (So_upload name bs) (view_of H s)"
  shows "\<exists>rb v'. exec (So_upload name bs) (view_of H s) rb v' \<and>
    answers H s (handle_so_upload body s) rb v'"
proof -
  let ?path = "so_path_of name" and ?v = "view_of H s"
  obtain msg len mbs s1 t where ready: "resp_ready H s 4 msg len mbs t"
    and st: "stocked [length ?path + 1] t"
    and run: "RESP_BUILDER_INIT 4 s = ((msg, len), s1)" "RESP_SET_HEAD (msg, len) s1 = Inr t"
    and t: "mem_ok t" "heap_of t body = Some (body_bytes (So_upload name bs) @ rest)"
    using assms by (auto intro: handler_start [of 4 "[length ?path + 1]" s H body])
  have more: "mem.more t = mem.more s" using ready by (simp add: resp_ready_def)
  note m = more_node [OF more]
  from assms(6) have ok: "0 \<notin> set name" "length name < 2 ^ 29" "length bs < 2 ^ 29"
    "\<not> unwritable t ?path" using m by (auto simp: view_of_def)
  from st obtain c where c: "grants (length ?path + 1) c t" by (auto elim!: stocked_Cons)
  let ?s3 = "(with_path c ?path t)\<lparr>files := (files t)(?path \<mapsto> bs)\<rparr>"
  let ?rb = "take 4 (drop 4 mbs)" and ?qs = "patch (snd c) 0 (?path @ [0])"
  note step = so_upload_runs [OF t c ok run]
  note w = with_path_facts [OF c t(1)] and fresh = grants_fresh [OF c t(1)]
  note m2 = more_node [OF w(3)]
  have f: "fst c \<noteq> msg" "fst c \<notin> H" "heap_of s (fst c) = None"
    using fresh ready assms(3) by (auto simp: resp_ready_def split: if_splits)
  have h3: "heap_of ?s3 = (heap_of s)(msg \<mapsto> mbs, fst c \<mapsto> ?qs)"
    using w(4) ready by (simp add: resp_ready_def)
  have v3: "view_of (insert msg H) ?s3 =
      ?v\<lparr>v_heap := (v_heap ?v)(fst c \<mapsto> ?qs), v_files := (v_files ?v)(?path \<mapsto> bs)\<rparr>"
    using f ready m m2 h3 by (auto simp: view_of_def restrict_map_def resp_ready_def)
  have "take 8 mbs = take 4 mbs @ ?rb" by (simp add: take_add [of 4 4 mbs, simplified])
  then have frame: "take 8 mbs = reply_bytes ?rb" "length ?rb = 4"
    using ready by (auto simp: resp_ready_def reply_bytes_def)
  have "answers H s (handle_so_upload body s) ?rb (view_of (insert msg H) ?s3)"
    unfolding answers_def step using ready w(2) h3 f frame m m2
    by (intro exI [of _ msg] exI [of _ len] exI [of _ ?s3] exI [of _ mbs]) (auto simp: resp_ready_def)
  moreover have "new_object ?v (length ?path + 1) (fst c) ?qs"
    using f grants_pos [OF c] grants_limit [OF c] grants_length [OF c]
    by (auto simp: new_object_def view_of_def restrict_map_def)
  ultimately show ?thesis using v3 frame(2) unfolding exec.simps by metis
qed

section \<open>Serving one request\<close>

text \<open>The parts of the state that the memory and the connections do not touch.\<close>

definition os_state :: "'a node_scheme \<Rightarrow> _" where
  "os_state s = (files s, unwritable s, dl_open s, dl_sym s, threads s, thread_choices s)"

lemma os_state_kept [simp]:
  fixes s :: "'a node_scheme"
  shows "os_state (set_block a v s) = os_state s" "os_state (add_block b s) = os_state s"
    "os_state (del_block a s) = os_state s" "os_state (set_in fd cs s) = os_state s"
    "os_state (s\<lparr>socks := ks\<rparr>) = os_state s"
  by (simp_all add: os_state_def set_block_def add_block_def del_block_def set_in_def)

lemma view_of_cong:
  fixes s t :: "'a node_scheme"
  assumes "os_state t = os_state s" "heap_of t |` (- G) = heap_of s |` (- H)"
  shows "view_of G t = view_of H s"
  using assms by (simp add: view_of_def os_state_def)

lemma os_state_more:
  fixes s t :: "'a node_scheme"
  assumes "net.more t = net.more s"
  shows "os_state t = os_state s"
  using assms by (cases s; cases t) (simp add: os_state_def)

text \<open>Sending the answer and releasing the buffers.\<close>

lemma reply_and_release:
  fixes s :: "'a node_scheme"
  assumes "answers (insert head (insert body H)) s out rb v'" "connected p c k s" "\<not> sk_reset k"
    and hb: "head \<notin> H" "body \<notin> H" "head \<noteq> body" "heap_of s body = Some bb" "heap_of s head = Some hb"
  shows "\<exists>s'. bindR out (\<lambda>(msg, s4).
      bindR (if fst msg \<noteq> 0 then dic_conn_send p (fst msg) (snd msg) s4 else Inr (0, s4)) (\<lambda>(_, s5).
      bindR (c_free body s5) (\<lambda>s6. bindR (c_free (fst msg) s6) (\<lambda>s7. Inr (0 :: int, del_block head s7))))) =
        Inr (0, s') \<and> view_of H s' = v' \<and> mem_ok s' \<and> (\<forall>a \<in> H. heap_of s' a = heap_of s a) \<and>
      conns s' = conns s \<and> socks s' = (socks s)(sockfd c \<mapsto> k\<lparr>sk_out := sk_out k @ reply_bytes rb\<rparr>)"
proof -
  from assms(1) obtain msg len s4 mbs where out: "out = Inr ((msg, len), s4)"
    and s4: "mem_ok s4" "conns s4 = conns s" "socks s4 = socks s" "heap_of s4 msg = Some mbs"
      "\<forall>a \<in> insert head (insert body H). heap_of s4 a = heap_of s a"
    and msg: "0 < msg" "msg \<notin> insert head (insert body H)" "unat len < 2 ^ 31" "unat len \<le> length mbs"
      "take (unat len) mbs = reply_bytes rb"
    and v: "view_of (insert msg (insert head (insert body H))) s4 = v'"
    by (auto simp: answers_def)
  let ?s5 = "s4\<lparr>socks := (socks s)(sockfd c \<mapsto> k\<lparr>sk_out := sk_out k @ reply_bytes rb\<rparr>)\<rparr>"
  let ?s' = "del_block head (del_block msg (del_block body ?s5))"
  have sz: "size_of_int len = unat len" using msg(3) by (rule size_of_int_small)
  have "len \<noteq> SEND_STR" using msg(3) by (auto simp: SEND_STR_def c_minus1_def unsigned_minus_1_eq_mask mask_eq_exp_minus_1)
  moreover have "load msg (unat len) s4 = Inr (reply_bytes rb)"
    using load_block0 [OF s4(1,4) msg(4)] msg(5) by simp
  moreover have "connected p c k s4" using assms(2) s4 by (simp add: connected_def)
  ultimately have send: "dic_conn_send p msg len s4 = Inr (0, ?s5)"
    using dic_conn_send_spec [of p c k s4 len msg "reply_bytes rb"] assms(3) msg(1) sz s4(3) by simp
  have h5: "heap_of ?s5 = heap_of s4" "mem_ok ?s5" using s4(1) by (simp_all add: heap_of_def mem_ok_def)
  have "c_free body ?s5 = Inr (del_block body ?s5)"
    using h5 s4(5) hb by (intro c_free_block) auto
  moreover have "c_free msg (del_block body ?s5) = Inr (del_block msg (del_block body ?s5))"
    using h5 s4(4) msg(2) by (intro c_free_block) auto
  ultimately have run: "bindR out (\<lambda>(msg, s4).
      bindR (if fst msg \<noteq> 0 then dic_conn_send p (fst msg) (snd msg) s4 else Inr (0, s4)) (\<lambda>(_, s5).
      bindR (c_free body s5) (\<lambda>s6. bindR (c_free (fst msg) s6) (\<lambda>s7. Inr (0 :: int, del_block head s7))))) =
        Inr (0, ?s')"
    using out send msg(1) by simp
  have "view_of H ?s' = view_of (insert msg (insert head (insert body H))) s4"
    using h5 by (intro view_of_cong) (auto simp: restrict_map_def)
  moreover have "\<forall>a \<in> H. heap_of ?s' a = heap_of s a" using h5 s4(5) msg(2) hb by auto
  moreover have "conns ?s' = conns s" "socks ?s' = socks ?s5" using s4 by (simp_all add: del_block_def)
  ultimately show ?thesis using run v h5(2) by (intro exI [of _ ?s']) simp
qed

text \<open>
  When a node serves a request: the connection is open and its stream starts with the bytes of the
  request (in any chunks), memory can be had for the buffers, and the request is one the caller may
  make. The objects at \<open>H\<close> are not the clients'; statements about requests that write or free
  memory ask that the connection is one of them.
\<close>

definition serving ::
  "nat set \<Rightarrow> nat \<Rightarrow> dic_conn \<Rightarrow> sock \<Rightarrow> request \<Rightarrow> byte list \<Rightarrow> 'a node_scheme \<Rightarrow> bool" where
  "serving H conn c k r rest s \<longleftrightarrow>
     connected conn c k s \<and> \<not> sk_reset k \<and> concat (sk_in k) = request_bytes r @ rest \<and>
     mem_ok s \<and> H \<subseteq> dom (heap_of s) \<and> stocked (8 # length (body_bytes r) # needs r) s \<and>
     allowed r (view_of H s)"

text \<open>What the call then does: it returns 0 after exactly one reply, takes exactly the request from
  the stream, changes the visible state as the specification says, and leaves no buffer behind.\<close>

definition served ::
  "nat set \<Rightarrow> dic_conn \<Rightarrow> sock \<Rightarrow> request \<Rightarrow> byte list \<Rightarrow> 'a node_scheme \<Rightarrow>
    (int \<times> 'a node_scheme) res \<Rightarrow> bool" where
  "served H c k r rest s out \<longleftrightarrow>
     (\<exists>s' rb ks. out = Inr (0, s') \<and> exec r (view_of H s) rb (view_of H s') \<and> mem_ok s' \<and>
        (\<forall>a \<in> H. heap_of s' a = heap_of s a) \<and> conns s' = conns s \<and> concat ks = rest \<and>
        [] \<notin> set ks \<and>
        socks s' = (socks s)(sockfd c \<mapsto> k\<lparr>sk_in := ks, sk_out := sk_out k @ reply_bytes rb\<rparr>))"

lemma body_size_bound:
  assumes "allowed r v"
  shows "0 < length (body_bytes r)" "length (body_bytes r) < 2 ^ 31"
  using assms by (cases r; simp add: layout_lengths)+

lemma request_head:
  assumes "n < 2 ^ 31" "mem_ok s" "heap_of s head = Some (patch hb 0 (head_bytes opc n))"
    and "8 \<le> length hb"
  shows "load_word 4 (head + 4) s = Inr (word_of_nat n :: u32)"
    and "load_word 2 head s = Inr opc"
    and "unat (word_of_nat n :: u32) = n"
    and "size_of_int (word_of_nat n) = n"
proof -
  let ?h = "patch hb 0 (head_bytes opc n)"
  have h: "?h = head_bytes opc n @ drop 8 hb"
    by (simp add: patch_def head_bytes_def layout_lengths)
  have l: "length ?h = length hb" using assms(4) by (simp add: head_bytes_def layout_lengths)
  show "load_word 4 (head + 4) s = Inr (word_of_nat n :: u32)"
    using l assms(4) by (simp add: load_word_at [OF assms(2,3)])
      (simp only: h, simp add: head_bytes_def enc_dic_req_head_generic_def)
  show "load_word 2 head s = Inr opc"
    using l assms(4) by (simp add: load_word_at0 [OF assms(2,3)])
      (simp only: h, simp add: head_bytes_def enc_dic_req_head_generic_def)
  show u: "unat (word_of_nat n :: u32) = n"
    using assms(1) by (subst unat_of_nat) simp
  show "size_of_int (word_of_nat n) = n"
    using assms(1) u by (subst size_of_int_small) simp_all
qed

text \<open>A message on its way in: a head that names the operation and the length, then the body.\<close>

definition arriving ::
  "nat set \<Rightarrow> nat \<Rightarrow> dic_conn \<Rightarrow> sock \<Rightarrow> u16 \<Rightarrow> byte list \<Rightarrow> nat list \<Rightarrow> byte list \<Rightarrow> 'a node_scheme \<Rightarrow> bool" where
  "arriving H conn c k opc bdy ns rest s \<longleftrightarrow>
     connected conn c k s \<and> concat (sk_in k) = head_bytes opc (length bdy) @ bdy @ rest \<and>
     mem_ok s \<and> H \<subseteq> dom (heap_of s) \<and> stocked (8 # length bdy # ns) s \<and> length bdy < 2 ^ 31"

lemma serving_arriving:
  "serving H conn c k r rest s \<Longrightarrow>
    arriving H conn c k (op_code (request_op r)) (body_bytes r) (needs r) rest s"
  by (auto simp: serving_def arriving_def request_bytes_def dest: body_size_bound(2))

text \<open>Both parts of the request have arrived, each in its own object.\<close>

lemma request_received:
  fixes s :: "'a node_scheme"
  assumes "arriving H conn c k opc bdy ns rest s"
  obtains head hb body bb t ks where
    "connected conn c (k\<lparr>sk_in := ks\<rparr>) t" "concat ks = rest" "mem_ok t" "stocked ns t"
    "head \<notin> H" "body \<notin> H" "head \<noteq> body"
    "heap_of t = (heap_of s)(head \<mapsto> hb, body \<mapsto> bdy @ bb)"
    "heap_of s head = None" "heap_of s body = None" "os_state t = os_state s" "conns t = conns s"
    "socks t = (socks s)(sockfd c \<mapsto> k\<lparr>sk_in := ks\<rparr>)"
    "dic_node_recv_send user conn s = bindR (dispatch user opc body t) (\<lambda>(msg, s4).
      bindR (if fst msg \<noteq> 0 then dic_conn_send conn (fst msg) (snd msg) s4 else Inr (0, s4)) (\<lambda>(_, s5).
      bindR (c_free body s5) (\<lambda>s6. bindR (c_free (fst msg) s6) (\<lambda>s7. Inr (0, del_block head s7)))))"
    "choices t = drop 2 (choices s)"
proof -
  let ?hd = "head_bytes opc (length bdy)" and ?n = "length bdy"
  from assms have pre: "connected conn c k s" "concat (sk_in k) = ?hd @ bdy @ rest" "mem_ok s"
    "H \<subseteq> dom (heap_of s)" "stocked (8 # ?n # ns) s" and n: "?n < 2 ^ 31"
    by (simp_all add: arriving_def)
  from pre(5) obtain b1 where b1: "grants 8 b1 s" "stocked (?n # ns) (add_block b1 s)"
    by (rule stocked_Cons)
  have hd: "length ?hd = 8" "size_of_int 8 = 8"
    by (simp_all add: head_bytes_def layout_lengths size_of_int_small)
  from recv_into_fresh [OF pre(1,2,3) b1 hd] obtain s1 ks1 where
    r1: "dic_conn_recv conn (fst b1) 8 False (add_block b1 s) = Inr (0, s1)"
    and s1: "connected conn c (k\<lparr>sk_in := ks1\<rparr>) s1" "concat ks1 = bdy @ rest" "mem_ok s1"
      "stocked (?n # ns) s1" "heap_of s1 = (heap_of s)(fst b1 \<mapsto> patch (snd b1) 0 ?hd)"
      "conns s1 = conns s" "socks s1 = (socks s)(sockfd c \<mapsto> k\<lparr>sk_in := ks1\<rparr>)" "net.more s1 = net.more s"
    by metis
  have h1: "heap_of s1 (fst b1) = Some (patch (snd b1) 0 ?hd)" using s1(5) by simp
  note f1 = request_head [OF n s1(3) h1 grants_length [OF b1(1)]]
  from s1(4) obtain b2 where b2: "grants ?n b2 s1" "stocked (ns) (add_block b2 s1)"
    by (rule stocked_Cons)
  have "concat (sk_in (k\<lparr>sk_in := ks1\<rparr>)) = bdy @ rest" using s1(2) by simp
  from recv_into_fresh [OF s1(1) this s1(3) b2 refl f1(4), unfolded sk_in_twice] obtain t ks where
    r2: "dic_conn_recv conn (fst b2) (word_of_nat ?n) False (add_block b2 s1) = Inr (0, t)"
    and t: "connected conn c (k\<lparr>sk_in := ks\<rparr>) t" "concat ks = rest" "mem_ok t" "stocked ns t"
      "heap_of t = (heap_of s1)(fst b2 \<mapsto> patch (snd b2) 0 bdy)"
      "conns t = conns s1" "socks t = (socks s1)(sockfd c \<mapsto> k\<lparr>sk_in := ks\<rparr>)" "net.more t = net.more s1"
    by metis
  have fresh: "heap_of s (fst b1) = None" "heap_of s1 (fst b2) = None"
    using grants_fresh [OF b1(1) pre(3)] grants_fresh [OF b2(1) s1(3)] .
  then have ne: "fst b1 \<noteq> fst b2" "heap_of s (fst b2) = None" using s1(5) by (auto split: if_splits)
  have h2: "heap_of t (fst b1) = Some (patch (snd b1) 0 ?hd)" using h1 t(5) ne by simp
  note f2 = request_head [OF n t(3) h2 grants_length [OF b1(1)]]
  show ?thesis
  proof (rule that [OF t(1-4)])
    show "fst b1 \<notin> H" "fst b2 \<notin> H" using fresh ne pre(4) by auto
    show "heap_of t = (heap_of s)(fst b1 \<mapsto> patch (snd b1) 0 ?hd,
        fst b2 \<mapsto> bdy @ drop ?n (snd b2))"
      using t(5) s1(5) by (simp add: patch_def)
    show "dic_node_recv_send user conn s = bindR (dispatch user opc (fst b2) t) (\<lambda>(msg, s4).
      bindR (if fst msg \<noteq> 0 then dic_conn_send conn (fst msg) (snd msg) s4 else Inr (0, s4)) (\<lambda>(_, s5).
      bindR (c_free (fst b2) s5) (\<lambda>s6. bindR (c_free (fst msg) s6) (\<lambda>s7. Inr (0, del_block (fst b1) s7)))))"
      using c_alloca_grants [OF b1(1)] c_malloc_grants [OF b2(1)] r1 r2 f1 f2
      by (simp add: dic_node_recv_send_def sizeof_dic_req_head_generic_def)
    show "os_state t = os_state s" using s1(8) t(8) by (intro os_state_more) simp
    have "choices s1 = tl (choices s)" "choices t = tl (choices s1)"
      using received_choices [OF r1] received_choices [OF r2] by (simp_all add: add_block_def)
    then show "choices t = drop 2 (choices s)" by (simp add: drop_Suc numeral_2_eq_2)
  qed (use fresh ne s1 t in \<open>simp_all\<close>)
qed

locale node_handler =
  fixes user :: user_code
    and h :: "nat \<Rightarrow> node \<Rightarrow> (msg_builder_ret \<times> node) res"
    and mine :: "request \<Rightarrow> bool"
  assumes selected: "mine r \<Longrightarrow> dispatch user (op_code (request_op r)) body s = h body s"
    and correct: "mine r \<Longrightarrow> mem_ok s \<Longrightarrow> body \<in> H \<Longrightarrow> H \<subseteq> dom (heap_of s) \<Longrightarrow>
      heap_of s body = Some (body_bytes r @ rest) \<Longrightarrow>
      stocked (needs r) s \<Longrightarrow> allowed r (view_of H s) \<Longrightarrow>
      \<exists>rb v'. exec r (view_of H s) rb v' \<and> answers H s (h body s) rb v'"
begin

lemma serves:
  fixes s :: node
  assumes "mine r" "serving H conn c k r rest s"
  shows "served H c k r rest s (dic_node_recv_send user conn s)"
proof -
  obtain head hb body bb t ks where
    t: "connected conn c (k\<lparr>sk_in := ks\<rparr>) t" "concat ks = rest" "mem_ok t" "stocked (needs r) t"
      "head \<notin> H" "body \<notin> H" "head \<noteq> body"
      "heap_of t = (heap_of s)(head \<mapsto> hb, body \<mapsto> body_bytes r @ bb)"
      "heap_of s head = None" "heap_of s body = None" "os_state t = os_state s" "conns t = conns s"
      "socks t = (socks s)(sockfd c \<mapsto> k\<lparr>sk_in := ks\<rparr>)"
    and run: "dic_node_recv_send user conn s = bindR (dispatch user (op_code (request_op r)) body t) (\<lambda>(msg, s4).
      bindR (if fst msg \<noteq> 0 then dic_conn_send conn (fst msg) (snd msg) s4 else Inr (0, s4)) (\<lambda>(_, s5).
      bindR (c_free body s5) (\<lambda>s6. bindR (c_free (fst msg) s6) (\<lambda>s7. Inr (0, del_block head s7)))))"
      "choices t = drop 2 (choices s)"
    by (rule request_received [OF serving_arriving [OF assms(2)], where user = user])
  let ?H = "insert head (insert body H)"
  have v: "view_of ?H t = view_of H s"
    using t(8-11) by (intro view_of_cong) (auto simp: restrict_map_def fun_eq_iff)
  have pre: "\<not> sk_reset k" "H \<subseteq> dom (heap_of s)" "allowed r (view_of H s)"
    using assms(2) by (simp_all add: serving_def)
  have "heap_of t body = Some (body_bytes r @ bb)" "?H \<subseteq> dom (heap_of t)" using t(8) pre(2) by auto
  from correct [OF assms(1) t(3) _ this(2,1) t(4)] pre(3) v
  obtain rb v' where ex: "exec r (view_of H s) rb v'" and ans: "answers ?H t (h body t) rb v'" by auto
  have "heap_of t body = Some (body_bytes r @ bb)" "heap_of t head = Some hb" using t(7,8) by auto
  from reply_and_release [OF ans t(1) _ t(5-7) this] pre(1) run [unfolded selected [OF assms(1)]]
  obtain s' where s': "dic_node_recv_send user conn s = Inr (0, s')" "view_of H s' = v'" "mem_ok s'"
    "\<forall>a \<in> H. heap_of s' a = heap_of t a" "conns s' = conns t"
    "socks s' = (socks t)(sockfd c \<mapsto> k\<lparr>sk_in := ks, sk_out := sk_out k @ reply_bytes rb\<rparr>)"
    by auto
  moreover have "\<forall>a \<in> H. heap_of s' a = heap_of s a" using s'(4) t(5,6,8) by auto
  ultimately show ?thesis
    unfolding served_def using ex t by (auto simp: connected_def intro!: exI [of _ rb] exI [of _ ks])
qed

end

section \<open>Every handler is one\<close>

interpretation malloc_handler: node_handler user handle_malloc "\<lambda>r. \<exists>n. r = Malloc n" for user
proof unfold_locales
qed (auto simp: dispatch_def simp del: exec.simps allowed.simps body_bytes.simps needs.simps
    intro: handle_malloc_contract)

interpretation realloc_handler: node_handler user handle_realloc "\<lambda>r. \<exists>p n. r = Realloc p n" for user
proof unfold_locales
qed (auto simp: dispatch_def simp del: exec.simps allowed.simps body_bytes.simps needs.simps
    intro: handle_realloc_contract)

interpretation free_handler: node_handler user handle_free "\<lambda>r. \<exists>p. r = Free p" for user
proof unfold_locales
qed (auto simp: dispatch_def simp del: exec.simps allowed.simps body_bytes.simps needs.simps
    intro: handle_free_contract)

interpretation memcpy_c2n_handler: node_handler user handle_memcpy_c2n "\<lambda>r. \<exists>d bs. r = Memcpy_c2n d bs" for user
proof unfold_locales
qed (auto simp: dispatch_def simp del: exec.simps allowed.simps body_bytes.simps needs.simps
    intro: handle_memcpy_c2n_contract)

interpretation memcpy_n2c_handler: node_handler user handle_memcpy_n2c "\<lambda>r. \<exists>q n. r = Memcpy_n2c q n" for user
proof unfold_locales
qed (auto simp: dispatch_def simp del: exec.simps allowed.simps body_bytes.simps needs.simps
    intro: handle_memcpy_n2c_contract)

interpretation so_load_handler: node_handler user handle_so_load "\<lambda>r. \<exists>name. r = So_load name" for user
proof unfold_locales
qed (auto simp: dispatch_def simp del: exec.simps allowed.simps body_bytes.simps needs.simps
    intro: handle_so_load_contract)

interpretation so_unload_handler: node_handler user handle_so_unload "\<lambda>r. \<exists>l. r = So_unload l" for user
proof unfold_locales
qed (auto simp: dispatch_def simp del: exec.simps allowed.simps body_bytes.simps needs.simps
    intro: handle_so_unload_contract)

interpretation so_upload_handler: node_handler user handle_so_upload "\<lambda>r. \<exists>name bs. r = So_upload name bs" for user
proof unfold_locales
qed (auto simp: dispatch_def simp del: exec.simps allowed.simps body_bytes.simps needs.simps
    intro: handle_so_upload_contract)

interpretation func_load_handler: node_handler user handle_func_load "\<lambda>r. \<exists>l symbol. r = Func_load l symbol" for user
proof unfold_locales
qed (auto simp: dispatch_def simp del: exec.simps allowed.simps body_bytes.simps needs.simps
    intro: handle_func_load_contract)

interpretation run_handler: node_handler user handle_run "\<lambda>r. \<exists>f a. r = Run f a" for user
proof unfold_locales
qed (auto simp: dispatch_def simp del: exec.simps allowed.simps body_bytes.simps needs.simps
    intro: handle_run_contract)

interpretation join_handler: node_handler user "handle_join user" "\<lambda>r. \<exists>t. r = Join t" for user
proof unfold_locales
qed (auto simp: dispatch_def simp del: exec.simps allowed.simps body_bytes.simps needs.simps
    intro: handle_join_contract)

text \<open>The node serves every request.\<close>

theorem node_serves:
  fixes s :: node
  assumes "serving H conn c k r rest s"
  shows "served H c k r rest s (dic_node_recv_send user conn s)"
proof (cases r)
  case (Malloc n)
  with assms show ?thesis by (intro malloc_handler.serves) auto
next
  case (Realloc p n)
  with assms show ?thesis by (intro realloc_handler.serves) auto
next
  case (Free p)
  with assms show ?thesis by (intro free_handler.serves) auto
next
  case (Memcpy_c2n d bs)
  with assms show ?thesis by (intro memcpy_c2n_handler.serves) auto
next
  case (Memcpy_n2c q n)
  with assms show ?thesis by (intro memcpy_n2c_handler.serves) auto
next
  case (So_load name)
  with assms show ?thesis by (intro so_load_handler.serves) auto
next
  case (So_unload l)
  with assms show ?thesis by (intro so_unload_handler.serves) auto
next
  case (So_upload name bs)
  with assms show ?thesis by (intro so_upload_handler.serves) auto
next
  case (Func_load l symbol)
  with assms show ?thesis by (intro func_load_handler.serves) auto
next
  case (Run f a)
  with assms show ?thesis by (intro run_handler.serves) auto
next
  case (Join t)
  with assms show ?thesis by (intro join_handler.serves) auto
qed

end
