(* ===== verification/Node_Loop.thy ===== *)
theory Node_Loop
  imports Node_Correct Sockets_Correct
begin

text \<open>
  The life of a node, \<open>node/src/main.c\<close>: the loop that serves one client until its stream ends, the
  loop that accepts clients, and the start of the server; with the branches of \<open>dic_node_recv_send\<close>
  that theory Node_Correct leaves out (a stream that ends early, an operation the \<open>switch\<close> does not
  list). The loops are partial functions in the option type, so that running forever would be the
  value \<open>None\<close>; the loop over a client's requests is shown to end.
\<close>

section \<open>The loops\<close>

partial_function (option) client_handling_loop ::
  "user_code \<Rightarrow> nat \<Rightarrow> node \<Rightarrow> (int \<times> node) res option" where
  "client_handling_loop user conn s =
     (case dic_node_recv_send user conn s of
        Inl e \<Rightarrow> Some (Inl e)
      | Inr (res, s') \<Rightarrow>
          (if res = 0 then client_handling_loop user conn s' else Some (Inr (res, s'))))"

partial_function (option) listen_loop :: "user_code \<Rightarrow> nat \<Rightarrow> node \<Rightarrow> node res option" where
  "listen_loop user listen_conn s =
     (case dic_conn_accept listen_conn s of
        Inl e \<Rightarrow> Some (Inl e)
      | Inr (client_conn, s1) \<Rightarrow>
          Option.bind (client_handling_loop user client_conn s1) (\<lambda>out.
            case out of
              Inl e \<Rightarrow> Some (Inl e)
            | Inr (res, s2) \<Rightarrow>
                (case dic_conn_destroy client_conn s2 of
                   Inl e \<Rightarrow> Some (Inl e)
                 | Inr s3 \<Rightarrow> listen_loop user listen_conn s3)))"

definition start_server :: "user_code \<Rightarrow> c_int \<Rightarrow> node \<Rightarrow> (int \<times> node) res option" where
  "start_server user prt s =
     (case dic_conn_new_listening prt s of
        Inl e \<Rightarrow> Some (Inl e)
      | Inr (listen_conn, s1) \<Rightarrow>
          (case listen_loop user listen_conn s1 of
             None \<Rightarrow> None
           | Some (Inl e) \<Rightarrow> Some (Inl e)
           | Some (Inr s2) \<Rightarrow>
               (case dic_conn_destroy listen_conn s2 of
                  Inl e \<Rightarrow> Some (Inl e)
                | Inr s3 \<Rightarrow> Some (Inr (0, s3)))))"

section \<open>What the handlers leave alone\<close>

text \<open>Whatever a request holds, its handler does not touch connections or sockets.\<close>

lemma memory_calls_keep_rest:
  "c_malloc n s = (p, s') \<Longrightarrow> mem.more s' = mem.more s"
  "store a v s = Inr s' \<Longrightarrow> mem.more s' = mem.more s"
  "store_word w a x s = Inr s' \<Longrightarrow> mem.more s' = mem.more s"
  "c_free a s = Inr s' \<Longrightarrow> mem.more s' = mem.more s"
  "c_memcpy d a n s = Inr s' \<Longrightarrow> mem.more s' = mem.more s"
  "c_realloc a n s = Inr (p, s') \<Longrightarrow> mem.more s' = mem.more s"
  "RESP_BUILDER_INIT_DYNAMIC k dyn s = (r, s') \<Longrightarrow> mem.more s' = mem.more s"
  "RESP_BUILDER_INIT k s = (r, s') \<Longrightarrow> mem.more s' = mem.more s"
  "RESP_SET_HEAD r s = Inr s' \<Longrightarrow> mem.more s' = mem.more s"
  "c_asprintf t s = Inr (p, s') \<Longrightarrow> mem.more s' = mem.more s"
proof -
  show m: "c_malloc n s = (p, s') \<Longrightarrow> mem.more s' = mem.more s" for n p s' and s :: "'a mem_scheme"
    using c_malloc_more [of n s] by simp
  show st: "store a v s = Inr s' \<Longrightarrow> mem.more s' = mem.more s" for a v s' and s :: "'a mem_scheme"
    by (auto simp: store_def split: if_splits option.splits)
  then show "store_word w a x s = Inr s' \<Longrightarrow> mem.more s' = mem.more s"
    "RESP_SET_HEAD r s = Inr s' \<Longrightarrow> mem.more s' = mem.more s"
    "c_memcpy d a n s = Inr s' \<Longrightarrow> mem.more s' = mem.more s"
    by (auto simp: store_word_def RESP_SET_HEAD_def c_memcpy_def res_simps)
  show "c_free a s = Inr s' \<Longrightarrow> mem.more s' = mem.more s"
    by (auto simp: c_free_def split: if_splits option.splits)
  show "c_realloc a n s = Inr (p, s') \<Longrightarrow> mem.more s' = mem.more s"
    by (auto simp: c_realloc_def split: if_splits option.splits list.splits dest: m)
  show "RESP_BUILDER_INIT_DYNAMIC k dyn s = (r, s') \<Longrightarrow> mem.more s' = mem.more s"
    "RESP_BUILDER_INIT k s = (r, s') \<Longrightarrow> mem.more s' = mem.more s"
    by (auto simp: RESP_BUILDER_INIT_def RESP_BUILDER_INIT_DYNAMIC_def Let_def split: prod.splits dest: m)
  show "c_asprintf t s = Inr (p, s') \<Longrightarrow> mem.more s' = mem.more s"
    by (auto simp: c_asprintf_def res_simps split: prod.splits if_splits dest!: m st)
qed

definition same_net :: "'a net_scheme \<Rightarrow> 'a net_scheme \<Rightarrow> bool" where
  "same_net s t \<longleftrightarrow> conns t = conns s \<and> socks t = socks s \<and> hung_up t = hung_up s"

lemma same_netI: "mem.more t = mem.more s \<Longrightarrow> same_net s t"
  using more_net [of t s] by (simp add: same_net_def)

lemma same_net_trans: "same_net s t \<Longrightarrow> same_net t u \<Longrightarrow> same_net s u"
  by (simp add: same_net_def)

lemma memory_handlers_same_net:
  fixes s :: "'a net_scheme"
  shows "handle_malloc body s = Inr (r, s') \<Longrightarrow> same_net s s'"
    and "handle_realloc body s = Inr (r, s') \<Longrightarrow> same_net s s'"
    and "handle_free body s = Inr (r, s') \<Longrightarrow> same_net s s'"
    and "handle_memcpy_c2n body s = Inr (r, s') \<Longrightarrow> same_net s s'"
    and "handle_memcpy_n2c body s = Inr (r, s') \<Longrightarrow> same_net s s'"
  by (rule same_netI; (auto simp: handle_malloc_def handle_realloc_def handle_free_def
      handle_memcpy_c2n_def handle_memcpy_n2c_def Let_def elim!: bindR_InrE
      split: prod.splits if_splits dest!: memory_calls_keep_rest))+

lemma node_calls_same_net:
  fixes s :: "'a node_scheme"
  shows "c_dlopen path s = (h, s') \<Longrightarrow> same_net s s'"
    and "c_dlclose l s = Inr s' \<Longrightarrow> same_net s s'"
    and "c_pthread_create f a s = (t, s') \<Longrightarrow> same_net s s'"
    and "c_pthread_join user t s = Inr (p, s') \<Longrightarrow> same_net s s'"
  by (auto simp: same_net_def c_dlopen_def c_dlclose_def c_pthread_create_def c_pthread_join_def
      run_thread_def split: if_splits list.splits option.splits thread.splits)

lemmas calls_same_net =
  memory_calls_keep_rest [THEN same_netI] node_calls_same_net


lemma node_handlers_same_net:
  fixes s :: "'a node_scheme"
  shows "handle_so_load body s = Inr (r, s') \<Longrightarrow> same_net s s'"
    and "handle_so_unload body s = Inr (r, s') \<Longrightarrow> same_net s s'"
    and "handle_so_upload body s = Inr (r, s') \<Longrightarrow> same_net s s'"
    and "handle_func_load body s = Inr (r, s') \<Longrightarrow> same_net s s'"
    and "handle_run body s = Inr (r, s') \<Longrightarrow> same_net s s'"
    and "handle_join user body s = Inr (r, s') \<Longrightarrow> same_net s s'"
  by (auto simp: handle_so_load_def handle_so_unload_def handle_so_upload_def
      handle_func_load_def handle_run_def handle_join_def Let_def elim!: bindR_InrE
      split: prod.splits if_splits dest!: calls_same_net simp: same_net_def)+

lemma dispatch_same_net:
  fixes s :: "'a node_scheme"
  assumes "dispatch user opc body s = Inr (r, s')"
  shows "conns s' = conns s" "socks s' = socks s" "hung_up s' = hung_up s"
proof -
  have "same_net s s'"
    using assms by (auto simp: dispatch_def same_net_def split: if_splits
        dest!: memory_handlers_same_net node_handlers_same_net)
  then show "conns s' = conns s" "socks s' = socks s" "hung_up s' = hung_up s" by (simp_all add: same_net_def)
qed

section \<open>The client loop ends\<close>

text \<open>The bytes a socket will still deliver: every pass of the loop takes at least a head of them.\<close>

definition pending :: "int \<Rightarrow> 'a net_scheme \<Rightarrow> nat" where
  "pending fd s = (case socks s fd of None \<Rightarrow> 0 | Some k \<Rightarrow> length (concat (sk_in k)))"

lemma pending_same_net: "same_net s t \<Longrightarrow> pending fd t = pending fd s"
  by (simp add: pending_def same_net_def)

lemma c_recv_pending:
  assumes "c_recv fd p n s = Inr (b, s')" "0 < b"
  shows "pending fd s' + nat b = pending fd s" "nat b \<le> n" "conns s' = conns s" "hung_up s' = hung_up s"
proof -
  from assms obtain k c cs s1 where k: "socks s fd = Some k" "sk_in k = c # cs"
    "store p (take n c) s = Inr s1" "b = int (length (take n c))"
    "s' = set_in fd (if length c \<le> n then cs else drop n c # cs) s1"
    by (auto simp: c_recv_def res_simps split: option.splits list.splits if_splits)
  from memory_calls_keep_rest(2) [OF k(3)] have "same_net s s1" by (rule same_netI)
  with k show "pending fd s' + nat b = pending fd s" "nat b \<le> n" "conns s' = conns s" "hung_up s' = hung_up s"
    by (auto simp: pending_def same_net_def set_in_def)
qed

lemma tcp_recv_loop_pending:
  "tcp_recv_loop fd buf n received s = Inr (0, s') \<Longrightarrow> received \<le> n \<Longrightarrow>
    pending fd s' + (n - received) = pending fd s \<and> conns s' = conns s \<and> hung_up s' = hung_up s"
proof (induction fd buf n received s rule: tcp_recv_loop.induct)
  case (1 fd buf n received s)
  show ?case
  proof (cases "received < n")
    case False
    with 1 show ?thesis by (simp add: tcp_recv_loop.simps [of fd buf n])
  next
    case True
    with "1.prems"(1) obtain b s1 where b: "c_recv fd (buf + received) (n - received) s = Inr (b, s1)"
      "0 < b" "tcp_recv_loop fd buf n (received + nat b) s1 = Inr (0, s')"
      by (subst (asm) tcp_recv_loop.simps) (auto simp: res_simps split: if_splits)
    note r = c_recv_pending [OF b(1,2)]
    have "pending fd s' + (n - (received + nat b)) = pending fd s1 \<and> conns s' = conns s1 \<and> hung_up s' = hung_up s1"
      using "1.IH" [OF True b(1) refl] b(2,3) r(2) True by simp
    with r True show ?thesis by auto
  qed
qed

lemma tcp_recv_loop_result:
  "tcp_recv_loop fd buf n received s = Inr (r, s') \<Longrightarrow> r = 0 \<or> r = - 1"
proof (induction fd buf n received s rule: tcp_recv_loop.induct)
  case (1 fd buf n received s)
  from "1.prems" show ?case
    by (subst (asm) tcp_recv_loop.simps) (auto elim!: bindR_InrE split: if_splits dest: "1.IH")
qed

lemma dic_conn_recv_pending:
  assumes "dic_conn_recv p buf n False s = Inr (0, s')" "get_conn p s = Inr c"
  shows "pending (sockfd c) s' + size_of_int n = pending (sockfd c) s" "conns s' = conns s" "hung_up s' = hung_up s"
proof -
  from assms have "tcp_recv_loop (sockfd c) buf (size_of_int n) 0 s = Inr (0, s')"
    using tcp_recv_loop_result by (fastforce simp: dic_conn_recv_def tcp_recv_n_def elim!: bindR_InrE split: if_splits)
  then show "pending (sockfd c) s' + size_of_int n = pending (sockfd c) s" "conns s' = conns s" "hung_up s' = hung_up s"
    using tcp_recv_loop_pending by fastforce+
qed

lemma dic_conn_send_pending:
  assumes "dic_conn_send p buf n s = Inr (r, s')"
  shows "pending fd s' = pending fd s" "conns s' = conns s" "hung_up s' = hung_up s"
  using assms
  by (auto simp: dic_conn_send_def c_send_def pending_def elim!: bindR_InrE split: option.splits if_splits)

lemma get_conn_cong: "conns t = conns s \<Longrightarrow> get_conn p t = get_conn p s"
  by (simp add: get_conn_def)

lemma dic_node_recv_send_consumes:
  assumes "dic_node_recv_send user conn s = Inr (0, s')"
  obtains c where "get_conn conn s = Inr c" "get_conn conn s' = Inr c"
    "pending (sockfd c) s' + 8 \<le> pending (sockfd c) s" "hung_up s' = hung_up s"
proof -
  from assms obtain head s0 s1 body body_size s2 s3 msg s4 s5 s6 s7 r where
    a: "c_alloca 8 s = Inr (head, s0)" "dic_conn_recv conn head 8 False s0 = Inr (0, s1)"
      "c_malloc (unat (body_size :: u32)) s1 = (body, s2)" "dic_conn_recv conn body body_size False s2 = Inr (0, s3)"
    and b: "dispatch user r body s3 = Inr (msg, s4)"
      "s5 = s4 \<or> (\<exists>z. dic_conn_send conn (fst msg) (snd msg) s4 = Inr (z, s5))"
      "c_free body s5 = Inr s6" "c_free (fst msg) s6 = Inr s7" "s' = del_block head s7"
    unfolding dic_node_recv_send_def sizeof_dic_req_head_generic_def
    by (fastforce elim!: bindR_InrE split: prod.splits if_splits)
  from a(1) have n0: "same_net s s0"
    by (auto simp: c_alloca_def Let_def split: prod.splits if_splits dest: calls_same_net(1))
  have n2: "same_net s1 s2" using a(3) by (rule calls_same_net(1))
  have n7: "same_net s5 s'"
    using calls_same_net(4) [OF b(3)] calls_same_net(4) [OF b(4)] b(5)
    by (auto simp: same_net_def del_block_def)
  from a(2) obtain c where c0: "get_conn conn s0 = Inr c"
    by (auto simp: dic_conn_recv_def res_simps)
  then have c: "get_conn conn s = Inr c" using n0 get_conn_cong by (metis same_net_def)
  note r1 = dic_conn_recv_pending [OF a(2) c0]
  have "get_conn conn s2 = Inr c" using c0 r1(2) n2 get_conn_cong by (metis same_net_def)
  note r2 = dic_conn_recv_pending [OF a(4) this]
  have n4: "same_net s3 s4" using dispatch_same_net [OF b(1)] by (simp add: same_net_def)
  have s5: "pending (sockfd c) s5 = pending (sockfd c) s3" "conns s5 = conns s3" "hung_up s5 = hung_up s3"
    using pending_same_net [OF n4] n4 b(2)
    by (auto simp: dic_conn_send_pending same_net_def dest: dic_conn_send_pending(1) [where fd = "sockfd c"])
  have "size_of_int 8 = 8" by (simp add: size_of_int_small)
  then have "pending (sockfd c) s' + 8 \<le> pending (sockfd c) s"
    using r1(1) r2(1) s5(1) pending_same_net [OF n0] pending_same_net [OF n2] pending_same_net [OF n7]
    by simp
  moreover have "get_conn conn s' = Inr c"
    using c n0 n2 n7 r1(2) r2(2) s5(2) get_conn_cong by (metis same_net_def)
  moreover have "hung_up s' = hung_up s"
    using n0 n2 n7 r1(3) r2(3) s5(3) by (simp add: same_net_def)
  ultimately show ?thesis using that c by blast
qed

lemma client_handling_loop_ends: "\<exists>out. client_handling_loop user conn s = Some out"
proof (induction "case get_conn conn s of Inl _ \<Rightarrow> 0 | Inr c \<Rightarrow> pending (sockfd c) s" arbitrary: s rule: less_induct)
  case less
  show ?case
  proof (cases "\<exists>s'. dic_node_recv_send user conn s = Inr (0, s')")
    case True
    then obtain s' where s': "dic_node_recv_send user conn s = Inr (0, s')" ..
    then obtain c where "get_conn conn s = Inr c" "get_conn conn s' = Inr c"
      "pending (sockfd c) s' + 8 \<le> pending (sockfd c) s" by (rule dic_node_recv_send_consumes)
    with less [of s'] s' show ?thesis by (subst client_handling_loop.simps) simp
  next
    case False
    then show ?thesis by (subst client_handling_loop.simps) (auto split: sum.splits)
  qed
qed

section \<open>A stream that ends, and an operation nobody handles\<close>

text \<open>The client is gone: the stream ends before a whole head has come.\<close>

lemma node_stream_ends:
  fixes s :: node
  assumes con: "connected conn c k s" "sk_eof k" "length (concat (sk_in k)) < 8"
    and mem: "mem_ok s" "stocked [8] s"
  shows "\<exists>s'. dic_node_recv_send user conn s = Inr (1, s') \<and> view_of H s' = view_of H s \<and>
    mem_ok s' \<and> heap_of s' = heap_of s \<and> hung_up s' = (sockfd c, k\<lparr>sk_in := []\<rparr>) # hung_up s \<and>
    conns s' = (conns s)(conn \<mapsto> c\<lparr>sockfd := - 1\<rparr>) \<and> socks s' = (socks s)(sockfd c := None)"
proof -
  from mem(2) obtain b where b: "grants 8 b s" by (rule stocked_Cons)
  have sz: "size_of_int 8 = 8" by (simp add: size_of_int_small)
  obtain t bs where r: "dic_conn_recv conn (fst b) 8 False (add_block b s) = Inr (1, t)"
    and t: "mem_ok t" "heap_of t = (heap_of s)(fst b \<mapsto> bs)" "length bs = length (snd b)" "heap_of s (fst b) = None"
      "conns t = (conns s)(conn \<mapsto> c\<lparr>sockfd := - 1\<rparr>)" "socks t = (socks s)(sockfd c := None)" "net.more t = net.more s"
      "hung_up t = (sockfd c, k\<lparr>sk_in := []\<rparr>) # hung_up s"
    by (rule recv_stream_ends [OF con mem(1) b sz])
  let ?s' = "del_block (fst b) t"
  have "dic_node_recv_send user conn s = Inr (1, ?s')"
    using r by (simp add: dic_node_recv_send_def sizeof_dic_req_head_generic_def c_alloca_grants [OF b])
  moreover have heap: "heap_of ?s' = heap_of s" using t(2,4) by auto
  moreover have "os_state ?s' = os_state s" using os_state_more [OF t(7)] by simp
  then have "view_of H ?s' = view_of H s" using heap by (intro view_of_cong) simp_all
  moreover have "conns ?s' = conns t" "socks ?s' = socks t" "hung_up ?s' = hung_up t" by (simp_all add: del_block_def)
  ultimately show ?thesis using t(1,5,6,8) by auto
qed

text \<open>C25. The stream ends inside the body of a request: the call reports it, closes the socket and leaves the
  node as it was, but the buffer for the body stays allocated.\<close>

theorem node_body_cut_off:
  fixes s :: node
  assumes con: "connected conn c k s" "sk_eof k" "concat (sk_in k) = head_bytes opc n @ part"
    and n: "length part < n" "n < 2 ^ 31" and mem: "mem_ok s" "stocked [8, n] s"
  shows "\<exists>s' body bs. dic_node_recv_send user conn s = Inr (1, s') \<and> os_state s' = os_state s \<and>
    heap_of s body = None \<and> n \<le> length bs \<and> heap_of s' = (heap_of s)(body \<mapsto> bs) \<and>
    conns s' = (conns s)(conn \<mapsto> c\<lparr>sockfd := - 1\<rparr>) \<and> socks s' = (socks s)(sockfd c := None)"
proof -
  from mem(2) obtain b1 where b1: "grants 8 b1 s" "stocked [n] (add_block b1 s)" by (rule stocked_Cons)
  have hd: "length (head_bytes opc n) = 8" "size_of_int 8 = 8"
    by (simp_all add: head_bytes_def layout_lengths size_of_int_small)
  obtain s1 ks where r1: "dic_conn_recv conn (fst b1) 8 False (add_block b1 s) = Inr (0, s1)"
    and s1: "connected conn c (k\<lparr>sk_in := ks\<rparr>) s1" "concat ks = part" "mem_ok s1" "stocked [n] s1"
      "heap_of s1 = (heap_of s)(fst b1 \<mapsto> patch (snd b1) 0 (head_bytes opc n))"
      "conns s1 = conns s" "socks s1 = (socks s)(sockfd c \<mapsto> k\<lparr>sk_in := ks\<rparr>)" "net.more s1 = net.more s"
    by (rule recv_into_fresh [OF con(1,3) mem(1) b1 hd])
  have h1: "heap_of s1 (fst b1) = Some (patch (snd b1) 0 (head_bytes opc n))" using s1(5) by simp
  note f = request_head [OF n(2) s1(3) h1 grants_length [OF b1(1)]]
  from s1(4) obtain b2 where b2: "grants n b2 s1" by (rule stocked_Cons)
  have short: "length (concat (sk_in (k\<lparr>sk_in := ks\<rparr>))) < n" "sk_eof (k\<lparr>sk_in := ks\<rparr>)"
    using n(1) s1(2) con(2) by simp_all
  obtain t bs where r2: "dic_conn_recv conn (fst b2) (word_of_nat n) False (add_block b2 s1) = Inr (1, t)"
    and t: "mem_ok t" "heap_of t = (heap_of s1)(fst b2 \<mapsto> bs)" "length bs = length (snd b2)" "heap_of s1 (fst b2) = None"
      "conns t = (conns s1)(conn \<mapsto> c\<lparr>sockfd := - 1\<rparr>)" "socks t = (socks s1)(sockfd c := None)" "net.more t = net.more s1"
    by (rule recv_stream_ends [OF s1(1) short(2,1) s1(3) b2 f(4)])
  let ?s' = "del_block (fst b1) t"
  have "dic_node_recv_send user conn s = Inr (1, ?s')"
    using r1 r2 f(1,3) by (simp add: dic_node_recv_send_def sizeof_dic_req_head_generic_def
        c_alloca_grants [OF b1(1)] c_malloc_grants [OF b2])
  moreover have fresh: "heap_of s (fst b1) = None" "fst b1 \<noteq> fst b2" "heap_of s (fst b2) = None"
    using grants_fresh [OF b1(1) mem(1)] t(4) s1(5) by (auto split: if_splits)
  moreover have "heap_of ?s' = (heap_of s)(fst b2 \<mapsto> bs)" using fresh t(2) s1(5) by auto
  moreover have "os_state ?s' = os_state s" using os_state_more [of t s] t(7) s1(8) by simp
  moreover have "conns ?s' = (conns s)(conn \<mapsto> c\<lparr>sockfd := - 1\<rparr>)" "socks ?s' = (socks s)(sockfd c := None)"
    using t(5,6) s1(6,7) by (simp_all add: del_block_def)
  moreover have "n \<le> length bs" using t(3) grants_length [OF b2] by simp
  ultimately show ?thesis by blast
qed

text \<open>An operation the \<open>switch\<close> does not list is read, dropped and not answered.\<close>

definition handled :: "u16 \<Rightarrow> bool" where
  "handled opc \<longleftrightarrow> opc \<in> set (map op_code
     [DIC_MALLOC, DIC_REALLOC, DIC_FREE, DIC_MEMCPY_C2N, DIC_MEMCPY_N2C, DIC_SO_LOAD, DIC_SO_UNLOAD,
      DIC_SO_UPLOAD, DIC_FUNC_LOAD, DIC_RUN, DIC_JOIN])"

lemma dispatch_unhandled: "\<not> handled opc \<Longrightarrow> dispatch user opc body s = Inr ((0, 0), s)"
  by (simp add: handled_def dispatch_def)

text \<open>C26. A request whose operation the \<open>switch\<close> of \<open>dic_node_recv_send\<close> does not list (\<open>DIC_SO_VERIFY\<close> is one) is
  taken from the stream and dropped: no reply is sent, and nothing else changes.\<close>

theorem node_unhandled:
  fixes s :: node
  assumes "arriving H conn c k opc bdy [] rest s" "\<not> handled opc"
  shows "\<exists>s' ks. dic_node_recv_send user conn s = Inr (0, s') \<and> heap_of s' = heap_of s \<and> mem_ok s' \<and>
    os_state s' = os_state s \<and> conns s' = conns s \<and> concat ks = rest \<and>
    socks s' = (socks s)(sockfd c \<mapsto> k\<lparr>sk_in := ks\<rparr>)"
proof -
  obtain head hb body bb t ks where
    t: "connected conn c (k\<lparr>sk_in := ks\<rparr>) t" "concat ks = rest" "mem_ok t" "stocked [] t"
      "head \<notin> H" "body \<notin> H" "head \<noteq> body" "heap_of t = (heap_of s)(head \<mapsto> hb, body \<mapsto> bdy @ bb)"
      "heap_of s head = None" "heap_of s body = None" "os_state t = os_state s" "conns t = conns s"
      "socks t = (socks s)(sockfd c \<mapsto> k\<lparr>sk_in := ks\<rparr>)"
    and run: "dic_node_recv_send user conn s = bindR (dispatch user opc body t) (\<lambda>(msg, s4).
      bindR (if fst msg \<noteq> 0 then dic_conn_send conn (fst msg) (snd msg) s4 else Inr (0, s4)) (\<lambda>(_, s5).
      bindR (c_free body s5) (\<lambda>s6. bindR (c_free (fst msg) s6) (\<lambda>s7. Inr (0, del_block head s7)))))"
      "choices t = drop 2 (choices s)"
    by (rule request_received [OF assms(1), where user = user])
  let ?s' = "del_block head (del_block body t)"
  have "heap_of t body = Some (bdy @ bb)" using t(8) by simp
  then have "dic_node_recv_send user conn s = Inr (0, ?s')"
    using run c_free_block [OF t(3)] by (simp add: dispatch_unhandled [OF assms(2)])
  moreover have "heap_of ?s' = heap_of s" using t(7-10) by auto
  moreover have "conns ?s' = conns s" "socks ?s' = socks t" using t(12) by (simp_all add: del_block_def)
  ultimately show ?thesis using t by (intro exI [of _ ?s'] exI [of _ ks]) simp
qed

section \<open>Requests that break the node\<close>

lemma resp_choices:
  assumes "RESP_BUILDER_INIT n s = (r, s1)" "RESP_SET_HEAD r s1 = Inr t"
  shows "choices t = tl (choices s)"
  using assms c_malloc_choices [of "size_of_int (word_of_nat (RESP_HEAD_SIZE + n))" s]
  by (auto simp: RESP_BUILDER_INIT_def RESP_BUILDER_INIT_DYNAMIC_def RESP_SET_HEAD_def store_word_def
      Let_def split: prod.splits dest!: store_choices)

text \<open>C27. \<open>handle_so_load\<close> asks for two bytes less than the path needs: when the allocator gives no more than
  that, the path is written outside its buffer, whatever the name.\<close>

theorem so_load_overflow:
  fixes s :: "'a node_scheme"
  assumes ok: "mem_ok s" and body: "heap_of s body = Some (body_bytes (So_load name) @ rest)"
    and name: "0 \<notin> set name" "length name < 2 ^ 30"
    and st: "stocked [12, 15 + length name] s" and tight: "length (snd (choices s ! 1)) < 17 + length name"
  shows "handle_so_load body s = Inl OutOfBounds"
proof -
  have "{body} \<subseteq> dom (heap_of s)" using body by auto
  from ok this body st obtain msg len mbs s1 t where ready: "resp_ready {body} s 8 msg len mbs t"
    and st1: "stocked [15 + length name] t"
    and run: "RESP_BUILDER_INIT 8 s = ((msg, len), s1)" "RESP_SET_HEAD (msg, len) s1 = Inr t"
    and t: "mem_ok t" "heap_of t body = Some (body_bytes (So_load name) @ rest)"
    by (auto intro: handler_start [of 8 "[15 + length name]" s "{body}" body])
  from st1 obtain c where c: "grants (15 + length name) c t" by (rule stocked_Cons)
  have "choices s \<noteq> []" "choices t \<noteq> []" using st c by (auto simp: stocked_def grants_def)
  then have "choices s ! 1 = c"
    using resp_choices [OF run] c by (cases "choices s") (auto simp: grants_def)
  then have cl: "length (snd c) < 17 + length name" using tight by simp
  have n: "unat (word_of_nat (length name + 1) :: u32) = length name + 1"
    using name(2) by (subst unat_of_nat) simp
  have "load_word 4 body t = Inr (word_of_nat (length name + 1) :: u32)"
    by (simp add: load_word_at0 [OF t] enc_dic_req_so_load_def)
  moreover have "c_malloc (length so_path_prefix + 1 + unat (word_of_nat (length name + 1) :: u32)) t =
      (fst c, add_block c t)"
    unfolding n using c by (intro c_malloc_grants) (simp add: length_so_path_prefix)
  moreover have "load_str (body + 4) (add_block c t) = Inr name"
    using t grants_fresh [OF c t(1)] name grants_mem_ok [OF c t(1)]
    by (intro load_str_block [where bs = "body_bytes (So_load name) @ rest"])
      (auto simp: enc_dic_req_so_load_def)
  moreover have "store (fst c) (so_path_of name @ [0]) (add_block c t) = Inl OutOfBounds"
    using cl grants_length [OF c] grants_mem_ok [OF c t(1)]
    by (intro store_overflow0 [where bs = "snd c"]) (auto simp: length_so_path_of)
  ultimately show ?thesis
    by (simp add: handle_so_load_def sizeof_dic_resp_so_load_def run)
qed

text \<open>C28. A symbol that arrives without its null byte, as the client library sends it, is read past the end
  of the request when the buffer has no room after it.\<close>

theorem func_load_unterminated:
  fixes s :: "'a node_scheme"
  assumes ok: "mem_ok s"
    and body: "heap_of s body = Some (enc_dic_req_func_load \<lparr>req_func_load_so_handle = h,
      req_func_load_symlen = word_of_nat (length symbol)\<rparr> @ symbol)"
    and symbol: "0 \<notin> set symbol" "symbol \<noteq> []" and st: "stocked [12] s"
  shows "handle_func_load body s = Inl OutOfBounds"
proof -
  let ?b = "enc_dic_req_func_load \<lparr>req_func_load_so_handle = h,
      req_func_load_symlen = word_of_nat (length symbol)\<rparr> @ symbol"
  have "{body} \<subseteq> dom (heap_of s)" using body by auto
  from ok this body st obtain msg len mbs s1 t where
    run: "RESP_BUILDER_INIT 8 s = ((msg, len), s1)" "RESP_SET_HEAD (msg, len) s1 = Inr t"
    and t: "mem_ok t" "heap_of t body = Some ?b"
    by (auto intro: handler_start [of 8 "[]" s "{body}" body])
  have "c_string (drop 12 ?b) = None"
    using symbol(1) by (simp add: c_string_None_iff enc_dic_req_func_load_def)
  then have "load_str (body + 12) t = Inl OutOfBounds"
    using symbol(2) by (intro load_str_unterminated [OF t]) (simp_all add: enc_dic_req_func_load_def)
  moreover have "load_word 8 body t = Inr h"
    by (simp add: load_word_at0 [OF t] enc_dic_req_func_load_def)
  ultimately show ?thesis by (simp add: handle_func_load_def sizeof_dic_resp_func_load_def run)
qed

section \<open>A whole session\<close>

fun execs :: "request list \<Rightarrow> view \<Rightarrow> byte list list \<Rightarrow> view \<Rightarrow> bool" where
  "execs [] v rbs v' \<longleftrightarrow> rbs = [] \<and> v' = v"
| "execs (r # rs) v rbs v' \<longleftrightarrow> (\<exists>rb rbs' w. rbs = rb # rbs' \<and> exec r v rb w \<and> execs rs w rbs' v')"

lemma execs_length: "execs rs v rbs v' \<Longrightarrow> length rbs = length rs"
  by (induction rs arbitrary: v rbs) auto

text \<open>What each request of a session finds: memory for its buffers, and a state in which it may be
  made.\<close>

fun session_ok :: "user_code \<Rightarrow> nat set \<Rightarrow> nat \<Rightarrow> request list \<Rightarrow> node \<Rightarrow> bool" where
  "session_ok user H conn [] s \<longleftrightarrow> stocked [8] s"
| "session_ok user H conn (r # rs) s \<longleftrightarrow>
     stocked (8 # length (body_bytes r) # needs r) s \<and> allowed r (view_of H s) \<and>
     (\<forall>s'. dic_node_recv_send user conn s = Inr (0, s') \<longrightarrow> session_ok user H conn rs s')"

text \<open>C2. A session: the stream holds any sequence of requests and then ends. The loop serves them one after
  the other and returns with the socket closed; what was sent on the socket are exactly the replies to the requests, in
  their order, and replies and final state are ones the specification allows for the sequence. The connection itself is
  one of the objects at \<open>H\<close>, which no request may touch.\<close>

theorem session_served:
  fixes s :: node
  assumes "session_ok user H conn rs s" "connected conn c k s" "\<not> sk_reset k" "sk_eof k"
    and "concat (sk_in k) = concat (map request_bytes rs)" "mem_ok s" "H \<subseteq> dom (heap_of s)" "conn \<in> H"
  shows "\<exists>s' rbs. client_handling_loop user conn s = Some (Inr (1, s')) \<and> execs rs (view_of H s) rbs (view_of H s') \<and>
    hung_up s' = (sockfd c, k\<lparr>sk_in := [], sk_out := sk_out k @ concat (map reply_bytes rbs)\<rparr>) # hung_up s \<and>
    (\<forall>a \<in> H. heap_of s' a = heap_of s a) \<and>
    conns s' = (conns s)(conn \<mapsto> c\<lparr>sockfd := - 1\<rparr>) \<and> socks s' = (socks s)(sockfd c := None)"
  using assms
proof (induction rs arbitrary: s k)
  case Nil
  then have "concat (sk_in k) = []" "stocked [8] s" by auto
  with node_stream_ends [OF Nil.prems(2,4), where H = H and user = user] Nil.prems
  obtain s' where s': "dic_node_recv_send user conn s = Inr (1, s')" "view_of H s' = view_of H s"
    "heap_of s' = heap_of s" "hung_up s' = (sockfd c, k\<lparr>sk_in := []\<rparr>) # hung_up s"
    "conns s' = (conns s)(conn \<mapsto> c\<lparr>sockfd := - 1\<rparr>)" "socks s' = (socks s)(sockfd c := None)" by auto
  then have "client_handling_loop user conn s = Some (Inr (1, s'))"
    by (subst client_handling_loop.simps) simp
  with s' show ?case by (intro exI [of _ s'] exI [of _ "[]"]) simp
next
  case (Cons r rs)
  then have "serving H conn c k r (concat (map request_bytes rs)) s" by (simp add: serving_def)
  from node_serves [OF this, where user = user] obtain s1 rb ks where
    s1: "dic_node_recv_send user conn s = Inr (0, s1)" "exec r (view_of H s) rb (view_of H s1)" "mem_ok s1"
      "\<forall>a \<in> H. heap_of s1 a = heap_of s a" "conns s1 = conns s"
      "concat ks = concat (map request_bytes rs)" "[] \<notin> set ks"
      "socks s1 = (socks s)(sockfd c \<mapsto> k\<lparr>sk_in := ks, sk_out := sk_out k @ reply_bytes rb\<rparr>)"
    by (auto simp: served_def)
  let ?k = "k\<lparr>sk_in := ks, sk_out := sk_out k @ reply_bytes rb\<rparr>"
  have hu: "hung_up s1 = hung_up s" by (rule dic_node_recv_send_consumes [OF s1(1)])
  have loop: "client_handling_loop user conn s = client_handling_loop user conn s1"
    using s1(1) by (subst client_handling_loop.simps) simp
  have pre: "session_ok user H conn rs s1" "connected conn c ?k s1" "\<not> sk_reset ?k" "sk_eof ?k"
    "concat (sk_in ?k) = concat (map request_bytes rs)" "H \<subseteq> dom (heap_of s1)"
    using Cons.prems s1 by (auto simp: connected_def dom_def subset_iff)
  from Cons.IH [OF pre(1-5) s1(3) pre(6) Cons.prems(8)] obtain s' rbs where
    t: "client_handling_loop user conn s1 = Some (Inr (1, s'))" "execs rs (view_of H s1) rbs (view_of H s')"
      "hung_up s' = (sockfd c, ?k\<lparr>sk_in := [], sk_out := sk_out ?k @ concat (map reply_bytes rbs)\<rparr>) # hung_up s1"
      "\<forall>a \<in> H. heap_of s' a = heap_of s1 a"
      "conns s' = (conns s1)(conn \<mapsto> c\<lparr>sockfd := - 1\<rparr>)" "socks s' = (socks s1)(sockfd c := None)"
    by blast
  then show ?case
    using s1 loop hu by (intro exI [of _ s'] exI [of _ "rb # rbs"]) auto
qed

end
