(* ===== verification/Rpc.thy ===== *)
theory Rpc
  imports Client_Stock Node_Loop
begin

text \<open>
  Client and node together. The bytes a client call sends are the request the node serves, and the
  bytes the node answers are the reply the call waits for: the two halves, proved in theories
  Client_Correct and Node_Loop against the same wire images, compose to statements about remote
  memory.
\<close>

section \<open>Objects of a view do not overlap\<close>

definition separate :: "view \<Rightarrow> bool" where
  "separate v \<longleftrightarrow> (\<forall>a b bs cs. v_heap v a = Some bs \<longrightarrow> v_heap v b = Some cs \<longrightarrow> a \<noteq> b \<longrightarrow>
     apart (a, bs) (b, cs))"

lemma apart_all_objects:
  "apart_all B \<Longrightarrow> map_of B a = Some bs \<Longrightarrow> map_of B b = Some cs \<Longrightarrow> a \<noteq> b \<Longrightarrow> apart (a, bs) (b, cs)"
proof (induction B)
  case (Cons c B)
  obtain x xs where c: "c = (x, xs)" by (cases c)
  show ?case
  proof (cases "x = a \<or> x = b")
    case True
    with Cons.prems c map_of_apart [of c B a bs] map_of_apart [of c B b cs] show ?thesis
      by (auto simp: apart_commute split: if_splits)
  next
    case False
    with Cons c show ?thesis by auto
  qed
qed simp

lemma separate_view_of:
  fixes s :: "'a node_scheme"
  assumes "mem_ok s"
  shows "separate (view_of H s)"
  using assms apart_all_objects [of "blocks s"]
  by (auto simp: separate_def view_of_def restrict_map_def mem_ok_def heap_of_def split: if_splits)

lemma within_unique:
  assumes "separate v" "within v q n a k bs" "within v q n b j cs" "0 < n"
  shows "a = b" "k = j" "bs = cs"
proof -
  show ab: "a = b"
  proof (rule ccontr)
    assume "a \<noteq> b"
    with assms(1-3) have "apart (a, bs) (b, cs)" by (auto simp: separate_def within_def)
    with assms(2-4) show False by (auto simp: within_def)
  qed
  with assms(2,3) show "k = j" "bs = cs" by (auto simp: within_def)
qed

text \<open>A copy changes bytes, not extents.\<close>

lemma separate_patch:
  assumes "separate v" "v_heap v a = Some cs" "length ds = length cs"
  shows "separate (v\<lparr>v_heap := (v_heap v)(a \<mapsto> ds)\<rparr>)"
proof -
  have "apart (x, xs) (y, ys)" if "((v_heap v)(a \<mapsto> ds)) x = Some xs" "((v_heap v)(a \<mapsto> ds)) y = Some ys"
    "x \<noteq> y" for x y xs ys
  proof -
    define old where "old z zs = (if z = a then cs else zs)" for z :: nat and zs :: "byte list"
    have "v_heap v x = Some (old x xs)" "v_heap v y = Some (old y ys)"
      "length (old x xs) = length xs" "length (old y ys) = length ys"
      using that assms(2,3) by (auto simp: old_def split: if_splits)
    with assms(1) that(3) have "apart (x, old x xs) (y, old y ys)" unfolding separate_def by blast
    then show ?thesis using \<open>length (old x xs) = length xs\<close> \<open>length (old y ys) = length ys\<close> by simp
  qed
  then show ?thesis unfolding separate_def by (simp del: apart.simps fun_upd_apply)
qed

section \<open>Remote memory behaves like memory\<close>

text \<open>What is written to remote memory is what is read back from there.\<close>

lemma write_then_read:
  assumes "separate v" "exec (Memcpy_c2n q bs) v rb1 v1"
    and "exec (Memcpy_n2c q (word_of_nat (length bs))) v1 rb2 v2" "length bs < 2 ^ 30"
  shows "rb2 = enc_word 4 (word_of_nat (length bs) :: u32) @ bs" "v2 = v1"
proof -
  let ?n = "length bs"
  have n: "unat (word_of_nat ?n :: u32) = ?n" using assms(4) by (subst unat_of_nat) simp
  from assms(2) obtain a k cs where w: "within v q ?n a k cs"
    and v1: "v1 = v\<lparr>v_heap := (v_heap v)(a \<mapsto> patch cs k bs)\<rparr>" by auto
  from assms(3) n obtain b j ds where w2: "within v1 q ?n b j ds" and v2: "v2 = v1"
    and rb: "rb2 = enc_word 4 (word_of_nat ?n :: u32) @ take ?n (drop j ds)" by auto
  have cs: "v_heap v a = Some cs" "k + ?n \<le> length cs" using w by (auto simp: within_def)
  show "v2 = v1" by (fact v2)
  have w1: "within v1 q ?n a k (patch cs k bs)" using w v1 cs(2) by (simp add: within_def)
  show "rb2 = enc_word 4 (word_of_nat ?n :: u32) @ bs"
  proof (cases "bs = []")
    case True
    with rb show ?thesis by simp
  next
    case False
    have "separate v1" unfolding v1 using assms(1) cs by (intro separate_patch) simp_all
    with w1 w2 False have "j = k" "ds = patch cs k bs" using within_unique [of v1 q ?n a k _ b j ds] by auto
    then show ?thesis using rb take_drop_patch_same [OF cs(2)] by simp
  qed
qed

text \<open>Writing one place leaves what is read elsewhere.\<close>

lemma write_keeps_others:
  assumes "separate v" "exec (Memcpy_c2n q bs) v rb1 v1" "within v p n b j ds"
    and "unat p + n \<le> unat q \<or> unat q + length bs \<le> unat p"
  shows "\<exists>ds'. within v1 p n b j ds' \<and> take n (drop j ds') = take n (drop j ds)"
proof -
  from assms(2) obtain a k cs where w: "within v q (length bs) a k cs"
    and v1: "v1 = v\<lparr>v_heap := (v_heap v)(a \<mapsto> patch cs k bs)\<rparr>" by auto
  have cs: "v_heap v a = Some cs" "k + length bs \<le> length cs" "unat q = a + k" using w by (auto simp: within_def)
  show ?thesis
  proof (cases "a = b")
    case True
    with assms(3) cs have d: "ds = cs" "unat p = a + j" "j + n \<le> length cs" by (auto simp: within_def)
    have "take n (drop j (patch cs k bs)) = take n (drop j cs)"
      using assms(4) d cs take_patch_before [of j n k bs cs] take_patch_after [of k bs j cs n] by auto
    with True d cs v1 show ?thesis by (intro exI [of _ "patch cs k bs"]) (simp add: within_def)
  next
    case False
    with assms(3) v1 show ?thesis by (intro exI [of _ ds]) (simp add: within_def)
  qed
qed

section \<open>Through the network\<close>

lemma call_done_connected:
  assumes "call_done s c k bytes rest s'" "connected device c k s"
  obtains ks where "connected device c (k\<lparr>sk_in := ks, sk_out := sk_out k @ bytes\<rparr>) s'" "concat ks = rest"
  using assms by (auto simp: call_done_def connected_def)

lemma client_bytes_block:
  assumes "mem_ok m" "heap_of m a = Some bs" "i + n \<le> length bs"
  shows "client_bytes (a + i) n m = take n (drop i bs)"
  by (simp add: client_bytes_def load_block [OF assms])

text \<open>Reading from a node: the bytes of the reply are then in the client's object.\<close>

lemma memcpy_n2c_delivers:
  assumes call: "calling (Memcpy_n2c (r_ptr p) n) (r_device p) c k (enc_word 4 n @ v) rest s"
    and v: "length v = unat n" and dst: "in_object dst (unat n) s"
  shows "\<exists>s' ks. dic_memcpy_n2c dst p n s = Inr (0, s') \<and> client_bytes dst (unat n) s' = v \<and>
    mem_ok s' \<and> concat ks = rest \<and> socks s' = (socks s)(sockfd c \<mapsto>
      k\<lparr>sk_in := ks, sk_out := sk_out k @ request_bytes (Memcpy_n2c (r_ptr p) n)\<rparr>)"
proof -
  from dst obtain a i bs where d: "dst = a + i" "heap_of s a = Some bs" "i + unat n \<le> length bs"
    by (auto simp: in_object_def)
  from dic_memcpy_n2c_call [OF call refl v d] obtain s' where
    s': "dic_memcpy_n2c dst p n s = Inr (0, s')"
      "call_done (set_block a (patch bs i v) s) c k (request_bytes (Memcpy_n2c (r_ptr p) n)) rest s'" by auto
  then have h: "mem_ok s'" "heap_of s' a = Some (patch bs i v)" using d(2) by (auto simp: call_done_def)
  have "client_bytes dst (unat n) s' = v"
    using client_bytes_block [OF h, of i "unat n"] d(1,3) v take_drop_patch_same [of i v bs] by simp
  with s' h(1) show ?thesis by (auto simp: call_done_def)
qed

text \<open>C7. The client copies \<open>n\<close> bytes to a node and back into another object: given the two replies that
  the specification of the node allows, the bytes arrive unchanged, and what went out is exactly the
  two requests.\<close>

theorem copy_there_and_back:
  fixes s :: "'a net_scheme"
  assumes node: "separate v"
      "execs [Memcpy_c2n (r_ptr q) (client_bytes src (unat n) s), Memcpy_n2c (r_ptr q) n] v [rb1, rb2] v'"
    and call: "calling (Memcpy_c2n (r_ptr q) (client_bytes src (unat n) s)) (r_device q) c k rb1
        (reply_bytes rb2) s"
      "in_object src (unat n) s" "in_object dst (unat n) s" "unat n < 2 ^ 30"
    and mem: "stocked [20 + unat n, 4, 4, 20, 4, 4 + unat n] s"
  shows "\<exists>s1 s2. dic_memcpy_c2n src q n s = Inr (0, s1) \<and> dic_memcpy_n2c dst q n s1 = Inr (0, s2) \<and>
    client_bytes dst (unat n) s2 = client_bytes src (unat n) s \<and>
    map_option sk_out (socks s2 (sockfd c)) = Some (sk_out k @
      request_bytes (Memcpy_c2n (r_ptr q) (client_bytes src (unat n) s)) @
      request_bytes (Memcpy_n2c (r_ptr q) n))"
proof -
  let ?d = "client_bytes src (unat n) s"
  let ?r1 = "Memcpy_c2n (r_ptr q) ?d" and ?r2 = "Memcpy_n2c (r_ptr q) n"
  have ok: "mem_ok s" and con: "connected (r_device q) c k s" "\<not> sk_reset k" using call(1) by (simp_all add: calling_def)
  have len: "length ?d = unat n" using call(2) client_bytes_block [OF ok] by (auto simp: in_object_def)
  from node(2) obtain w where ex: "exec ?r1 v rb1 w" "exec ?r2 w rb2 v'" by auto
  then have rb1: "rb1 = enc_word 4 (0 :: u32)" by simp
  have rb2: "rb2 = enc_word 4 n @ ?d"
    using write_then_read(1) [OF node(1) ex(1)] ex(2) len call(4) by simp
  from dic_memcpy_c2n_call [OF call(1) _ call(2,4)] rb1 obtain s1 where s1:
    "dic_memcpy_c2n src q n s = Inr (0, s1)" "call_done s c k (request_bytes ?r1) (reply_bytes rb2) s1" by auto
  from s1(2) con(1) obtain ks where k1:
    "connected (r_device q) c (k\<lparr>sk_in := ks, sk_out := sk_out k @ request_bytes ?r1\<rparr>) s1"
    "concat ks = reply_bytes rb2" by (rule call_done_connected)
  let ?k1 = "k\<lparr>sk_in := ks, sk_out := sk_out k @ request_bytes ?r1\<rparr>"
  have h1: "heap_of s1 = heap_of s" "mem_ok s1" using s1(2) by (simp_all add: call_done_def)
  have "takes3 s s1" using calls_take(4) [of s src q n] s1(1) by (simp add: yields_def)
  from stocked_after [OF mem call_done_extents [OF s1(2)] h1(2) this] rb2 len
  have st1: "stocked [20, 4, length rb2] s1" by simp
  then have c2: "calling ?r2 (r_device q) c ?k1 rb2 [] s1"
    using k1 h1 con(2) rb2 len call(4) by (simp add: calling_def length_request_bytes layout_lengths)
  have "in_object dst (unat n) s1" using call(3) h1(1) by (simp add: in_object_def)
  from memcpy_n2c_delivers [OF c2 [unfolded rb2] len this] s1(1) show ?thesis by fastforce
qed

text \<open>A pointer obtained from a node is null or a fresh object of at least the size asked for, and the
  node then holds that object.\<close>

lemma remote_malloc:
  fixes s :: "'a net_scheme"
  assumes "exec (Malloc n) v rb v'" "calling (Malloc n) device c k rb rest s"
  shows "\<exists>p s'. dic_rmalloc device n s = Inr (p, s') \<and> r_device p = device \<and>
    call_done s c k (request_bytes (Malloc n)) rest s' \<and>
    (IS_RNULL p \<and> v' = v \<or>
     (\<exists>bs. v_heap v (unat (r_ptr p)) = None \<and> v' = v\<lparr>v_heap := (v_heap v)(unat (r_ptr p) \<mapsto> bs)\<rparr> \<and>
        unat n \<le> length bs))"
proof -
  from assms(1) have l: "8 \<le> length rb" by (auto simp: ptr_reply_def)
  from dic_rmalloc_call [OF assms(2) this] obtain s' where s': "dic_rmalloc device n s =
      Inr (\<lparr>r_ptr = dec_word 8 rb, r_device = device\<rparr>, s')"
    "call_done s c k (request_bytes (Malloc n)) rest s'" by blast
  have u: "unat (word_of_nat p :: u64) = p" if "p < 2 ^ 64" for p
    using that by (subst unat_of_nat) simp
  have "IS_RNULL \<lparr>r_ptr = dec_word 8 rb, r_device = device\<rparr> \<and> v' = v \<or>
     (\<exists>bs. v_heap v (unat (dec_word 8 rb :: u64)) = None \<and>
        v' = v\<lparr>v_heap := (v_heap v)(unat (dec_word 8 rb :: u64) \<mapsto> bs)\<rparr> \<and> unat n \<le> length bs)"
    using assms(1) by (auto simp: ptr_reply_def IS_RNULL_def new_object_def u)
  with s' show ?thesis by auto
qed

section \<open>End to end\<close>

lemma load_within:
  fixes s :: "'a node_scheme"
  assumes "mem_ok s" "within (view_of H s) q n a k bs"
  shows "load (unat q) n s = Inr (take n (drop k bs))"
  using assms load_block [of s a bs k n] by (auto simp: within_def view_of_def restrict_map_def split: if_splits)

text \<open>C5. A client allocates on a node: the node's reply, whichever it is, makes \<open>dic_rmalloc\<close> return null or a
  pointer to an object that did not exist before, that exists on the node now, and that has at least
  the size asked for.\<close>

theorem remote_malloc_end_to_end:
  fixes s :: node
  assumes "serving H conn c k (Malloc n) rest s"
  shows "\<exists>s' rb ks. dic_node_recv_send user conn s = Inr (0, s') \<and> concat ks = rest \<and> length rb = 8 \<and>
    socks s' = (socks s)(sockfd c \<mapsto> k\<lparr>sk_in := ks, sk_out := sk_out k @ reply_bytes rb\<rparr>) \<and>
    (\<forall>(t :: 'a net_scheme) device c' k' rest'. calling (Malloc n) device c' k' rb rest' t \<longrightarrow>
      (\<exists>p t'. dic_rmalloc device n t = Inr (p, t') \<and> call_done t c' k' (request_bytes (Malloc n)) rest' t' \<and>
        r_device p = device \<and>
        (IS_RNULL p \<and> view_of H s' = view_of H s \<or>
         heap_of s (unat (r_ptr p)) = None \<and>
         (\<exists>bs. heap_of s' (unat (r_ptr p)) = Some bs \<and> unat n \<le> length bs))))"
proof -
  from node_serves [OF assms, of user] obtain s' rb ks where s': "dic_node_recv_send user conn s = Inr (0, s')"
    "exec (Malloc n) (view_of H s) rb (view_of H s')" "concat ks = rest"
    "\<forall>a \<in> H. heap_of s' a = heap_of s a"
    "socks s' = (socks s)(sockfd c \<mapsto> k\<lparr>sk_in := ks, sk_out := sk_out k @ reply_bytes rb\<rparr>)"
    unfolding served_def by blast
  have H: "H \<subseteq> dom (heap_of s)" using assms by (simp add: serving_def)
  have l: "length rb = 8" using s'(2) by (auto simp: ptr_reply_def)
  have "\<exists>p t'. dic_rmalloc device n t = Inr (p, t') \<and> call_done t c' k' (request_bytes (Malloc n)) rest' t' \<and>
      r_device p = device \<and> (IS_RNULL p \<and> view_of H s' = view_of H s \<or>
        heap_of s (unat (r_ptr p)) = None \<and>
        (\<exists>bs. heap_of s' (unat (r_ptr p)) = Some bs \<and> unat n \<le> length bs))"
    if call: "calling (Malloc n) device c' k' rb rest' t" for t :: "'a net_scheme" and device c' k' rest'
    using remote_malloc [OF s'(2) call] s'(4) H
    by (elim exE conjE disjE) (auto simp: view_of_def restrict_map_def fun_eq_iff split: if_splits)
  with s'(1,3,5) l show ?thesis by blast
qed

text \<open>A write as the node's memory sees it: the bytes are there, and other places are as before.\<close>

lemma remote_write_effect:
  fixes s s' :: "'a node_scheme"
  assumes ok: "mem_ok s" "mem_ok s'" and ex: "exec (Memcpy_c2n q bs) (view_of H s) rb (view_of H s')"
  shows "load (unat q) (length bs) s' = Inr bs"
    and "within (view_of H s) p n b j ds \<Longrightarrow> unat p + n \<le> unat q \<or> unat q + length bs \<le> unat p \<Longrightarrow>
      load (unat p) n s' = load (unat p) n s"
proof -
  from ex obtain a i cs where w: "within (view_of H s) q (length bs) a i cs"
    and v: "view_of H s' = (view_of H s)\<lparr>v_heap := (v_heap (view_of H s))(a \<mapsto> patch cs i bs)\<rparr>" by auto
  have cs: "i + length bs \<le> length cs" using w by (simp add: within_def)
  have "within (view_of H s') q (length bs) a i (patch cs i bs)"
    using w cs unfolding v by (simp add: within_def)
  from load_within [OF ok(2) this] show "load (unat q) (length bs) s' = Inr bs"
    using take_drop_patch_same [OF cs] by simp
  show "load (unat p) n s' = load (unat p) n s"
    if "within (view_of H s) p n b j ds" "unat p + n \<le> unat q \<or> unat q + length bs \<le> unat p"
    using write_keeps_others [OF separate_view_of [OF ok(1)] ex that] load_within [OF ok(2), of H p n b j]
      load_within [OF ok(1) that(1)] by auto
qed

text \<open>C3. A client writes to a node: afterwards the node's memory holds the client's bytes at the remote address,
  bytes of other places are as before, and the client's call returns 0. The connection of the node is one of the objects
  at \<open>H\<close>, so the place is not in it.\<close>

theorem remote_write_end_to_end:
  fixes s :: node
  assumes "serving H conn c k (Memcpy_c2n (r_ptr q) bs) rest s" "conn \<in> H"
  shows "\<exists>s' rb ks. dic_node_recv_send user conn s = Inr (0, s') \<and> concat ks = rest \<and> rb = enc_word 4 (0 :: u32) \<and>
    socks s' = (socks s)(sockfd c \<mapsto> k\<lparr>sk_in := ks, sk_out := sk_out k @ reply_bytes rb\<rparr>) \<and>
    load (unat (r_ptr q)) (length bs) s' = Inr bs \<and>
    (\<forall>p n b j ds. within (view_of H s) p n b j ds \<longrightarrow>
       unat p + n \<le> unat (r_ptr q) \<or> unat (r_ptr q) + length bs \<le> unat p \<longrightarrow>
       load (unat p) n s' = load (unat p) n s) \<and>
    (\<forall>(t :: 'a net_scheme) src n c' k' rest'. client_bytes src (unat n) t = bs \<longrightarrow> in_object src (unat n) t \<longrightarrow>
       unat n < 2 ^ 30 \<longrightarrow> calling (Memcpy_c2n (r_ptr q) bs) (r_device q) c' k' rb rest' t \<longrightarrow>
       (\<exists>t'. dic_memcpy_c2n src q n t = Inr (0, t') \<and>
          call_done t c' k' (request_bytes (Memcpy_c2n (r_ptr q) bs)) rest' t'))"
proof -
  from node_serves [OF assms(1), of user] obtain s' rb ks where s': "dic_node_recv_send user conn s = Inr (0, s')"
    "exec (Memcpy_c2n (r_ptr q) bs) (view_of H s) rb (view_of H s')" "concat ks = rest" "mem_ok s'"
    "socks s' = (socks s)(sockfd c \<mapsto> k\<lparr>sk_in := ks, sk_out := sk_out k @ reply_bytes rb\<rparr>)"
    unfolding served_def by blast
  have ok: "mem_ok s" using assms by (simp add: serving_def)
  have rb: "rb = enc_word 4 (0 :: u32)" using s'(2) by auto
  show ?thesis
  proof (rule exI [of _ s'], rule exI [of _ rb], rule exI [of _ ks], intro conjI allI impI)
    show "\<exists>t'. dic_memcpy_c2n src q n t = Inr (0, t') \<and>
        call_done t c' k' (request_bytes (Memcpy_c2n (r_ptr q) bs)) rest' t'"
      if "client_bytes src (unat n) t = bs" "in_object src (unat n) t" "unat n < 2 ^ 30"
        "calling (Memcpy_c2n (r_ptr q) bs) (r_device q) c' k' rb rest' t"
      for t :: "'a net_scheme" and src n c' k' rest'
      using dic_memcpy_c2n_call [of q src n t c' k' rb rest'] that rb by simp
  qed (rule s' rb remote_write_effect [OF ok s'(4,2)]; assumption)+
qed

text \<open>C4. A client reads from a node: its object then holds the node's bytes, and the node is unchanged.\<close>

theorem remote_read_end_to_end:
  fixes s :: node
  assumes "serving H conn c k (Memcpy_n2c (r_ptr q) n) rest s"
  shows "\<exists>s' rb ks v. dic_node_recv_send user conn s = Inr (0, s') \<and> concat ks = rest \<and> rb = enc_word 4 n @ v \<and>
    socks s' = (socks s)(sockfd c \<mapsto> k\<lparr>sk_in := ks, sk_out := sk_out k @ reply_bytes rb\<rparr>) \<and>
    view_of H s' = view_of H s \<and> load (unat (r_ptr q)) (unat n) s = Inr v \<and>
    (\<forall>(t :: 'a net_scheme) dst c' k' rest'. in_object dst (unat n) t \<longrightarrow>
       calling (Memcpy_n2c (r_ptr q) n) (r_device q) c' k' rb rest' t \<longrightarrow>
       (\<exists>t'. dic_memcpy_n2c dst q n t = Inr (0, t') \<and> client_bytes dst (unat n) t' = v))"
proof -
  from node_serves [OF assms, of user] obtain s' rb ks where s': "dic_node_recv_send user conn s = Inr (0, s')"
    "exec (Memcpy_n2c (r_ptr q) n) (view_of H s) rb (view_of H s')" "concat ks = rest"
    "socks s' = (socks s)(sockfd c \<mapsto> k\<lparr>sk_in := ks, sk_out := sk_out k @ reply_bytes rb\<rparr>)"
    unfolding served_def by blast
  have ok: "mem_ok s" using assms by (simp add: serving_def)
  from s'(2) obtain a i cs where w: "within (view_of H s) (r_ptr q) (unat n) a i cs"
    and rb: "rb = enc_word 4 n @ take (unat n) (drop i cs)" and v: "view_of H s' = view_of H s" by auto
  have l: "length (take (unat n) (drop i cs)) = unat n" using w by (auto simp: within_def)
  have "\<exists>t'. dic_memcpy_n2c dst q n t = Inr (0, t') \<and> client_bytes dst (unat n) t' = take (unat n) (drop i cs)"
    if "in_object dst (unat n) t" "calling (Memcpy_n2c (r_ptr q) n) (r_device q) c' k' rb rest' t"
    for t :: "'a net_scheme" and dst c' k' rest'
    using memcpy_n2c_delivers [OF that(2) [unfolded rb] l that(1)] by blast
  with s'(1,3,4) rb v load_within [OF ok w] show ?thesis by blast
qed

end
