(* ===== verification/Socket_Properties.thy ===== *)
theory Socket_Properties
  imports Sockets_Correct
begin

text \<open>
  What the connection layer guarantees, with concrete processes on which the hypotheses of the
  statements hold. The example process has one connection, at address 1000 on descriptor 5.
\<close>

section \<open>Example processes\<close>

definition example_conn :: dic_conn where
  "example_conn = \<lparr>sockfd = 5, queue_len = None, queue_cond_init = False, queue_mut_init = False,
     recv_mut_init = True, send_mut_init = True, port = 4224, ip = NONE_IP_ADDR\<rparr>"

definition example_sock :: "byte list list \<Rightarrow> sock" where
  "example_sock cs = \<lparr>sk_in = cs, sk_eof = True, sk_reset = False, sk_out = [],
     sk_peer = \<lparr>sin_family = 2, sin_port = 0, s_addr = 0\<rparr>\<rparr>"

definition example_net :: "(nat \<times> byte list) list \<Rightarrow> byte list list \<Rightarrow> (nat \<times> byte list) list \<Rightarrow> net" where
  "example_net bl cs ch = \<lparr>blocks = (1000, replicate 200 0) # bl, choices = ch, conns = [1000 \<mapsto> example_conn],
     socks = [5 \<mapsto> example_sock cs], fd_answers = [], connect_answers = [], bind_answers = [], listen_answers = [],
     accept_answers = [], uninit_destroyed = 0, hung_up = []\<rparr>"

lemma example_sock_fields [simp]:
  "sk_in (example_sock cs) = cs" "sk_eof (example_sock cs)" "\<not> sk_reset (example_sock cs)"
  "sk_out (example_sock cs) = []" "sockfd example_conn = 5"
  by (simp_all add: example_sock_def example_conn_def)

text \<open>A message in two chunks.\<close>

definition two_chunks :: "byte list \<Rightarrow> byte list list" where
  "two_chunks bs = [take 5 bs, drop 5 bs]"

lemma two_chunks_simps [simp]:
  "concat (two_chunks bs) = bs" "5 < length bs \<Longrightarrow> [] \<notin> set (two_chunks bs)"
  by (auto simp: two_chunks_def)

lemma example_net_facts [simp]:
  "[] \<notin> set cs \<Longrightarrow> connected 1000 example_conn (example_sock cs) (example_net bl cs ch)"
  "stocked ns (example_net bl cs ch) \<longleftrightarrow> serves ((1000, replicate 200 0) # bl) ns ch"
  "mem_ok (example_net [] cs ch)" "socks (example_net bl cs ch) = [5 \<mapsto> example_sock cs]"
  "0 < length obj \<Longrightarrow> length obj \<le> 1000 \<Longrightarrow> mem_ok (example_net [(2000, obj)] cs ch)"
  "heap_of (example_net bl cs ch) = (map_of bl)(1000 \<mapsto> replicate 200 0)"
  by (auto simp: example_net_def connected_def example_conn_def mem_ok_def stocked_def example_sock_def heap_of_def)

section \<open>Receiving\<close>

text \<open>C23. \<open>dic_conn_recv\<close> delivers exactly the bytes asked for however TCP cuts the stream into chunks: the next
  \<open>m\<close> bytes of the stream go to the buffer, nothing else in memory changes, and the bytes behind them stay
  in the stream. When the stream ends before, the result is 1, and the connection is closed and has no
  socket any more; while neither is the case the call waits.\<close>

theorem recv_exact:
  assumes "connected p c k s" "mem_ok s" "heap_of s a = Some bs" "size_of_int n = m" "i + m \<le> length bs"
  shows "(m \<le> length (concat (sk_in k)) \<longrightarrow> (\<exists>s' ks. dic_conn_recv p (a + i) n False s = Inr (0, s') \<and>
      heap_of s' = (heap_of s)(a \<mapsto> patch bs i (take m (concat (sk_in k)))) \<and> conns s' = conns s \<and>
      concat ks = drop m (concat (sk_in k)) \<and> socks s' = (socks s)(sockfd c \<mapsto> k\<lparr>sk_in := ks\<rparr>))) \<and>
    (length (concat (sk_in k)) < m \<and> sk_eof k \<longrightarrow> (\<exists>s'. dic_conn_recv p (a + i) n False s = Inr (1, s') \<and>
      conns s' = (conns s)(p \<mapsto> c\<lparr>sockfd := - 1\<rparr>) \<and> socks s' = (socks s)(sockfd c := None))) \<and>
    (length (concat (sk_in k)) < m \<and> \<not> sk_eof k \<longrightarrow> dic_conn_recv p (a + i) n False s = Inl Blocked)"
proof -
  let ?s = "recv_state (sockfd c) k a bs i m s" and ?ks = "eat m (sk_in k)"
  note run = dic_conn_recv_spec [OF assms(1-5)]
  have k: "socks s (sockfd c) = Some k" using assms(1) by (simp add: connected_def)
  have "heap_of ?s = (heap_of s)(a \<mapsto> patch bs i (take m (concat (sk_in k))))" using assms(3) by (auto simp: fun_eq_iff)
  moreover have "concat ?ks = drop m (concat (sk_in k))" by (simp add: concat_eat)
  ultimately show ?thesis
    using run k by (auto simp: Let_def recv_state_socks put_conn_def c_close_def)
qed

theorem recv_exact_witness:
  "\<exists>s'. dic_conn_recv 1000 2001 2 False (example_net [(2000, [0, 0, 0, 0])] [[7], [8, 9]] []) = Inr (0, s') \<and>
    heap_of s' 2000 = Some [0, 7, 8, 0]"
proof -
  let ?s = "example_net [(2000, [0, 0, 0, 0])] [[7], [8, 9]] []"
  have "connected 1000 example_conn (example_sock [[7], [8, 9]]) ?s" "mem_ok ?s" "heap_of ?s 2000 = Some [0, 0, 0, 0]"
    "size_of_int (2 :: u32) = 2" "1 + 2 \<le> length [0 :: byte, 0, 0, 0]" by (simp_all add: size_of_int_small)
  from recv_exact [OF this] show ?thesis by (auto simp: patch_def)
qed

section \<open>Sending\<close>

text \<open>A failed send goes unnoticed: on a connection that has no socket \<open>dic_conn_send\<close> sends nothing and
  returns 0, the value for success.\<close>

lemma send_without_socket:
  assumes "p \<noteq> 0" "conns s p = Some c" "socks s (sockfd c) = None" "len \<noteq> SEND_STR"
  shows "dic_conn_send p message len s = Inr (0, s)"
  using assms by (simp add: dic_conn_send_def get_conn_def c_send_def)

section \<open>Witnesses for the life of a connection\<close>

theorem conn_new_destroy_witness:
  "\<exists>p t u. dic_conn_new NONE_IP_ADDR 4224 (example_net [] [] [(3000, replicate sizeof_dic_conn 0)]) = Inr (p, t) \<and>
    dic_conn_destroy p t = Inr u \<and> uninit_destroyed u = 0"
proof -
  let ?s = "example_net [] [] [(3000, replicate sizeof_dic_conn 0)]"
  have "stocked [sizeof_dic_conn] ?s" "mem_ok ?s" "socks ?s (- 1) = None" "uninit_destroyed ?s = 0"
    by (simp_all add: sizeof_dic_conn_def) (simp add: example_net_def)
  with conn_new_destroy [of ?s NONE_IP_ADDR 4224] show ?thesis by auto
qed

end
