(* ===== verification/Node_Properties.thy ===== *)
theory Node_Properties
  imports Node_Loop Socket_Properties
begin

text \<open>
  What a compute node guarantees, stated over the definitions that model the source, and concrete
  nodes on which the hypotheses of the statements hold. The example node has the example connection of
  theory Socket_Properties, at address 1000, and one object at address 2000.
\<close>

section \<open>Example nodes\<close>

definition example_node :: "byte list \<Rightarrow> byte list list \<Rightarrow> (nat \<times> byte list) list \<Rightarrow> node" where
  "example_node obj cs ch = \<lparr>blocks = [(1000, replicate 200 0), (2000, obj)], choices = ch,
     conns = [1000 \<mapsto> example_conn], socks = [5 \<mapsto> example_sock cs], fd_answers = [],
     connect_answers = [], bind_answers = [], listen_answers = [], accept_answers = [],
     uninit_destroyed = 0, hung_up = [], files = Map.empty, unwritable = (\<lambda>_. False), dl_choices = [],
     dl_open = Map.empty, dl_sym = (\<lambda>_ _. 0), thread_choices = [], threads = Map.empty\<rparr>"

text \<open>User code that never returns.\<close>

abbreviation no_user :: user_code where
  "no_user \<equiv> (\<lambda>_ _ _. None)"

text \<open>What the statements ask of these nodes.\<close>

lemma example_node_facts [simp]:
  "[] \<notin> set cs \<Longrightarrow> connected 1000 example_conn (example_sock cs) (example_node obj cs ch)"
  "obj \<noteq> [] \<Longrightarrow> length obj \<le> 1000 \<Longrightarrow> mem_ok (example_node obj cs ch)"
  "heap_of (example_node obj cs ch) = [2000 \<mapsto> obj, 1000 \<mapsto> replicate 200 0]"
  "socks (example_node obj cs ch) = [5 \<mapsto> example_sock cs]"
  "choices (example_node obj cs ch) = ch"
  "stocked ns (example_node obj cs ch) \<longleftrightarrow> serves [(1000, replicate 200 0), (2000, obj)] ns ch"
  by (auto simp: example_node_def connected_def example_conn_def example_sock_def mem_ok_def heap_of_def
      stocked_def)

lemma length_request_bytes_8: "length (request_bytes r) = 8 + length (body_bytes r)"
  by (simp add: request_bytes_def head_bytes_def layout_lengths)

section \<open>One request\<close>

text \<open>C1. A node implements its specification: when a connection is open and its stream starts with the
  bytes of a request, in whatever chunks TCP delivers them, the request is one the caller may make and
  memory can be had for the buffers (the connection is one of the objects at \<open>H\<close>, which no request may touch), then \<open>dic_node_recv_send\<close> returns 0 after exactly one well-framed
  reply; reply and effect are ones the specification \<open>exec\<close> allows, exactly the request is taken from
  the stream, and no buffer of the call is left behind.\<close>

theorem node_answers_request:
  fixes s :: node
  assumes "connected conn c k s" "\<not> sk_reset k" "concat (sk_in k) = request_bytes r @ rest"
    and "mem_ok s" "H \<subseteq> dom (heap_of s)" "stocked (8 # length (body_bytes r) # needs r) s"
    and "allowed r (view_of H s)" "conn \<in> H"
  shows "\<exists>s' rb ks. dic_node_recv_send user conn s = Inr (0, s') \<and>
    exec r (view_of H s) rb (view_of H s') \<and> mem_ok s' \<and> (\<forall>a \<in> H. heap_of s' a = heap_of s a) \<and>
    conns s' = conns s \<and> concat ks = rest \<and> [] \<notin> set ks \<and>
    socks s' = (socks s)(sockfd c \<mapsto> k\<lparr>sk_in := ks, sk_out := sk_out k @ reply_bytes rb\<rparr>)"
  using node_serves [of H conn c k r rest s user] assms by (simp add: serving_def served_def)

definition free_node :: node where
  "free_node = example_node [1, 2, 3, 4, 5, 6, 7, 8] (two_chunks (request_bytes (Free 2000)))
     [(3000, replicate 8 0), (4000, replicate 8 0), (5000, replicate 5 0)]"

theorem node_answers_request_witness:
  "\<exists>s' rb. dic_node_recv_send no_user 1000 free_node = Inr (0, s') \<and>
    exec (Free 2000) (view_of {1000} free_node) rb (view_of {1000} s') \<and>
    map_option sk_out (socks s' 5) = Some (reply_bytes rb)"
proof -
  have "\<exists>s' rb ks. dic_node_recv_send no_user 1000 free_node = Inr (0, s') \<and>
    exec (Free 2000) (view_of {1000} free_node) rb (view_of {1000} s') \<and> mem_ok s' \<and>
    (\<forall>a \<in> {1000}. heap_of s' a = heap_of free_node a) \<and> conns s' = conns free_node \<and> concat ks = [] \<and>
    [] \<notin> set ks \<and> socks s' = (socks free_node)(sockfd example_conn \<mapsto>
      (example_sock (two_chunks (request_bytes (Free 2000))))
        \<lparr>sk_in := ks, sk_out := sk_out (example_sock (two_chunks (request_bytes (Free 2000)))) @ reply_bytes rb\<rparr>)"
    by (rule node_answers_request)
      (simp_all add: free_node_def length_request_bytes_8 layout_lengths view_of_def)
  then show ?thesis by force
qed

section \<open>Streams that end and requests that fail\<close>

theorem node_body_cut_off_witness:
  "\<exists>s' body bs. dic_node_recv_send no_user 1000
      (example_node [1] [head_bytes 0 4 @ [7]] [(3000, replicate 8 0), (4000, replicate 4 0)]) = Inr (1, s') \<and>
    heap_of s' = [2000 \<mapsto> [1], 1000 \<mapsto> replicate 200 0, body \<mapsto> bs] \<and> 4 \<le> length bs"
  using node_body_cut_off [of 1000 example_conn "example_sock [head_bytes 0 4 @ [7]]"
    "example_node [1] [head_bytes 0 4 @ [7]] [(3000, replicate 8 0), (4000, replicate 4 0)]" 0 4 "[7]" no_user]
  by force

theorem node_unhandled_witness:
  "\<exists>s' ks. dic_node_recv_send no_user 1000 (example_node [1]
      (two_chunks (head_bytes (op_code DIC_SO_VERIFY) 6 @ [2, 0, 0, 0, 97, 0]))
      [(3000, replicate 8 0), (4000, replicate 6 0)]) = Inr (0, s') \<and>
    map_option sk_out (socks s' 5) = Some []"
  using node_unhandled [of "{}" 1000 example_conn
    "example_sock (two_chunks (head_bytes (op_code DIC_SO_VERIFY) 6 @ [2, 0, 0, 0, 97, 0]))"
    "op_code DIC_SO_VERIFY" "[2, 0, 0, 0, 97, 0]" "[]"
    "example_node [1] (two_chunks (head_bytes (op_code DIC_SO_VERIFY) 6 @ [2, 0, 0, 0, 97, 0]))
      [(3000, replicate 8 0), (4000, replicate 6 0)]" no_user]
  by (fastforce simp: arriving_def handled_def head_bytes_def layout_lengths)

theorem so_load_overflow_witness:
  "handle_so_load 2000 (example_node (body_bytes (So_load [97])) []
     [(3000, replicate 12 0), (4000, replicate 16 0)]) = Inl OutOfBounds"
  by (rule so_load_overflow [of _ _ "[97]" "[]"]) (simp_all add: layout_lengths)

theorem func_load_unterminated_witness:
  "handle_func_load 2000 (example_node (enc_dic_req_func_load \<lparr>req_func_load_so_handle = 0,
     req_func_load_symlen = word_of_nat (length [102])\<rparr> @ [102]) [] [(3000, replicate 12 0)]) = Inl OutOfBounds"
  by (rule func_load_unterminated [of _ _ 0 "[102]"]) (simp_all add: layout_lengths)

section \<open>A session\<close>

text \<open>Running the node on a concrete state: every step is rewriting.\<close>

lemmas run_node_simps =
  dic_node_recv_send_def c_alloca_def c_malloc_def sizeof_dic_req_head_generic_def dic_conn_recv_def
  get_conn_def tcp_recv_n_def tcp_recv_loop.simps c_recv_def store_def load_def load_word_def
  store_word_def size_of_int_small set_in_def dispatch_def RESP_BUILDER_INIT_def
  RESP_BUILDER_INIT_DYNAMIC_def RESP_HEAD_SIZE_def sizeof_dic_resp_head_generic_def RESP_SET_HEAD_def
  resp_body_def dic_conn_send_def c_send_def c_free_def drop_block_def del_block_def SEND_STR_def
  c_minus1_def dec_word_def enc_word_def le_bytes_numeral request_bytes_def head_bytes_def
  enc_dic_req_head_generic_def patch_def stocked_def two_chunks_def
  example_node_def example_sock_def example_conn_def

definition session_node :: node where
  "session_node = example_node [1, 2] (two_chunks (request_bytes (Free 2000)))
     [(3000, replicate 8 0), (4000, replicate 8 0), (5000, replicate 5 0), (6000, replicate 8 0)]"

lemma session_node_ok: "session_ok no_user {1000} 1000 [Free 2000] session_node"
proof -
  have "dic_node_recv_send no_user 1000 session_node = Inr (0, s') \<longrightarrow> stocked [8] s'" for s'
    by (simp add: session_node_def run_node_simps handle_free_def sizeof_dic_resp_free_def
        enc_dic_req_free_def) auto
  then show ?thesis by (simp add: session_node_def layout_lengths view_of_def)
qed

theorem session_served_witness:
  "\<exists>s' rbs. client_handling_loop no_user 1000 session_node = Some (Inr (1, s')) \<and>
    execs [Free 2000] (view_of {1000} session_node) rbs (view_of {1000} s') \<and>
    map (sk_out \<circ> snd) (hung_up s') = [concat (map reply_bytes rbs)]"
proof -
  let ?k = "example_sock (two_chunks (request_bytes (Free 2000)))"
  have pre: "connected 1000 example_conn ?k session_node" "mem_ok session_node"
    "{1000} \<subseteq> dom (heap_of session_node)" "concat (sk_in ?k) = concat (map request_bytes [Free 2000])" "hung_up session_node = []"
    by (simp_all add: session_node_def length_request_bytes_8 layout_lengths) (simp add: example_node_def)
  from session_served [OF session_node_ok pre(1) example_sock_fields(3,2) pre(4,2,3) singletonI] obtain s' rbs where
    "client_handling_loop no_user 1000 session_node = Some (Inr (1, s'))"
    "execs [Free 2000] (view_of {1000} session_node) rbs (view_of {1000} s')"
    "hung_up s' = (sockfd example_conn, ?k\<lparr>sk_in := [], sk_out := sk_out ?k @ concat (map reply_bytes rbs)\<rparr>) # hung_up session_node"
    by blast
  moreover from this(3) have "map (sk_out \<circ> snd) (hung_up s') = [concat (map reply_bytes rbs)]"
    unfolding pre(5) by simp
  ultimately show ?thesis by (intro exI conjI)
qed

end
