(* ===== verification/Client_Properties.thy ===== *)
theory Client_Properties
  imports Rpc Node_Properties
begin

text \<open>
  What an application can rely on when it calls the client library, with concrete clients on which the
  hypotheses of the statements hold. The example client has the connection of the example node at
  address 1000, one object at address 2000 and one local file.
\<close>

section \<open>Example clients\<close>

definition example_client ::
  "byte list \<Rightarrow> byte list list \<Rightarrow> (nat \<times> byte list) list \<Rightarrow> client" where
  "example_client obj cs ch = \<lparr>blocks = [(1000, replicate 200 0), (2000, obj)], choices = ch,
     conns = [1000 \<mapsto> example_conn], socks = [5 \<mapsto> example_sock cs], fd_answers = [],
     connect_answers = [], bind_answers = [], listen_answers = [], accept_answers = [],
     uninit_destroyed = 0, hung_up = [], local_files = [[97] \<mapsto> [1, 2, 3]]\<rparr>"

lemma example_client_facts [simp]:
  "[] \<notin> set cs \<Longrightarrow> connected 1000 example_conn (example_sock cs) (example_client obj cs ch)"
  "obj \<noteq> [] \<Longrightarrow> length obj \<le> 1000 \<Longrightarrow> mem_ok (example_client obj cs ch)"
  "heap_of (example_client obj cs ch) = [2000 \<mapsto> obj, 1000 \<mapsto> replicate 200 0]"
  "socks (example_client obj cs ch) = [5 \<mapsto> example_sock cs]"
  "choices (example_client obj cs ch) = ch" "local_files (example_client obj cs ch) = [[97] \<mapsto> [1, 2, 3]]"
  "stocked ns (example_client obj cs ch) \<longleftrightarrow> serves [(1000, replicate 200 0), (2000, obj)] ns ch"
  by (auto simp: example_client_def connected_def example_conn_def example_sock_def mem_ok_def heap_of_def
      stocked_def)

lemma reply_bytes_nonempty [simp]: "reply_bytes rb \<noteq> []" "[] \<noteq> reply_bytes rb" "length (reply_bytes rb) = 4 + length rb"
  by (simp_all add: reply_bytes_def layout_lengths flip: length_0_conv)

lemma example_in_object [simp]:
  "n \<le> length obj \<Longrightarrow> in_object 2000 n (example_client obj cs ch)"
  by (auto simp: in_object_def intro!: exI [of _ 2000] exI [of _ 0])

section \<open>Remote memory\<close>

definition malloc_node :: node where
  "malloc_node = example_node [1] (two_chunks (request_bytes (Malloc 4)))
     [(3000, replicate 8 0), (4000, replicate 4 0), (5000, replicate 12 0), (6000, replicate 4 0)]"

theorem remote_malloc_end_to_end_witness:
  "\<exists>s' rb p t'. dic_node_recv_send no_user 1000 malloc_node = Inr (0, s') \<and>
    map_option sk_out (socks s' 5) = Some (reply_bytes rb) \<and>
    dic_rmalloc 1000 4 (example_client [1] [reply_bytes rb]
      [(3000, replicate 12 0), (4000, replicate 4 0), (5000, replicate 8 0)]) = Inr (p, t') \<and> r_device p = 1000"
proof -
  let ?k = "example_sock (two_chunks (request_bytes (Malloc 4)))"
  have "serving {1000} 1000 example_conn ?k (Malloc 4) [] malloc_node"
    by (simp add: serving_def malloc_node_def length_request_bytes_8 layout_lengths)
  from remote_malloc_end_to_end [OF this, of no_user, where 'a = "unit client_ext"] obtain s' rb ks where
    s': "dic_node_recv_send no_user 1000 malloc_node = Inr (0, s')" "length rb = 8"
      "socks s' = (socks malloc_node)(sockfd example_conn \<mapsto>
         ?k\<lparr>sk_in := ks, sk_out := sk_out ?k @ reply_bytes rb\<rparr>)"
    and call: "\<forall>(t :: client) device c' k' rest'. calling (Malloc 4) device c' k' rb rest' t \<longrightarrow>
      (\<exists>p t'. dic_rmalloc device 4 t = Inr (p, t') \<and> call_done t c' k' (request_bytes (Malloc 4)) rest' t' \<and>
        r_device p = device \<and> (IS_RNULL p \<and> view_of {1000} s' = view_of {1000} malloc_node \<or>
         heap_of malloc_node (unat (r_ptr p)) = None \<and>
         (\<exists>bs. heap_of s' (unat (r_ptr p)) = Some bs \<and> unat (4 :: u32) \<le> length bs)))" by blast
  let ?t = "example_client [1] [reply_bytes rb] [(3000, replicate 12 0), (4000, replicate 4 0), (5000, replicate 8 0)]"
  have "calling (Malloc 4) 1000 example_conn (example_sock [reply_bytes rb]) rb [] ?t"
    using s'(2) by (simp add: calling_def length_request_bytes_8 layout_lengths)
  with call obtain p t' where "dic_rmalloc 1000 4 ?t = Inr (p, t')" "r_device p = 1000" by blast
  moreover have "map_option sk_out (socks s' 5) = Some (reply_bytes rb)" using s'(3) by simp
  ultimately show ?thesis using s'(1) by blast
qed

definition place :: dic_rvoid_ptr where
  "place = \<lparr>r_ptr = 2001, r_device = 1000\<rparr>"

lemma place_fields [simp]: "r_ptr place = 2001" "r_device place = 1000"
  by (simp_all add: place_def)

lemma place_within [simp]:
  "1 + n \<le> length obj \<Longrightarrow> \<exists>a k cs. within (view_of {1000} (example_node obj cs' ch)) 2001 n a k cs"
  by (auto simp: within_def view_of_def intro!: exI [of _ 2000] exI [of _ 1] exI [of _ obj])

definition write_node :: node where
  "write_node = example_node [1, 2, 3, 4] (two_chunks (request_bytes (Memcpy_c2n 2001 [7, 8])))
     [(3000, replicate 8 0), (4000, replicate 14 0), (5000, replicate 8 0)]"

definition write_client :: client where
  "write_client = example_client [7, 8] [reply_bytes (enc_word 4 (0 :: u32))]
     [(3000, replicate 22 0), (4000, replicate 4 0), (5000, replicate 4 0)]"

theorem remote_write_end_to_end_witness:
  "\<exists>s' t'. dic_node_recv_send no_user 1000 write_node = Inr (0, s') \<and> load 2001 2 s' = Inr [7, 8] \<and>
    load 2000 1 s' = Inr [1] \<and> dic_memcpy_c2n 2000 place 2 write_client = Inr (0, t')"
proof -
  let ?k = "example_sock (two_chunks (request_bytes (Memcpy_c2n 2001 [7, 8])))"
  have "serving {1000} 1000 example_conn ?k (Memcpy_c2n (r_ptr place) [7, 8]) [] write_node"
    by (simp add: serving_def write_node_def length_request_bytes_8 layout_lengths)
  from remote_write_end_to_end [OF this singletonI, of no_user, where 'a = "unit client_ext"] obtain s' where
    s': "dic_node_recv_send no_user 1000 write_node = Inr (0, s')"
      "load (unat (r_ptr place)) (length [7, 8 :: byte]) s' = Inr [7, 8]"
    and keep: "\<forall>p n b j ds. within (view_of {1000} write_node) p n b j ds \<longrightarrow>
       unat p + n \<le> unat (r_ptr place) \<or> unat (r_ptr place) + length [7, 8 :: byte] \<le> unat p \<longrightarrow>
       load (unat p) n s' = load (unat p) n write_node"
    and call: "\<forall>(t :: client) src n c' k' rest'. client_bytes src (unat n) t = [7, 8] \<longrightarrow>
       in_object src (unat n) t \<longrightarrow> unat n < 2 ^ 30 \<longrightarrow>
       calling (Memcpy_c2n (r_ptr place) [7, 8]) (r_device place) c' k' (enc_word 4 (0 :: u32)) rest' t \<longrightarrow>
       (\<exists>t'. dic_memcpy_c2n src place n t = Inr (0, t') \<and>
          call_done t c' k' (request_bytes (Memcpy_c2n (r_ptr place) [7, 8])) rest' t')" by blast
  have "within (view_of {1000} write_node) 2000 1 2000 0 [1, 2, 3, 4]"
    by (simp add: within_def view_of_def write_node_def)
  with keep have "load (unat (2000 :: u64)) 1 s' = load (unat (2000 :: u64)) 1 write_node" by fastforce
  moreover have "load (unat (2000 :: u64)) 1 write_node = Inr [1]"
    using load_block0 [of write_node 2000 "[1, 2, 3, 4]" 1] by (simp add: write_node_def)
  moreover have "calling (Memcpy_c2n (r_ptr place) [7, 8]) (r_device place) example_conn
      (example_sock [reply_bytes (enc_word 4 (0 :: u32))]) (enc_word 4 (0 :: u32)) [] write_client"
    by (simp add: calling_def write_client_def length_request_bytes_8 layout_lengths)
  moreover have "client_bytes 2000 (unat (2 :: u32)) write_client = [7, 8]"
    using client_bytes_block [of write_client 2000 "[7, 8]" 0 2] by (simp add: write_client_def)
  moreover have "in_object 2000 (unat (2 :: u32)) write_client" by (simp add: write_client_def)
  moreover from calculation call have "\<exists>t'. dic_memcpy_c2n 2000 place 2 write_client = Inr (0, t')"
    by fastforce
  moreover have "load 2001 2 s' = Inr [7, 8]" using s'(2) by (simp flip: numeral_2_eq_2)
  ultimately show ?thesis using s'(1) by auto
qed

definition read_node :: node where
  "read_node = example_node [1, 2, 3, 4] (two_chunks (request_bytes (Memcpy_n2c 2001 2)))
     [(3000, replicate 8 0), (4000, replicate 12 0), (5000, replicate 10 0)]"

definition read_client :: client where
  "read_client = example_client [0, 0] [reply_bytes (enc_word 4 (2 :: u32) @ [2, 3])]
     [(3000, replicate 20 0), (4000, replicate 4 0), (5000, replicate 6 0)]"

theorem remote_read_end_to_end_witness:
  "\<exists>s' t'. dic_node_recv_send no_user 1000 read_node = Inr (0, s') \<and>
    map_option sk_out (socks s' 5) = Some (reply_bytes (enc_word 4 (2 :: u32) @ [2, 3])) \<and>
    dic_memcpy_n2c 2000 place 2 read_client = Inr (0, t') \<and> client_bytes 2000 2 t' = [2, 3]"
proof -
  let ?k = "example_sock (two_chunks (request_bytes (Memcpy_n2c 2001 2)))"
  have "serving {1000} 1000 example_conn ?k (Memcpy_n2c (r_ptr place) 2) [] read_node"
    by (simp add: serving_def read_node_def length_request_bytes_8 layout_lengths)
  from remote_read_end_to_end [OF this, of no_user, where 'a = "unit client_ext"] obtain s' ks v where
    s': "dic_node_recv_send no_user 1000 read_node = Inr (0, s')"
      "socks s' = (socks read_node)(sockfd example_conn \<mapsto>
        ?k\<lparr>sk_in := ks, sk_out := sk_out ?k @ reply_bytes (enc_word 4 (2 :: u32) @ v)\<rparr>)"
      "load (unat (r_ptr place)) (unat (2 :: u32)) read_node = Inr v"
    and call: "\<forall>(t :: client) dst c' k' rest'. in_object dst (unat (2 :: u32)) t \<longrightarrow>
      calling (Memcpy_n2c (r_ptr place) 2) (r_device place) c' k' (enc_word 4 (2 :: u32) @ v) rest' t \<longrightarrow>
      (\<exists>t'. dic_memcpy_n2c dst place 2 t = Inr (0, t') \<and> client_bytes dst (unat (2 :: u32)) t' = v)" by blast
  have v: "v = [2, 3]"
    using s'(3) load_block [of read_node 2000 "[1, 2, 3, 4]" 1 2] by (simp add: read_node_def)
  have "calling (Memcpy_n2c (r_ptr place) 2) (r_device place) example_conn
      (example_sock [reply_bytes (enc_word 4 (2 :: u32) @ [2, 3])]) (enc_word 4 (2 :: u32) @ [2, 3]) [] read_client"
    by (simp add: calling_def read_client_def length_request_bytes_8 layout_lengths)
  moreover have "in_object 2000 (unat (2 :: u32)) read_client" by (simp add: read_client_def)
  ultimately obtain t' where "dic_memcpy_n2c 2000 place 2 read_client = Inr (0, t')" "client_bytes 2000 2 t' = [2, 3]"
    using call unfolding v by fastforce
  with s' v show ?thesis by auto
qed

definition copy_client :: client where
  "copy_client = example_client [7, 8, 0, 0]
     [reply_bytes (enc_word 4 (0 :: u32)), reply_bytes (enc_word 4 (2 :: u32) @ [7, 8])]
     [(3000, replicate 22 0), (4000, replicate 4 0), (5000, replicate 4 0),
      (6000, replicate 20 0), (7000, replicate 4 0), (8000, replicate 6 0)]"

lemma copy_client_memory: "stocked [22, 4, 4, 20, 4, 6] copy_client"
  by (simp add: copy_client_def example_client_def stocked_def)

lemma exec_copy_in:
  "within v q (length bs) a k cs \<Longrightarrow> v' = v\<lparr>v_heap := (v_heap v)(a \<mapsto> patch cs k bs)\<rparr> \<Longrightarrow>
    exec (Memcpy_c2n q bs) v (enc_word 4 (0 :: u32)) v'"
  by auto

lemma exec_copy_out:
  "within v q (unat n) a k cs \<Longrightarrow> rb = enc_word 4 n @ take (unat n) (drop k cs) \<Longrightarrow> exec (Memcpy_n2c q n) v rb v"
  by auto

theorem copy_there_and_back_witness:
  "\<exists>s1 s2. dic_memcpy_c2n 2000 place 2 copy_client = Inr (0, s1) \<and>
    dic_memcpy_n2c 2002 place 2 s1 = Inr (0, s2) \<and> client_bytes 2002 2 s2 = [7, 8]"
proof -
  let ?v = "view_of {1000} (example_node [1, 2, 3, 4] [] [])"
  let ?w = "?v\<lparr>v_heap := (v_heap ?v)(2000 \<mapsto> [1, 7, 8, 4])\<rparr>"
  have d: "client_bytes 2000 (unat (2 :: u32)) copy_client = [7, 8]"
    using client_bytes_block [of copy_client 2000 "[7, 8, 0, 0]" 0 2] by (simp add: copy_client_def)
  have w: "within ?v 2001 2 2000 1 [1, 2, 3, 4]" "within ?w 2001 2 2000 1 [1, 7, 8, 4]"
    by (simp_all add: within_def view_of_def)
  have "exec (Memcpy_c2n 2001 [7, 8]) ?v (enc_word 4 (0 :: u32)) ?w"
    using w(1) by (intro exec_copy_in [of _ _ _ 2000 1 "[1, 2, 3, 4]"])
      (simp_all add: patch_def numeral_2_eq_2 [symmetric])
  moreover have "exec (Memcpy_n2c 2001 2) ?w (enc_word 4 (2 :: u32) @ [7, 8]) ?w"
    using w(2) by (intro exec_copy_out [of _ _ _ 2000 1 "[1, 7, 8, 4]"]) simp_all
  ultimately have "execs [Memcpy_c2n (r_ptr place) (client_bytes 2000 (unat (2 :: u32)) copy_client),
      Memcpy_n2c (r_ptr place) 2] ?v [enc_word 4 (0 :: u32), enc_word 4 (2 :: u32) @ [7, 8]] ?w"
    unfolding d by (auto simp del: exec.simps)
  moreover have "calling (Memcpy_c2n (r_ptr place) (client_bytes 2000 (unat (2 :: u32)) copy_client))
      (r_device place) example_conn (example_sock [reply_bytes (enc_word 4 (0 :: u32)),
        reply_bytes (enc_word 4 (2 :: u32) @ [7, 8])]) (enc_word 4 (0 :: u32))
      (reply_bytes (enc_word 4 (2 :: u32) @ [7, 8])) copy_client"
    unfolding d by (simp add: calling_def copy_client_def length_request_bytes_8 layout_lengths)
  moreover have "in_object 2000 (unat (2 :: u32)) copy_client" "in_object 2002 (unat (2 :: u32)) copy_client"
    by (auto simp: copy_client_def in_object_def intro!: exI [of _ 2000] exI [of _ 0] exI [of _ 2])
  moreover have "separate ?v" by (rule separate_view_of) simp
  ultimately show ?thesis
    using copy_there_and_back [of ?v place 2000 2 copy_client] copy_client_memory d by fastforce
qed
section \<open>Requests the library gets wrong\<close>

definition name_client :: client where
  "name_client = example_client [97, 0] [reply_bytes (enc_word 8 (6000 :: u64))]
     [(3000, replicate 14 0), (4000, replicate 4 0), (5000, replicate 8 0)]"

lemma name_client_text [simp]: "client_text 2000 name_client = [97]" "text_in 2000 name_client"
proof -
  show "text_in 2000 name_client"
    by (auto simp: text_in_def name_client_def intro!: exI [of _ 2000] exI [of _ 0])
  show "client_text 2000 name_client = [97]"
    using load_str_block0 [of name_client 2000 "[97, 0]" "[97]"] by (simp add: client_text_def name_client_def)
qed

theorem build_func_load_overflow_witness:
  "build_func_load place 2000 (example_client [97, 0] [] [(3000, replicate 21 0)]) = Inl OutOfBounds"
proof -
  let ?s = "example_client [97, 0] [] [(3000, replicate 21 0)]"
  have "client_text 2000 ?s = [97]"
    using load_str_block0 [of ?s 2000 "[97, 0]" "[97]"] by (simp add: client_text_def)
  moreover have "text_in 2000 ?s" by (auto simp: text_in_def intro!: exI [of _ 2000] exI [of _ 0])
  ultimately show ?thesis by (intro build_func_load_overflow) simp_all
qed

end
