(* ===== verification/Connection_Lock.thy ===== *)
theory Connection_Lock
  imports Dicon_Prelude
begin

text \<open>
  The locking of \<open>dic_atomic_send_recv\<close> (\<open>diconlib/src/client_node_communication.c\<close>): several threads
  share one connection; a call takes \<open>send_mut\<close>, sends, takes \<open>recv_mut\<close>, gives \<open>send_mut\<close> back, receives
  the head and the body of the reply, and gives \<open>recv_mut\<close> back. The node answers requests in the order
  they arrive, each with one head and one body (theory Node_Loop), until the stream ends: it can end at any time and lose
  what is on its way, and from then on requests are lost and the two receives of a call fail as soon as nothing
  is left, which the call does not notice, since it does not look at their results. Every operation the library sends is one
  the node answers; a request without an answer (theory Node_Loop, \<open>node_unhandled\<close>) would shift all replies behind it. The threads interleave freely: the
  states that can occur are the ones reachable by the step relation below.
\<close>

section \<open>Threads, locks and the stream\<close>

text \<open>Where a thread is inside \<open>dic_atomic_send_recv\<close>: after which of its statements.\<close>

datatype pc = Idle | Locked_send | Sent | Locked_both | Awaiting | Got_head | Got_body

text \<open>A call is identified by its thread and its number; the stream back from the node is a sequence of
  heads and bodies.\<close>

type_synonym call = "nat \<times> nat"
datatype token = Head call | Body call

record chan =
  send_mut :: "nat option"
  recv_mut :: "nat option"
  at :: "nat \<Rightarrow> pc"
  calls :: "nat \<Rightarrow> nat"
  to_node :: "call list"
  from_node :: "token list"
  ended :: bool
  head_got :: "nat \<Rightarrow> token option"
  body_got :: "nat \<Rightarrow> token option"

definition start :: chan where
  "start = \<lparr>send_mut = None, recv_mut = None, at = (\<lambda>_. Idle), calls = (\<lambda>_. 0), to_node = [],
     from_node = [], ended = False, head_got = (\<lambda>_. None), body_got = (\<lambda>_. None)\<rparr>"

datatype event = Begin nat | Send nat | Take_recv nat | Drop_send nat | Recv_head nat | Recv_body nat
  | Return nat | Answer | Hang_up

inductive step :: "chan \<Rightarrow> event \<Rightarrow> chan \<Rightarrow> bool" where
  begin_call: "at s t = Idle \<Longrightarrow> send_mut s = None \<Longrightarrow>
    step s (Begin t) (s\<lparr>send_mut := Some t, at := (at s)(t := Locked_send),
      calls := (calls s)(t := calls s t + 1)\<rparr>)"
| send_request: "at s t = Locked_send \<Longrightarrow>
    step s (Send t) (s\<lparr>at := (at s)(t := Sent), 
      to_node := if ended s then to_node s else to_node s @ [(t, calls s t)]\<rparr>)"
| take_recv: "at s t = Sent \<Longrightarrow> recv_mut s = None \<Longrightarrow>
    step s (Take_recv t) (s\<lparr>recv_mut := Some t, at := (at s)(t := Locked_both)\<rparr>)"
| drop_send: "at s t = Locked_both \<Longrightarrow>
    step s (Drop_send t) (s\<lparr>send_mut := None, at := (at s)(t := Awaiting)\<rparr>)"
| recv_head: "at s t = Awaiting \<Longrightarrow> from_node s = x # xs \<Longrightarrow>
    step s (Recv_head t) (s\<lparr>at := (at s)(t := Got_head), from_node := xs,
      head_got := (head_got s)(t := Some x)\<rparr>)"
| recv_head_fails: "at s t = Awaiting \<Longrightarrow> from_node s = [] \<Longrightarrow> ended s \<Longrightarrow>
    step s (Recv_head t) (s\<lparr>at := (at s)(t := Got_head), head_got := (head_got s)(t := None)\<rparr>)"
| recv_body: "at s t = Got_head \<Longrightarrow> from_node s = x # xs \<Longrightarrow>
    step s (Recv_body t) (s\<lparr>at := (at s)(t := Got_body), from_node := xs,
      body_got := (body_got s)(t := Some x)\<rparr>)"
| recv_body_fails: "at s t = Got_head \<Longrightarrow> from_node s = [] \<Longrightarrow> ended s \<Longrightarrow>
    step s (Recv_body t) (s\<lparr>at := (at s)(t := Got_body), body_got := (body_got s)(t := None)\<rparr>)"
| return: "at s t = Got_body \<Longrightarrow>
    step s (Return t) (s\<lparr>recv_mut := None, at := (at s)(t := Idle)\<rparr>)"
| answer: "to_node s = x # xs \<Longrightarrow>
    step s Answer (s\<lparr>to_node := xs, from_node := from_node s @ [Head x, Body x]\<rparr>)"
| hang_up: "\<not> ended s \<Longrightarrow> from_node s = ys @ zs \<Longrightarrow>
    step s Hang_up (s\<lparr>ended := True, to_node := [], from_node := ys\<rparr>)"

inductive reachable :: "chan \<Rightarrow> bool" where
  initially: "reachable start"
| onward: "reachable s \<Longrightarrow> step s e s' \<Longrightarrow> reachable s'"

inductive_cases stepE: "step s e s'"

section \<open>The invariant\<close>

definition reply_of :: "call \<Rightarrow> token list" where
  "reply_of x = [Head x, Body x]"

text \<open>What is still to come: replies on the way, then replies to requests on the way.\<close>

definition upcoming :: "chan \<Rightarrow> token list" where
  "upcoming s = from_node s @ concat (map reply_of (to_node s))"

text \<open>What has to come: the rest of the reply for the thread that holds \<open>recv_mut\<close>, then the reply for
  the thread that holds \<open>send_mut\<close> and has sent.\<close>

definition due_recv :: "chan \<Rightarrow> token list" where
  "due_recv s = (case recv_mut s of
     None \<Rightarrow> []
   | Some t \<Rightarrow> (case at s t of
        Got_head \<Rightarrow> [Body (t, calls s t)] | Got_body \<Rightarrow> [] | _ \<Rightarrow> reply_of (t, calls s t)))"

definition due_send :: "chan \<Rightarrow> token list" where
  "due_send s = (case send_mut s of
     None \<Rightarrow> [] | Some t \<Rightarrow> if at s t = Sent then reply_of (t, calls s t) else [])"

fun holds_send :: "pc \<Rightarrow> bool" where
  "holds_send Locked_send = True" | "holds_send Sent = True" | "holds_send Locked_both = True"
| "holds_send _ = False"

fun holds_recv :: "pc \<Rightarrow> bool" where
  "holds_recv Locked_both = True" | "holds_recv Awaiting = True" | "holds_recv Got_head = True"
| "holds_recv Got_body = True" | "holds_recv _ = False"

definition owners :: "chan \<Rightarrow> bool" where
  "owners s \<longleftrightarrow> (\<forall>t. send_mut s = Some t \<longleftrightarrow> holds_send (at s t)) \<and>
     (\<forall>t. recv_mut s = Some t \<longleftrightarrow> holds_recv (at s t))"

text \<open>Once the stream has ended, only a first part of it comes.\<close>

definition in_step :: "chan \<Rightarrow> bool" where
  "in_step s \<longleftrightarrow> (if ended s then to_node s = [] \<and> (\<exists>zs. due_recv s @ due_send s = from_node s @ zs)
     else upcoming s = due_recv s @ due_send s)"

definition own_reply :: "chan \<Rightarrow> bool" where
  "own_reply s \<longleftrightarrow>
     (\<forall>t. at s t = Got_head \<or> at s t = Got_body \<longrightarrow>
        head_got s t = Some (Head (t, calls s t)) \<or> ended s \<and> head_got s t = None) \<and>
     (\<forall>t. at s t = Got_body \<longrightarrow> body_got s t = Some (Body (t, calls s t)) \<or> ended s \<and> body_got s t = None)"

definition lock_inv :: "chan \<Rightarrow> bool" where
  "lock_inv s \<longleftrightarrow> owners s \<and> in_step s \<and> own_reply s"

lemmas due_defs = due_recv_def due_send_def upcoming_def reply_of_def

lemma lock_inv_start: "lock_inv start"
  by (simp add: lock_inv_def owners_def in_step_def own_reply_def start_def due_defs)

lemma owners_holder:
  assumes "owners s"
  shows "holds_send (at s t) \<Longrightarrow> send_mut s = Some t" "holds_recv (at s t) \<Longrightarrow> recv_mut s = Some t"
  using assms by (simp_all add: owners_def)

lemma owners_step:
  assumes o: "owners s" and st: "step s e s'"
  shows "owners s'"
  using st
proof cases
  case (begin_call t)
  with o show ?thesis by (auto simp: owners_def)
next
  case (send_request t)
  with o owners_holder [OF o, of t] show ?thesis by (auto simp: owners_def)
next
  case (take_recv t)
  with o owners_holder [OF o, of t] show ?thesis by (auto simp: owners_def)
next
  case (drop_send t)
  with o owners_holder [OF o, of t] show ?thesis by (auto simp: owners_def)
next
  case (recv_head t x xs)
  with o owners_holder [OF o, of t] show ?thesis by (auto simp: owners_def)
next
  case (recv_body t x xs)
  with o owners_holder [OF o, of t] show ?thesis by (auto simp: owners_def)
next
  case (return t)
  with o owners_holder [OF o, of t] show ?thesis by (auto simp: owners_def)
next
  case (answer x xs)
  with o show ?thesis by (simp add: owners_def)
next
  case (recv_head_fails t)
  with o owners_holder [OF o, of t] show ?thesis by (auto simp: owners_def)
next
  case (recv_body_fails t)
  with o owners_holder [OF o, of t] show ?thesis by (auto simp: owners_def)
next
  case (hang_up ys zs)
  with o show ?thesis by (simp add: owners_def)
qed

text \<open>A thread that holds no lock, or neither of the two positions that matter, is not seen by the dues.\<close>

lemma in_step_step:
  assumes o: "owners s" and i: "in_step s" and st: "step s e s'"
  shows "in_step s'"
  using st
proof cases
  case (begin_call t)
  moreover from this o have "recv_mut s \<noteq> Some t" by (simp add: owners_def)
  ultimately show ?thesis using i by (auto simp: in_step_def due_defs split: option.splits pc.splits)
next
  case (send_request t)
  moreover from this o have "recv_mut s \<noteq> Some t" by (simp add: owners_def)
  ultimately have "due_recv s' = due_recv s" "due_send s = []" "due_send s' = reply_of (t, calls s t)"
    "upcoming s' = (if ended s then upcoming s else upcoming s @ reply_of (t, calls s t))"
    "ended s' = ended s" "from_node s' = from_node s" "ended s \<Longrightarrow> to_node s' = to_node s"
    using owners_holder [OF o, of t] by (auto simp: due_recv_def due_send_def upcoming_def split: option.split pc.split)
  with i show ?thesis by (auto simp: in_step_def)
next
  case (take_recv t)
  with i owners_holder [OF o, of t] show ?thesis by (simp add: in_step_def due_defs split: if_splits)
next
  case (drop_send t)
  with i owners_holder [OF o, of t] show ?thesis by (simp add: in_step_def due_defs split: if_splits)
next
  case (recv_head t x xs)
  moreover from this o have "send_mut s \<noteq> Some t" by (simp add: owners_def)
  ultimately show ?thesis using i owners_holder [OF o, of t]
    by (auto simp: in_step_def due_defs split: option.splits pc.splits)
next
  case (recv_body t x xs)
  moreover from this o have "send_mut s \<noteq> Some t" by (simp add: owners_def)
  ultimately show ?thesis using i owners_holder [OF o, of t]
    by (auto simp: in_step_def due_defs split: option.splits pc.splits)
next
  case (return t)
  moreover from this o have "send_mut s \<noteq> Some t" by (simp add: owners_def)
  ultimately show ?thesis using i owners_holder [OF o, of t]
    by (auto simp: in_step_def due_defs split: option.splits pc.splits)
next
  case (answer x xs)
  then have "due_recv s' = due_recv s" "due_send s' = due_send s" "upcoming s' = upcoming s"
    by (simp_all add: due_defs split: option.split pc.split)
  moreover have "\<not> ended s" using i answer by (auto simp: in_step_def)
  ultimately show ?thesis using i answer by (simp add: in_step_def)
next
  case (recv_head_fails t)
  then show ?thesis using i by (simp add: in_step_def)
next
  case (recv_body_fails t)
  then show ?thesis using i by (simp add: in_step_def)
next
  case (hang_up ys zs)
  then have "due_recv s' = due_recv s" "due_send s' = due_send s" by (simp_all add: due_recv_def due_send_def split: option.split pc.split)
  moreover have "due_recv s @ due_send s = ys @ (zs @ concat (map reply_of (to_node s)))" using i hang_up by (simp add: in_step_def upcoming_def)
  ultimately show ?thesis using hang_up by (auto simp: in_step_def)
qed

lemma next_token:
  assumes "owners s" "in_step s" "from_node s = x # xs"
  shows "at s t = Awaiting \<Longrightarrow> x = Head (t, calls s t)" "at s t = Got_head \<Longrightarrow> x = Body (t, calls s t)"
  using assms owners_holder [OF assms(1), of t] by (auto simp: in_step_def due_defs split: if_splits)

lemma own_reply_step:
  assumes o: "owners s" and i: "in_step s" and r: "own_reply s" and st: "step s e s'"
  shows "own_reply s'"
  using st
proof cases
  case (recv_head t x xs)
  with r next_token(1) [OF o i] show ?thesis by (auto simp: own_reply_def)
next
  case (recv_body t x xs)
  with r next_token(2) [OF o i] show ?thesis by (auto simp: own_reply_def)
qed (use r in \<open>auto simp: own_reply_def\<close>)

lemma lock_inv_step: "lock_inv s \<Longrightarrow> step s e s' \<Longrightarrow> lock_inv s'"
  unfolding lock_inv_def using owners_step in_step_step own_reply_step by blast

lemma reachable_lock_inv: "reachable s \<Longrightarrow> lock_inv s"
  by (induction rule: reachable.induct) (auto intro: lock_inv_start lock_inv_step)

section \<open>What the locking gives\<close>

text \<open>C10. Threads that share a connection do not get each other's replies: in every reachable state, a
  thread that has been through both receives has the head and the body of the reply to its own current call; when the stream has
  ended it may have missed one of them, but never has it anything else.\<close>

theorem reachable_own_reply:
  assumes "reachable s" "at s t = Got_body"
  shows "if ended s
    then head_got s t \<in> {None, Some (Head (t, calls s t))} \<and> body_got s t \<in> {None, Some (Body (t, calls s t))}
    else head_got s t = Some (Head (t, calls s t)) \<and> body_got s t = Some (Body (t, calls s t))"
  using reachable_lock_inv [OF assms(1)] assms(2) by (auto simp: lock_inv_def own_reply_def)

lemma upcoming_source:
  assumes "upcoming s \<noteq> []"
  obtains x xs where "from_node s = x # xs" | x xs where "to_node s = x # xs"
  using assms by (cases "from_node s"; cases "to_node s") (auto simp: upcoming_def)

text \<open>While a call is under way, a thread that is inside a call, or the node, can move.\<close>

lemma can_move:
  assumes "reachable s" "at s t \<noteq> Idle"
  shows "\<exists>e s'. step s e s' \<and> (\<forall>u. e \<noteq> Begin u)"
proof -
  from reachable_lock_inv [OF assms(1)] have o: "owners s" and i: "in_step s" by (simp_all add: lock_inv_def)
  show ?thesis
  proof (cases "recv_mut s")
    case (Some u)
    with o have "holds_recv (at s u)" unfolding owners_def by blast
    then consider "at s u = Locked_both" | "at s u = Awaiting" | "at s u = Got_head" | "at s u = Got_body"
      by (cases "at s u") auto
    then show ?thesis
    proof cases
      case 1
      from drop_send [OF 1] show ?thesis by blast
    next
      case 2
      with Some i have "ended s \<or> upcoming s \<noteq> []" by (auto simp: in_step_def due_recv_def reply_of_def split: if_splits)
      then consider x xs where "from_node s = x # xs" | x xs where "to_node s = x # xs" | "ended s" "from_node s = []"
        by (metis upcoming_source list.exhaust)
      then show ?thesis using recv_head [OF 2] recv_head_fails [OF 2] answer by cases blast+
    next
      case 3
      with Some i have "ended s \<or> upcoming s \<noteq> []" by (auto simp: in_step_def due_recv_def reply_of_def split: if_splits)
      then consider x xs where "from_node s = x # xs" | x xs where "to_node s = x # xs" | "ended s" "from_node s = []"
        by (metis upcoming_source list.exhaust)
      then show ?thesis using recv_body [OF 3] recv_body_fails [OF 3] answer by cases blast+
    next
      case 4
      from return [OF 4] show ?thesis by blast
    qed
  next
    case None
    with o have "\<not> holds_recv (at s t)" by (simp add: owners_def)
    with assms(2) consider "at s t = Locked_send" | "at s t = Sent" by (cases "at s t") auto
    then show ?thesis
    proof cases
      case 1
      from send_request [OF 1] show ?thesis by blast
    next
      case 2
      from take_recv [OF 2 None] show ?thesis by blast
    qed
  qed
qed

lemma reachable_to_node: "reachable s \<Longrightarrow> length (to_node s) \<le> 2"
proof -
  assume "reachable s"
  then have "in_step s" using reachable_lock_inv by (simp add: lock_inv_def)
  then consider "to_node s = []" | "upcoming s = due_recv s @ due_send s" by (auto simp: in_step_def split: if_splits)
  then show ?thesis
  proof cases
    case 2
    moreover have "length (due_recv s @ due_send s) \<le> 4"
      by (auto simp: due_recv_def due_send_def reply_of_def split: option.splits pc.splits)
    moreover have "length (upcoming s) = length (from_node s) + 2 * length (to_node s)"
      by (simp add: upcoming_def length_concat comp_def reply_of_def sum_list_triv)
    ultimately show ?thesis by simp
  qed simp
qed

text \<open>C12. The two locks let one call be sent while another waits for its reply, and no more: never more than
  two requests are on their way to the node.\<close>

theorem in_flight_bound: "reachable s \<Longrightarrow> length (to_node s) \<le> 2"
  by (rule reachable_to_node)

section \<open>Every call returns\<close>

text \<open>Steps of calls under way and of the node; no call begins.\<close>

inductive quiet_run :: "chan \<Rightarrow> nat \<Rightarrow> chan \<Rightarrow> bool" where
  quiet_stop: "quiet_run s 0 s"
| quiet_step: "quiet_run s n s' \<Longrightarrow> step s' e s'' \<Longrightarrow> (\<forall>t. e \<noteq> Begin t) \<Longrightarrow> quiet_run s (Suc n) s''"

fun steps_left :: "pc \<Rightarrow> nat" where
  "steps_left Idle = 0" | "steps_left Locked_send = 9" | "steps_left Sent = 7" | "steps_left Locked_both = 3"
| "steps_left Awaiting = 3" | "steps_left Got_head = 2" | "steps_left Got_body = 1"

lemma steps_left_bound: "steps_left c \<le> 9"
  by (cases c) simp_all

definition holder_left :: "chan \<Rightarrow> nat option \<Rightarrow> nat" where
  "holder_left s h = (case h of None \<Rightarrow> 0 | Some t \<Rightarrow> steps_left (at s t))"

definition work :: "chan \<Rightarrow> nat" where
  "work s = holder_left s (send_mut s) + holder_left s (recv_mut s) + length (to_node s) +
     (if ended s then 0 else 1)"

lemma work_step:
  assumes o: "owners s" and st: "step s e s'" and e: "\<forall>t. e \<noteq> Begin t"
  shows "work s' < work s"
  using st
proof cases
  case (begin_call t)
  with e show ?thesis by simp
next
  case (send_request t)
  moreover from this o have "recv_mut s \<noteq> Some t" by (simp add: owners_def)
  ultimately show ?thesis using owners_holder(1) [OF o, of t]
    by (auto simp: work_def holder_left_def split: option.splits)
next
  case (take_recv t)
  with owners_holder(1) [OF o, of t] show ?thesis by (simp add: work_def holder_left_def)
next
  case (drop_send t)
  with owners_holder [OF o, of t] show ?thesis by (simp add: work_def holder_left_def)
next
  case (recv_head t x xs)
  moreover from this o have "send_mut s \<noteq> Some t" by (simp add: owners_def)
  ultimately show ?thesis using owners_holder(2) [OF o, of t]
    by (auto simp: work_def holder_left_def split: option.splits)
next
  case (recv_body t x xs)
  moreover from this o have "send_mut s \<noteq> Some t" by (simp add: owners_def)
  ultimately show ?thesis using owners_holder(2) [OF o, of t]
    by (auto simp: work_def holder_left_def split: option.splits)
next
  case (return t)
  moreover from this o have "send_mut s \<noteq> Some t" by (simp add: owners_def)
  ultimately show ?thesis using owners_holder(2) [OF o, of t]
    by (auto simp: work_def holder_left_def split: option.splits)
next
  case (answer x xs)
  then show ?thesis by (simp add: work_def holder_left_def split: option.split)
next
  case (recv_head_fails t)
  moreover from this o have "send_mut s \<noteq> Some t" by (simp add: owners_def)
  ultimately show ?thesis using owners_holder(2) [OF o, of t]
    by (auto simp: work_def holder_left_def split: option.splits)
next
  case (recv_body_fails t)
  moreover from this o have "send_mut s \<noteq> Some t" by (simp add: owners_def)
  ultimately show ?thesis using owners_holder(2) [OF o, of t]
    by (auto simp: work_def holder_left_def split: option.splits)
next
  case (hang_up ys zs)
  then show ?thesis by (simp add: work_def holder_left_def split: option.split)
qed

lemma quiet_run_work:
  "quiet_run s n s' \<Longrightarrow> reachable s \<Longrightarrow> reachable s' \<and> work s' + n \<le> work s"
proof (induction rule: quiet_run.induct)
  case (quiet_step s n s' e s'')
  then have "owners s'" using reachable_lock_inv by (auto simp: lock_inv_def)
  from work_step [OF this quiet_step(2,3)] quiet_step show ?case by (auto intro: onward)
qed simp

lemma work_bound:
  assumes "reachable s"
  shows "work s \<le> 15"
proof -
  have o: "owners s" using reachable_lock_inv [OF assms] by (simp add: lock_inv_def)
  have "holder_left s (send_mut s) \<le> 9"
    using steps_left_bound by (simp add: holder_left_def split: option.split)
  moreover have "holder_left s (recv_mut s) \<le> 3"
  proof (cases "recv_mut s")
    case (Some t)
    with o have "holds_recv (at s t)" unfolding owners_def by blast
    with Some show ?thesis by (cases "at s t") (simp_all add: holder_left_def)
  qed (simp add: holder_left_def)
  ultimately show ?thesis using reachable_to_node [OF assms] by (simp add: work_def)
qed

text \<open>C11. Every call under way returns: from any reachable state the threads and the node can make at most
  15 steps without a new call (one of them the end of the stream), and when they can make none, every thread has returned, whether its reply came or
  the stream ended.\<close>

theorem calls_return:
  assumes "reachable s" "quiet_run s n s'"
  shows "n \<le> 15 \<and> ((\<forall>e s''. step s' e s'' \<longrightarrow> (\<exists>t. e = Begin t)) \<longrightarrow> (\<forall>t. at s' t = Idle))"
proof -
  from quiet_run_work [OF assms(2,1)] work_bound [OF assms(1)] have "reachable s'" "n \<le> 15" by auto
  with can_move [of s'] show ?thesis by blast
qed

section \<open>A schedule\<close>

text \<open>Thread 0 is answered while thread 1 has already sent.\<close>

definition two_calls :: chan where
  "two_calls = \<lparr>send_mut = Some 1, recv_mut = Some 0, at = (\<lambda>_. Idle)(0 := Got_body, 1 := Sent),
     calls = (\<lambda>_. 0)(0 := 1, 1 := 1), to_node = [(1, 1)], from_node = [], ended = False,
     head_got = (\<lambda>_. None)(0 := Some (Head (0, 1))), body_got = (\<lambda>_. None)(0 := Some (Body (0, 1)))\<rparr>"

lemma two_calls_reachable: "reachable two_calls"
proof -
  note s1 = onward [OF reachable.initially begin_call [of start 0], unfolded start_def, simplified]
  note s2 = onward [OF s1 send_request [where t = 0], simplified]
  note s3 = onward [OF s2 take_recv [where t = 0], simplified]
  note s4 = onward [OF s3 drop_send [where t = 0], simplified]
  note s5 = onward [OF s4 answer, simplified]
  note s6 = onward [OF s5 begin_call [where t = 1], simplified]
  note s7 = onward [OF s6 recv_head [where t = 0], simplified]
  note s8 = onward [OF s7 send_request [where t = 1], simplified]
  note s9 = onward [OF s8 recv_body [where t = 0], simplified]
  from s9 show ?thesis by (simp add: two_calls_def fun_upd_twist)
qed


theorem reachable_own_reply_witness:
  "reachable two_calls \<and> head_got two_calls 0 = Some (Head (0, 1)) \<and> body_got two_calls 0 = Some (Body (0, 1))"
proof -
  have "at two_calls 0 = Got_body" "calls two_calls 0 = 1" "\<not> ended two_calls" by (simp_all add: two_calls_def)
  with reachable_own_reply [OF two_calls_reachable, of 0] two_calls_reachable show ?thesis by simp
qed

theorem in_flight_bound_witness: "reachable two_calls \<and> length (to_node two_calls) \<le> 2"
  using in_flight_bound [OF two_calls_reachable] two_calls_reachable by simp

theorem calls_return_witness:
  "\<exists>s'. quiet_run two_calls 1 s' \<and> (1 :: nat) \<le> 15 \<and> \<not> (\<forall>e s''. step s' e s'' \<longrightarrow> (\<exists>t. e = Begin t))"
proof -
  let ?s = "two_calls\<lparr>recv_mut := None, at := (at two_calls)(0 := Idle)\<rparr>"
  have "at two_calls 0 = Got_body" by (simp add: two_calls_def)
  from quiet_step [OF quiet_stop return [OF this]] have run: "quiet_run two_calls 1 ?s" by simp
  have "at ?s 1 \<noteq> Idle" by (simp add: two_calls_def)
  with calls_return [OF two_calls_reachable run] run show ?thesis by blast
qed

end
