(* ===== verification/Main_Server.thy ===== *)
theory Main_Server
  imports Protocol
begin

text \<open>
  The main server, \<open>main-server/src/main.c\<close>: compute nodes announce themselves and are kept in a doubly
  linked list while their connection lasts; clients ask for the list. The server is a process with a
  network, extended with the global \<open>NODES_INFO\<close> and the list nodes, which are kept in a table under
  the addresses \<open>malloc\<close> gave them. The handlers run under the mutex \<open>NODES_INFO_MUT\<close>, so they are
  atomic with respect to each other; the mutex itself, and what happens when its holder waits, is modelled in theory Main_Mutex.

  The walks along the list are partial functions: a cyclic list would make them run forever, which is
  the value \<open>None\<close>. For the well-linked lists of the server they are shown to end.
\<close>

section \<open>State\<close>

record linked_list_node_info =
  ll_info :: dic_node_info
  ll_prev :: nat
  ll_next :: nat

definition sizeof_linked_list_node_info :: nat where "sizeof_linked_list_node_info = 40"

type_synonym ll_table = "nat \<rightharpoonup> linked_list_node_info"

record main_server = net +
  NODES_INFO :: nat
  infos :: ll_table

definition ll_node :: "ll_table \<Rightarrow> nat \<Rightarrow> linked_list_node_info res" where
  "ll_node m p =
     (if p = 0 then Inl NullDeref else case m p of None \<Rightarrow> Inl OutOfBounds | Some n \<Rightarrow> Inr n)"

section \<open>The list\<close>

partial_function (option) last_info :: "ll_table \<Rightarrow> nat \<Rightarrow> nat res option" where
  "last_info m curr_node =
     (case ll_node m curr_node of
        Inl e \<Rightarrow> Some (Inl e)
      | Inr n \<Rightarrow> if ll_next n \<noteq> 0 then last_info m (ll_next n) else Some (Inr curr_node))"

text \<open>The new node's \<open>prev\<close> is written before anything reads it.\<close>

definition append_info :: "dic_node_info \<Rightarrow> 'a main_server_scheme \<Rightarrow> (nat \<times> 'a main_server_scheme) res option" where
  "append_info info s =
     (let (new_node, s1) = c_malloc sizeof_linked_list_node_info s in
      if new_node = 0 then Some (Inl NullDeref)
      else if NODES_INFO s1 \<noteq> 0 then
        bindO (last_info (infos s1) (NODES_INFO s1)) (\<lambda>curr_node.
        bindO (Some (ll_node (infos s1) curr_node)) (\<lambda>n.
          Some (Inr (new_node, s1\<lparr>infos := (infos s1)
            (curr_node \<mapsto> n\<lparr>ll_next := new_node\<rparr>,
             new_node \<mapsto> \<lparr>ll_info = info, ll_prev = curr_node, ll_next = 0\<rparr>)\<rparr>))))
      else
        Some (Inr (new_node, s1\<lparr>NODES_INFO := new_node,
          infos := (infos s1)(new_node \<mapsto> \<lparr>ll_info = info, ll_prev = 0, ll_next = 0\<rparr>)\<rparr>)))"

definition remove_info :: "nat \<Rightarrow> 'a main_server_scheme \<Rightarrow> 'a main_server_scheme res" where
  "remove_info to_remove s =
     bindR (ll_node (infos s) to_remove) (\<lambda>n.
     bindR (if ll_next n \<noteq> 0
            then bindR (ll_node (infos s) (ll_next n)) (\<lambda>x.
                   Inr (s\<lparr>infos := (infos s)(ll_next n \<mapsto> x\<lparr>ll_prev := ll_prev n\<rparr>)\<rparr>))
            else Inr s) (\<lambda>s1.
     bindR (ll_node (infos s1) to_remove) (\<lambda>n1.
     bindR (if ll_prev n1 \<noteq> 0
            then bindR (ll_node (infos s1) (ll_prev n1)) (\<lambda>x.
                   Inr (s1\<lparr>infos := (infos s1)(ll_prev n1 \<mapsto> x\<lparr>ll_next := ll_next n1\<rparr>)\<rparr>))
            else Inr (s1\<lparr>NODES_INFO := 0\<rparr>)) (\<lambda>s2.
     bindR (c_free to_remove s2) (\<lambda>s3.
       Inr (s3\<lparr>infos := (infos s3)(to_remove := None)\<rparr>))))))"

section \<open>The handlers\<close>

text \<open>\<open>handle_push_info\<close> receives \<open>body_size\<close> bytes, as the peer says, into a structure of four bytes; the
  result of the receive is not looked at.\<close>

definition handle_push_info ::
  "nat \<Rightarrow> u32 \<Rightarrow> 'a main_server_scheme \<Rightarrow> (nat \<times> 'a main_server_scheme) res option" where
  "handle_push_info conn body_size s =
     bindO (Some (c_alloca sizeof_dic_req_announce_info s)) (\<lambda>(body, s1).
     bindO (Some (dic_conn_recv conn body body_size False s1)) (\<lambda>(_, s2).
     bindO (Some (get_conn conn s2)) (\<lambda>c.
     bindO (Some (load_word 4 body s2)) (\<lambda>cores.
     bindO (Some (c_alloca sizeof_dic_resp_announce_info s2)) (\<lambda>(resp_body, s3).
     bindO (Some (store_word 4 resp_body (0 :: u32) s3)) (\<lambda>s4.
     bindO (Some (c_alloca sizeof_dic_main_server_resp_head_generic s4)) (\<lambda>(resp_head, s5).
     bindO (Some (store_word 4 resp_head (word_of_nat sizeof_dic_resp_announce_info :: u32) s5)) (\<lambda>s6.
     bindO (Some (dic_conn_send conn resp_head (word_of_nat sizeof_dic_main_server_resp_head_generic) s6)) (\<lambda>(_, s7).
     bindO (Some (load_word 4 resp_head s7)) (\<lambda>n.
     bindO (Some (dic_conn_send conn resp_body n s7)) (\<lambda>(_, s8).
     bindO (append_info \<lparr>address = ip c, core_count = cores\<rparr> s8) (\<lambda>(conn_info, s9).
       Some (Inr (conn_info, del_block body (del_block resp_head (del_block resp_body s9))))))))))))))))"

partial_function (option) count_infos :: "ll_table \<Rightarrow> nat \<Rightarrow> c_int \<Rightarrow> c_int res option" where
  "count_infos m curr_node len =
     (case ll_node m curr_node of
        Inl e \<Rightarrow> Some (Inl e)
      | Inr n \<Rightarrow> if ll_next n \<noteq> 0 then count_infos m (ll_next n) (len + 1) else Some (Inr len))"

fun copy_infos :: "nat \<Rightarrow> nat \<Rightarrow> nat \<Rightarrow> nat \<Rightarrow> 'a main_server_scheme \<Rightarrow> 'a main_server_scheme res" where
  "copy_infos res_body i 0 curr_node s = Inr s"
| "copy_infos res_body i (Suc n) curr_node s =
     bindR (ll_node (infos s) curr_node) (\<lambda>x.
     bindR (store (res_body + sizeof_dic_resp_get_info + sizeof_dic_node_info * i)
              (enc_dic_node_info (ll_info x)) s) (\<lambda>s1.
       copy_infos res_body (i + 1) n (ll_next x) s1))"

text \<open>The response body is not freed.\<close>

definition handle_get_info :: "nat \<Rightarrow> 'a main_server_scheme \<Rightarrow> 'a main_server_scheme res option" where
  "handle_get_info conn s =
     bindO (if NODES_INFO s \<noteq> 0 then count_infos (infos s) (NODES_INFO s) 1 else Some (Inr 0)) (\<lambda>len.
     let size = sizeof_dic_resp_get_info + sizeof_dic_node_info * size_of_int len;
         (res_body, s1) = c_malloc size s in
     bindO (Some (store_word 4 res_body len s1)) (\<lambda>s2.
     bindO (Some (copy_infos res_body 0 (nat (sint len)) (NODES_INFO s) s2)) (\<lambda>s3.
     bindO (Some (c_alloca sizeof_dic_main_server_resp_head_generic s3)) (\<lambda>(resp_head, s4).
     bindO (Some (store_word 4 resp_head (word_of_nat size :: u32) s4)) (\<lambda>s5.
     bindO (Some (dic_conn_send conn resp_head (word_of_nat sizeof_dic_main_server_resp_head_generic) s5)) (\<lambda>(_, s6).
     bindO (Some (dic_conn_send conn res_body (word_of_nat size) s6)) (\<lambda>(_, s7).
       Some (Inr (del_block resp_head s7)))))))))"

section \<open>The connection threads\<close>

text \<open>One pass of the loop of \<open>connection_handler_thread\<close>: \<open>None\<close> as the first result when the connection
  is closed, otherwise the new \<open>conn_info\<close>. The bodies of requests other than announcements stay in the
  stream.\<close>

definition connection_pass ::
  "nat \<Rightarrow> nat option \<Rightarrow> 'a main_server_scheme \<Rightarrow> (nat option option \<times> 'a main_server_scheme) res option" where
  "connection_pass conn conn_info s =
     bindO (Some (c_alloca sizeof_dic_main_server_req_head_generic s)) (\<lambda>(head, s1).
     bindO (Some (dic_conn_recv conn head (word_of_nat sizeof_dic_main_server_req_head_generic) False s1)) (\<lambda>(res, s2).
       if res = 1 then Some (Inr (None, del_block head s2))
       else
         bindO (Some (load_word 2 head s2)) (\<lambda>operation.
         bindO (Some (load_word 4 (head + 4) s2)) (\<lambda>body_size.
           if operation = main_op_code DIC_ANNOUNCE_INFO then
             bindO (handle_push_info conn body_size s2) (\<lambda>(p, s3). Some (Inr (Some (Some p), del_block head s3)))
           else if operation = main_op_code DIC_GET_INFO then
             bindO (handle_get_info conn s2) (\<lambda>s3. Some (Inr (Some conn_info, del_block head s3)))
           else Some (Inr (Some conn_info, del_block head s2))))))"

text \<open>What follows the loop.\<close>

definition connection_end :: "nat \<Rightarrow> nat option \<Rightarrow> 'a main_server_scheme \<Rightarrow> 'a main_server_scheme res" where
  "connection_end conn conn_info s =
     bindR (case conn_info of None \<Rightarrow> Inr s | Some p \<Rightarrow> remove_info p s) (\<lambda>s1. dic_conn_destroy conn s1)"

partial_function (option) connection_handler_loop ::
  "nat \<Rightarrow> nat option \<Rightarrow> 'a main_server_scheme \<Rightarrow> 'a main_server_scheme res option" where
  "connection_handler_loop conn conn_info s =
     Option.bind (connection_pass conn conn_info s) (\<lambda>out.
       case out of
         Inl e \<Rightarrow> Some (Inl e)
       | Inr (None, s1) \<Rightarrow> Some (connection_end conn conn_info s1)
       | Inr (Some ci, s1) \<Rightarrow> connection_handler_loop conn ci s1)"

definition connection_handler_thread ::
  "nat \<Rightarrow> 'a main_server_scheme \<Rightarrow> 'a main_server_scheme res option" where
  "connection_handler_thread conn s = connection_handler_loop conn None s"

end
