(* ===== verification/Main_Server_Correct.thy ===== *)
theory Main_Server_Correct
  imports Main_Server
begin

text \<open>
  The list of the main server: its abstraction to a sequence of node descriptions, what appending,
  removing and listing do to that sequence, and the two ways in which removal of the first element
  departs from it.
\<close>

section \<open>Linked segments\<close>

text \<open>\<open>seg m pr p xs q\<close>: from \<open>p\<close> on, the table \<open>m\<close> holds exactly the elements \<open>xs\<close>, linked both ways, the
  first one with \<open>prev = pr\<close> and the last one with \<open>next = q\<close>.\<close>

fun seg :: "ll_table \<Rightarrow> nat \<Rightarrow> nat \<Rightarrow> (nat \<times> dic_node_info) list \<Rightarrow> nat \<Rightarrow> bool" where
  "seg m pr p [] q \<longleftrightarrow> p = q"
| "seg m pr p (x # xs) q \<longleftrightarrow> p = fst x \<and> 0 < p \<and>
     (case m p of None \<Rightarrow> False
      | Some n \<Rightarrow> ll_info n = snd x \<and> ll_prev n = pr \<and> seg m p (ll_next n) xs q)"

definition seg_end :: "nat \<Rightarrow> (nat \<times> dic_node_info) list \<Rightarrow> nat" where
  "seg_end pr xs = (if xs = [] then pr else fst (last xs))"

lemma seg_end_Nil [simp]: "seg_end pr [] = pr"
  by (simp add: seg_end_def)

lemma seg_end_Cons [simp]: "seg_end pr (x # xs) = seg_end (fst x) xs"
  by (simp add: seg_end_def)

lemma seg_append:
  "seg m pr p (xs @ ys) q \<longleftrightarrow> (\<exists>r. seg m pr p xs r \<and> seg m (seg_end pr xs) r ys q)"
  by (induction xs arbitrary: pr p) (auto split: option.splits)

lemma seg_frame:
  "seg m pr p xs q \<Longrightarrow> \<forall>x \<in> set xs. m' (fst x) = m (fst x) \<Longrightarrow> seg m' pr p xs q"
  by (induction xs arbitrary: pr p) (auto split: option.splits)

lemma seg_head:
  assumes "seg m pr p xs 0" "p \<noteq> 0"
  obtains i ys where "xs = (p, i) # ys"
  using assms by (cases xs) (auto split: option.splits)

lemma seg_null: "seg m pr p xs 0 \<Longrightarrow> p = 0 \<longleftrightarrow> xs = []"
  by (cases xs) (auto split: option.splits)

lemma seg_first: "seg m pr p xs 0 \<Longrightarrow> p = 0 \<or> p \<in> fst ` set xs"
  by (cases xs) auto

lemma last_info_seg: "seg m pr p xs 0 \<Longrightarrow> xs \<noteq> [] \<Longrightarrow> last_info m p = Some (Inr (fst (last xs)))"
proof (induction xs arbitrary: pr p)
  case (Cons x xs)
  then obtain n where n: "p = fst x" "0 < p" "m p = Some n" "seg m p (ll_next n) xs 0"
    by (auto split: option.splits)
  then have nx: "ll_next n = 0 \<longleftrightarrow> xs = []" using seg_null by simp
  show ?case
  proof (cases "xs = []")
    case True
    with n nx show ?thesis by (subst last_info.simps) (simp add: ll_node_def)
  next
    case False
    with n nx Cons.IH [OF n(4)] show ?thesis by (subst last_info.simps) (simp add: ll_node_def)
  qed
qed simp

lemma count_infos_seg:
  "seg m pr p xs 0 \<Longrightarrow> xs \<noteq> [] \<Longrightarrow> count_infos m p k = Some (Inr (k + word_of_nat (length xs - 1)))"
proof (induction xs arbitrary: pr p k)
  case (Cons x xs)
  then obtain n where n: "p = fst x" "0 < p" "m p = Some n" "seg m p (ll_next n) xs 0"
    by (auto split: option.splits)
  then have nx: "ll_next n = 0 \<longleftrightarrow> xs = []" using seg_null by simp
  show ?case
  proof (cases xs)
    case Nil
    with n nx show ?thesis by (subst count_infos.simps) (simp add: ll_node_def)
  next
    case (Cons y ys)
    with n nx Cons.IH [OF n(4)] show ?thesis by (subst count_infos.simps) (simp add: ll_node_def)
  qed
qed simp

section \<open>The registry\<close>

definition registry :: "'a main_server_scheme \<Rightarrow> (nat \<times> dic_node_info) list \<Rightarrow> bool" where
  "registry s xs \<longleftrightarrow> mem_ok s \<and> seg (infos s) 0 (NODES_INFO s) xs 0 \<and> distinct (map fst xs) \<and>
     (\<forall>x \<in> set xs. heap_of s (fst x) \<noteq> None)"

lemma ms_updates [simp]:
  fixes s :: "'a main_server_scheme"
  shows "heap_of (s\<lparr>infos := m\<rparr>) = heap_of s" "mem_ok (s\<lparr>infos := m\<rparr>) = mem_ok s"
    "heap_of (s\<lparr>NODES_INFO := p\<rparr>) = heap_of s" "mem_ok (s\<lparr>NODES_INFO := p\<rparr>) = mem_ok s"
    "infos (add_block c s) = infos s" "NODES_INFO (add_block c s) = NODES_INFO s"
    "infos (del_block a s) = infos s" "NODES_INFO (del_block a s) = NODES_INFO s"
    "infos (set_block a v s) = infos s" "NODES_INFO (set_block a v s) = NODES_INFO s"
  by (simp_all add: heap_of_def mem_ok_def add_block_def del_block_def set_block_def)

lemma append_info_registry:
  assumes r: "registry s xs" and c: "grants sizeof_linked_list_node_info c s"
  shows "\<exists>s'. append_info info s = Some (Inr (fst c, s')) \<and> registry s' (xs @ [(fst c, info)]) \<and>
    heap_of s' = (heap_of s)(fst c \<mapsto> snd c) \<and> conns s' = conns s \<and> socks s' = socks s"
proof -
  have m: "mem_ok s" and sg: "seg (infos s) 0 (NODES_INFO s) xs 0" and d: "distinct (map fst xs)"
    and hp: "\<forall>x \<in> set xs. heap_of s (fst x) \<noteq> None" using r by (simp_all add: registry_def)
  let ?p = "fst c" and ?s1 = "add_block c s"
  note net = more_net [OF more_blocks(1) [of c s]]
  have p: "0 < ?p" "heap_of s ?p = None" "mem_ok ?s1"
    using grants_pos [OF c] grants_fresh [OF c m] grants_mem_ok [OF c m] by simp_all
  then have new: "?p \<notin> fst ` set xs" using hp by auto
  show ?thesis
  proof (cases xs rule: rev_cases)
    case Nil
    then have "NODES_INFO s = 0" using sg by simp
    with Nil p net c_malloc_grants [OF c] show ?thesis by (simp add: append_info_def registry_def)
  next
    case (snoc us x)
    then have nn: "NODES_INFO s \<noteq> 0" using seg_null [OF sg] by simp
    have last: "last_info (infos s) (NODES_INFO s) = Some (Inr (fst x))"
      using last_info_seg [OF sg] snoc by simp
    from sg snoc obtain n where n: "0 < fst x" "infos s (fst x) = Some n" "ll_info n = snd x"
      "ll_prev n = seg_end 0 us" "ll_next n = 0" "seg (infos s) 0 (NODES_INFO s) us (fst x)"
      by (auto simp: seg_append split: option.splits)
    let ?m = "(infos s)(fst x \<mapsto> n\<lparr>ll_next := ?p\<rparr>, ?p \<mapsto> \<lparr>ll_info = info, ll_prev = fst x, ll_next = 0\<rparr>)"
    have ne: "fst x \<noteq> ?p" "fst x \<notin> fst ` set us" "?p \<notin> fst ` set us" using new snoc d by auto
    then have "seg ?m 0 (NODES_INFO s) us (fst x)"
      by (intro seg_frame [OF n(6)]) (auto simp: image_iff)
    then have "seg ?m 0 (NODES_INFO s) (xs @ [(?p, info)]) 0"
      using snoc n ne p(1) by (auto simp: seg_append)
    then show ?thesis
      using nn last n(1,2) p net hp d new snoc c_malloc_grants [OF c]
      by (simp add: append_info_def ll_node_def registry_def)
  qed
qed

text \<open>The single update of the table that a removal makes, for an element with neighbours \<open>pr\<close> and \<open>nx\<close>.\<close>

definition unlink :: "nat \<Rightarrow> nat \<Rightarrow> nat \<Rightarrow> ll_table \<Rightarrow> ll_table" where
  "unlink a pr nx m =
     (let m1 = (if nx = 0 then m else m(nx := map_option (\<lambda>n. n\<lparr>ll_prev := pr\<rparr>) (m nx)));
          m2 = (if pr = 0 then m1 else m1(pr := map_option (\<lambda>n. n\<lparr>ll_next := nx\<rparr>) (m1 pr)))
      in m2(a := None))"

lemma remove_info_unlink:
  assumes a: "0 < a" "infos s a = Some n" "heap_of s a \<noteq> None" "mem_ok s"
    and nx: "ll_next n \<noteq> 0 \<longrightarrow> infos s (ll_next n) \<noteq> None" "ll_next n \<noteq> a"
    and pr: "ll_prev n \<noteq> 0 \<longrightarrow> infos s (ll_prev n) \<noteq> None" "ll_prev n \<noteq> a"
  shows "\<exists>s'. remove_info a s = Inr s' \<and> infos s' = unlink a (ll_prev n) (ll_next n) (infos s) \<and>
    NODES_INFO s' = (if ll_prev n = 0 then 0 else NODES_INFO s) \<and> mem_ok s' \<and>
    heap_of s' = (heap_of s)(a := None)"
proof -
  from a(3) obtain bs where bs: "heap_of s a = Some bs" by auto
  let ?s1 = "if ll_next n \<noteq> 0 then s\<lparr>infos := (infos s)(ll_next n :=
      map_option (\<lambda>x. x\<lparr>ll_prev := ll_prev n\<rparr>) (infos s (ll_next n)))\<rparr> else s"
  let ?s2 = "if ll_prev n \<noteq> 0 then ?s1\<lparr>infos := (infos ?s1)(ll_prev n :=
      map_option (\<lambda>x. x\<lparr>ll_next := ll_next n\<rparr>) (infos ?s1 (ll_prev n)))\<rparr> else ?s1\<lparr>NODES_INFO := 0\<rparr>"
  have h2: "heap_of ?s2 = heap_of s" "mem_ok ?s2" using a(4) by simp_all
  have n1: "infos ?s1 a = Some n" using a(2) nx(2) by simp
  have p1: "ll_prev n \<noteq> 0 \<Longrightarrow> infos ?s1 (ll_prev n) \<noteq> None" using pr(1) nx(1) by auto
  have "c_free a ?s2 = Inr (del_block a ?s2)" using h2 bs by (intro c_free_block) simp_all
  then have "remove_info a s = Inr ((del_block a ?s2)\<lparr>infos := (infos ?s2)(a := None)\<rparr>)"
    using a(1,2) nx(1) n1 p1 by (auto simp: remove_info_def ll_node_def)
  moreover have "(infos ?s2)(a := None) = unlink a (ll_prev n) (ll_next n) (infos s)"
    by (simp add: unlink_def Let_def)
  ultimately show ?thesis using h2 by auto
qed

lemma seg_split:
  assumes "seg m 0 p (us @ (a, i) # vs) 0" "distinct (map fst (us @ (a, i) # vs))"
  obtains n where "0 < a" "m a = Some n" "ll_info n = i" "ll_prev n = seg_end 0 us" "ll_next n \<noteq> a" "ll_prev n \<noteq> a"
    and "seg m 0 p us a" "seg m a (ll_next n) vs 0"
    and "ll_next n \<noteq> 0 \<longrightarrow> m (ll_next n) \<noteq> None" "ll_prev n \<noteq> 0 \<longrightarrow> m (ll_prev n) \<noteq> None"
proof -
  from assms(1) obtain n where n: "0 < a" "m a = Some n" "ll_info n = i" "ll_prev n = seg_end 0 us"
    "seg m 0 p us a" "seg m a (ll_next n) vs 0" by (auto simp: seg_append split: option.splits)
  have "ll_next n \<noteq> a" using n(6,1) assms(2) by (cases vs) (auto split: option.splits)
  moreover have "ll_prev n \<noteq> a" using n(1,4) assms(2) by (cases us rule: rev_cases) (auto simp: seg_end_def)
  moreover have "m (ll_next n) \<noteq> None" if "ll_next n \<noteq> 0"
    using n(6) that by (cases vs) (auto split: option.splits)
  moreover have "m (ll_prev n) \<noteq> None" if "ll_prev n \<noteq> 0"
    using n(4,5) that by (cases us rule: rev_cases) (auto simp: seg_end_def seg_append split: option.splits)
  ultimately show ?thesis using n that by blast
qed

lemma disjointD: "A \<inter> B = {} \<Longrightarrow> x \<in> A \<Longrightarrow> x \<notin> B"
  by blast

lemma seg_unlink:
  assumes sg: "seg m 0 p (us @ (a, i) # vs) 0" and d: "distinct (map fst (us @ (a, i) # vs))"
    and n: "m a = Some n" "ll_prev n = seg_end 0 us" "us \<noteq> []"
  shows "seg (unlink a (ll_prev n) (ll_next n) m) 0 p (us @ vs) 0"
proof -
  let ?m = "unlink a (ll_prev n) (ll_next n) m"
  obtain ws b where us: "us = ws @ [b]" using n(3) by (cases us rule: rev_cases) auto
  then have pr: "ll_prev n = fst b" using n(2) by (simp add: seg_end_def)
  from sg us n obtain nb where nb: "0 < fst b" "m (fst b) = Some nb" "ll_info nb = snd b"
    "ll_prev nb = seg_end 0 ws" "seg m 0 p ws (fst b)" "ll_next nb = a" "seg m a (ll_next n) vs 0"
    by (auto simp: seg_append seg_end_def split: option.splits if_splits)
  have dd: "fst b \<noteq> a" "a \<notin> fst ` set ws" "fst b \<notin> fst ` set ws" "a \<notin> fst ` set vs"
    "fst b \<notin> fst ` set vs" "fst ` set ws \<inter> fst ` set vs = {}" "distinct (map fst vs)"
    using d us by auto
  have nx: "ll_next n = 0 \<or> ll_next n \<in> fst ` set vs" using nb(7) by (rule seg_first)
  have ws: "seg ?m 0 p ws (fst b)"
  proof (rule seg_frame [OF nb(5)], rule ballI)
    fix x assume "x \<in> set ws"
    then have "fst x \<in> fst ` set ws" by simp
    then have "fst x \<noteq> a" "fst x \<noteq> fst b" "fst x \<notin> fst ` set vs"
      using dd(2) dd(3) disjointD [OF dd(6)] by metis+
    moreover from this have "ll_next n = 0 \<or> fst x \<noteq> ll_next n" using nx by metis
    ultimately show "?m (fst x) = m (fst x)" using pr nb(1) by (auto simp: unlink_def Let_def)
  qed
  have bx: "fst b \<noteq> ll_next n" using dd(5) nb(1) nx by (metis less_irrefl)
  then have "?m (fst b) = Some (nb\<lparr>ll_next := ll_next n\<rparr>)"
    using nb(1,2) pr dd(1) by (auto simp: unlink_def Let_def)
  moreover have "seg ?m (fst b) (ll_next n) vs 0"
  proof (cases vs)
    case Nil
    with nb(7) show ?thesis by simp
  next
    case (Cons y ys)
    with nb(7) obtain ny where y: "ll_next n = fst y" "0 < fst y" "m (fst y) = Some ny" "ll_info ny = snd y"
      "seg m (fst y) (ll_next ny) ys 0" by (auto split: option.splits)
    have "seg ?m (fst y) (ll_next ny) ys 0"
    proof (rule seg_frame [OF y(5)], rule ballI)
      fix x assume "x \<in> set ys"
      then have "fst x \<noteq> a" "fst x \<noteq> fst b" "fst x \<noteq> fst y" using dd Cons by (auto simp: image_iff)
      then show "?m (fst x) = m (fst x)" using y(1) pr by (auto simp: unlink_def Let_def)
    qed
    moreover have "?m (fst y) = Some (ny\<lparr>ll_prev := fst b\<rparr>)"
      using dd Cons y(1-3) pr nb(1) bx by (auto simp: unlink_def Let_def)
    ultimately show ?thesis using Cons y(1,2,4) by simp
  qed
  ultimately show ?thesis using ws nb us by (auto simp: seg_append)
qed

lemma remove_info_registry:
  assumes r: "registry s (us @ (a, i) # vs)" and "us \<noteq> [] \<or> vs = []"
  shows "\<exists>s'. remove_info a s = Inr s' \<and> registry s' (us @ vs) \<and> heap_of s' = (heap_of s)(a := None)"
proof -
  have sg: "seg (infos s) 0 (NODES_INFO s) (us @ (a, i) # vs) 0" and d: "distinct (map fst (us @ (a, i) # vs))"
    and hp: "\<forall>x \<in> set (us @ (a, i) # vs). heap_of s (fst x) \<noteq> None" and ok: "mem_ok s"
    using r by (simp_all add: registry_def)
  obtain n where n: "0 < a" "infos s a = Some n" "ll_info n = i" "ll_prev n = seg_end 0 us" "ll_next n \<noteq> a" "ll_prev n \<noteq> a"
    "seg (infos s) 0 (NODES_INFO s) us a" "seg (infos s) a (ll_next n) vs 0"
    "ll_next n \<noteq> 0 \<longrightarrow> infos s (ll_next n) \<noteq> None" "ll_prev n \<noteq> 0 \<longrightarrow> infos s (ll_prev n) \<noteq> None"
    by (rule seg_split [OF sg d])
  have "heap_of s a \<noteq> None" using hp by simp
  from remove_info_unlink [OF n(1,2) this ok n(9,5) n(10,6)] obtain s' where
    s': "remove_info a s = Inr s'" "infos s' = unlink a (ll_prev n) (ll_next n) (infos s)"
      "NODES_INFO s' = (if ll_prev n = 0 then 0 else NODES_INFO s)" "mem_ok s'"
      "heap_of s' = (heap_of s)(a := None)" by blast
  have "seg (infos s') 0 (NODES_INFO s') (us @ vs) 0"
  proof (cases "us = []")
    case True
    with assms(2) n(4) s'(3) show ?thesis by simp
  next
    case False
    then have "ll_prev n \<noteq> 0" using n(4,7)
      by (cases us rule: rev_cases) (auto simp: seg_end_def seg_append split: option.splits)
    with s'(2,3) seg_unlink [OF sg d n(2,4) False] show ?thesis by simp
  qed
  moreover have "a \<notin> fst ` set (us @ vs)" using d by auto
  then have "\<forall>x \<in> set (us @ vs). heap_of s' (fst x) \<noteq> None" using hp s'(5) by (auto simp: image_iff)
  ultimately show ?thesis using s' d by (auto simp: registry_def)
qed

text \<open>Removing the first of several nodes empties the list: the others stay in memory, no longer
  reachable from \<open>NODES_INFO\<close>.\<close>

lemma remove_info_first:
  assumes r: "registry s ((a, i) # vs)"
  shows "\<exists>s'. remove_info a s = Inr s' \<and> registry s' [] \<and> NODES_INFO s' = 0 \<and>
    heap_of s' = (heap_of s)(a := None) \<and>
    (\<forall>x \<in> set vs. infos s' (fst x) \<noteq> None \<and> heap_of s' (fst x) \<noteq> None)"
proof -
  have sg: "seg (infos s) 0 (NODES_INFO s) ([] @ (a, i) # vs) 0" and d: "distinct (map fst ([] @ (a, i) # vs))"
    and hp: "\<forall>x \<in> set ((a, i) # vs). heap_of s (fst x) \<noteq> None" and ok: "mem_ok s"
    using r unfolding registry_def append_Nil by blast+
  obtain n where n: "0 < a" "infos s a = Some n" "ll_info n = i" "ll_prev n = seg_end 0 []" "ll_next n \<noteq> a" "ll_prev n \<noteq> a"
    "seg (infos s) 0 (NODES_INFO s) [] a" "seg (infos s) a (ll_next n) vs 0"
    "ll_next n \<noteq> 0 \<longrightarrow> infos s (ll_next n) \<noteq> None" "ll_prev n \<noteq> 0 \<longrightarrow> infos s (ll_prev n) \<noteq> None"
    by (rule seg_split [OF sg d])
  have "heap_of s a \<noteq> None" using hp by simp
  from remove_info_unlink [OF n(1,2) this ok n(9,5) n(10,6)] n(4) obtain s' where
    s': "remove_info a s = Inr s'" "infos s' = unlink a 0 (ll_next n) (infos s)"
      "NODES_INFO s' = 0" "mem_ok s'" "heap_of s' = (heap_of s)(a := None)" by auto
  have live: "infos s (fst x) \<noteq> None" if "x \<in> set vs" for x
  proof -
    from that obtain bs cs where "vs = bs @ x # cs" by (auto simp: in_set_conv_decomp)
    with n(8) show ?thesis by (auto simp: seg_append split: option.splits)
  qed
  have "infos s' (fst x) \<noteq> None \<and> heap_of s' (fst x) \<noteq> None" if "x \<in> set vs" for x
  proof -
    have "fst x \<noteq> a" using that d by force
    then show ?thesis using that live [OF that] hp s'(2,5) by (auto simp: unlink_def Let_def)
  qed
  with s' show ?thesis by (auto simp: registry_def)
qed

text \<open>A node that has been cut off this way has \<open>prev = NULL\<close>; when its connection ends, the list that has
  been built in the meantime is dropped as well.\<close>

lemma remove_info_orphan:
  assumes r: "registry s xs" and a: "0 < a" "infos s a = Some n" "ll_prev n = 0" "ll_next n = 0"
    and "heap_of s a \<noteq> None"
  shows "\<exists>s'. remove_info a s = Inr s' \<and> registry s' []"
proof -
  have ok: "mem_ok s" using r by (simp add: registry_def)
  from remove_info_unlink [OF a(1,2) assms(6) ok] a show ?thesis by (auto simp: registry_def)
qed

section \<open>Listing the nodes\<close>

lemma registry_cong:
  fixes s t :: "'a main_server_scheme"
  assumes "registry s xs" "infos t = infos s" "NODES_INFO t = NODES_INFO s" "mem_ok t"
    and "\<forall>x \<in> set xs. heap_of t (fst x) = heap_of s (fst x)"
  shows "registry t xs"
  using assms by (simp add: registry_def)

lemma length_enc_dic_node_info: "length (enc_dic_node_info x) = 24"
  using node_info_codec.enc_length [of x] by (simp add: sizeof_dic_node_info_def)

lemma copy_infos_seg:
  fixes m :: "'a main_server_scheme"
  assumes "seg (infos m) pr p xs 0" "mem_ok m" "heap_of m a = Some bs"
    and "length (pre @ rest) = length bs" "length pre = 4 + 24 * i" "24 * length xs \<le> length rest"
  shows "copy_infos a i (length xs) p (set_block a (pre @ rest) m) =
    Inr (set_block a (pre @ concat (map (enc_dic_node_info \<circ> snd) xs) @ drop (24 * length xs) rest) m)"
  using assms(1,4-6)
proof (induction xs arbitrary: pr p i pre rest)
  case (Cons x xs)
  let ?v = "enc_dic_node_info (snd x)"
  from Cons.prems(1) obtain n where n: "p = fst x" "0 < p" "infos m p = Some n" "ll_info n = snd x"
    "seg (infos m) p (ll_next n) xs 0" by (auto split: option.splits)
  have "store (a + (4 + 24 * i)) ?v (set_block a (pre @ rest) m) =
      Inr (set_block a (patch (pre @ rest) (4 + 24 * i) ?v) m)"
    using Cons.prems assms by (intro store_set_block [OF assms(2,3)]) (simp_all add: length_enc_dic_node_info)
  moreover have "patch (pre @ rest) (4 + 24 * i) ?v = (pre @ ?v) @ drop 24 rest"
    using Cons.prems(3) by (simp add: patch_def length_enc_dic_node_info)
  ultimately have st: "store (a + 4 + 24 * i) ?v (set_block a (pre @ rest) m) =
      Inr (set_block a ((pre @ ?v) @ drop 24 rest) m)" by (simp add: add.assoc)
  have "copy_infos a (i + 1) (length xs) (ll_next n) (set_block a ((pre @ ?v) @ drop 24 rest) m) =
    Inr (set_block a ((pre @ ?v) @ concat (map (enc_dic_node_info \<circ> snd) xs) @
      drop (24 * length xs) (drop 24 rest)) m)"
    using Cons.prems n(5) by (intro Cons.IH) (simp_all add: length_enc_dic_node_info)
  then show ?case
    using st n by (simp add: ll_node_def sizeof_dic_resp_get_info_def sizeof_dic_node_info_def add.commute comp_def)
qed simp

text \<open>The bytes of the answer: a head with the size of the body, then the table of all nodes in order.\<close>

definition listing :: "dic_node_info list \<Rightarrow> byte list" where
  "listing is = enc_dic_main_server_resp_head_generic
       \<lparr>ms_resp_head_body_size = word_of_nat (4 + 24 * length is)\<rparr> @
     enc_dic_resp_get_info \<lparr>resp_get_info_count = word_of_nat (length is), resp_get_info_nodes = is\<rparr>"

lemma send_block:
  fixes s :: "'a net_scheme"
  assumes "connected conn c k s" "\<not> sk_reset k" "mem_ok s" "heap_of s a = Some (v @ rest)"
    and "size_of_int n = length v" "length v < 2 ^ 31"
  shows "dic_conn_send conn a n s =
    Inr (0, s\<lparr>socks := (socks s)(sockfd c \<mapsto> k\<lparr>sk_out := sk_out k @ v\<rparr>)\<rparr>)"
proof -
  have "size_of_int SEND_STR = 2 ^ 64 - 1"
    by (simp add: SEND_STR_def c_minus1_def size_of_int_def unsigned_minus_1_eq_mask mask_eq_exp_minus_1)
  then have "n \<noteq> SEND_STR" using assms(5,6) by auto
  moreover have "load a (size_of_int n) s = Inr v" by (simp add: load_block0 [OF assms(3,4)] assms(5))
  ultimately show ?thesis
    using assms(1,2) heap_of_pos [OF assms(3,4)] by (intro dic_conn_send_spec) simp_all
qed

text \<open>Counting and copying: the answer body is complete in a fresh object.\<close>

lemma listing_built:
  fixes s :: "'a main_server_scheme"
  assumes r: "registry s xs" and c: "grants (4 + 24 * length xs) b s" and small: "4 + 24 * length xs < 2 ^ 31"
  defines "n \<equiv> word_of_nat (length xs) :: c_int"
  defines "body \<equiv> enc_dic_resp_get_info \<lparr>resp_get_info_count = n, resp_get_info_nodes = map snd xs\<rparr>"
  obtains s1 s2 where "store_word 4 (fst b) n (add_block b s) = Inr s1"
    and "copy_infos (fst b) 0 (nat (sint n)) (NODES_INFO s) s1 = Inr s2"
    and "s2 = set_block (fst b) (body @ drop (4 + 24 * length xs) (snd b)) (add_block b s)"
    and "length body = 4 + 24 * length xs" "mem_ok s2"
proof -
  let ?m = "add_block b s"
  have ok: "mem_ok s" and sg: "seg (infos ?m) 0 (NODES_INFO s) xs 0" using r by (simp_all add: registry_def)
  have m: "mem_ok ?m" "heap_of ?m (fst b) = Some (snd b)" "4 + 24 * length xs \<le> length (snd b)"
    using grants_mem_ok [OF c ok] grants_length [OF c] by simp_all
  have body: "body = enc_word 4 n @ concat (map (enc_dic_node_info \<circ> snd) xs)"
    by (simp add: body_def enc_dic_resp_get_info_def comp_def)
  have "length (concat (map (enc_dic_node_info \<circ> snd) xs)) = 24 * length xs"
    by (induction xs) (simp_all add: length_enc_dic_node_info)
  then have lb: "length body = 4 + 24 * length xs" by (simp add: body)
  have "unat n = length xs" unfolding n_def using small by (subst unat_of_nat) simp
  then have nn: "nat (sint n) = length xs" using small by (subst sint_small) simp_all
  have st: "store_word 4 (fst b) n ?m = Inr (set_block (fst b) (enc_word 4 n @ drop 4 (snd b)) ?m)"
    using store_in_block0 [OF m(1,2), of "enc_word 4 n"] m(3) by (simp add: store_word_def patch_def)
  have cp: "copy_infos (fst b) 0 (length xs) (NODES_INFO s) (set_block (fst b) (enc_word 4 n @ drop 4 (snd b)) ?m) =
      Inr (set_block (fst b) (body @ drop (4 + 24 * length xs) (snd b)) ?m)"
    using copy_infos_seg [OF sg m(1,2), of "enc_word 4 n" "drop 4 (snd b)" 0] m(3)
    by (simp add: body add.commute)
  have "mem_ok (set_block (fst b) (body @ drop (4 + 24 * length xs) (snd b)) ?m)"
    using m(3) lb by (intro set_block_mem_ok [OF m(1,2)]) simp
  with st cp nn lb show ?thesis by (intro that) simp_all
qed

section \<open>Local variables and sending\<close>

text \<open>A local variable of four bytes that is written.\<close>

lemma local_word:
  fixes s :: "'a net_scheme"
  assumes "stocked (4 # ns) s" "mem_ok s"
  obtains a t0 t rest where "c_alloca 4 s = Inr (a, t0)" "store_word 4 a w t0 = Inr t"
    and "mem_ok t" "stocked ns t" "heap_of s a = None" "heap_of t = (heap_of s)(a \<mapsto> enc_word 4 w @ rest)"
    and "mem.more t = mem.more s"
proof -
  from assms(1) obtain d where d: "grants 4 d s" "stocked ns (add_block d s)" by (rule stocked_Cons)
  let ?t0 = "add_block d s"
  let ?v = "enc_word 4 w @ drop 4 (snd d)"
  have m: "mem_ok ?t0" "heap_of ?t0 (fst d) = Some (snd d)" "length ?v = length (snd d)"
    using grants_mem_ok [OF d(1) assms(2)] grants_length [OF d(1)] by simp_all
  have "store_word 4 (fst d) w ?t0 = Inr (set_block (fst d) ?v ?t0)"
    using store_in_block0 [OF m(1,2), of "enc_word 4 w"] m(3) by (simp add: store_word_def patch_def)
  moreover have "heap_of (set_block (fst d) ?v ?t0) = (heap_of s)(fst d \<mapsto> ?v)" by auto
  ultimately show ?thesis
    using that [of "fst d" ?t0] c_alloca_grants [OF d(1)] set_block_mem_ok [OF m] stocked_set_block [OF m]
      d(2) grants_fresh [OF d(1) assms(2)] by simp
qed

lemma more_ms:
  fixes s t :: "'a main_server_scheme"
  assumes "net.more t = net.more s"
  shows "infos t = infos s" "NODES_INFO t = NODES_INFO s"
  using assms by (cases s; cases t; simp)+

text \<open>Sending from an object: everything but the socket stays.\<close>

lemma send_bytes:
  fixes s :: "'a net_scheme"
  assumes "connected conn c k s" "\<not> sk_reset k" "mem_ok s" "heap_of s a = Some (v @ rest)"
    and "size_of_int n = length v" "length v < 2 ^ 31"
  obtains t where "dic_conn_send conn a n s = Inr (0, t)" "heap_of t = heap_of s" "mem_ok t"
    and "\<forall>ns. stocked ns t = stocked ns s" "connected conn c (k\<lparr>sk_out := sk_out k @ v\<rparr>) t"
    and "conns t = conns s" "socks t = (socks s)(sockfd c \<mapsto> k\<lparr>sk_out := sk_out k @ v\<rparr>)"
    and "net.more t = net.more s"
proof -
  let ?t = "s\<lparr>socks := (socks s)(sockfd c \<mapsto> k\<lparr>sk_out := sk_out k @ v\<rparr>)\<rparr>"
  have "dic_conn_send conn a n s = Inr (0, ?t)" using assms by (rule send_block)
  then show ?thesis
    using assms by (intro that [of ?t]) (simp_all add: heap_of_def mem_ok_def stocked_def connected_def)
qed

lemma size_of_int_4_8 [simp]: "size_of_int 4 = 4" "size_of_int 8 = 8"
  using size_of_int_nat [of 4] size_of_int_nat [of 8] by simp_all

lemma send_two:
  fixes s :: "'a net_scheme"
  assumes con: "connected conn c k s" "\<not> sk_reset k" and ok: "mem_ok s"
    and v: "heap_of s a = Some (v @ r)" "size_of_int n = length v" "length v < 2 ^ 31"
    and w: "heap_of s b = Some (w @ r')" "size_of_int m = length w" "length w < 2 ^ 31"
  obtains t u where "dic_conn_send conn a n s = Inr (0, t)" "heap_of t = heap_of s" "mem_ok t"
    and "dic_conn_send conn b m t = Inr (0, u)" "heap_of u = heap_of s" "mem_ok u"
    and "\<forall>ns. stocked ns u = stocked ns s" "connected conn c (k\<lparr>sk_out := sk_out k @ v @ w\<rparr>) u"
    and "conns u = conns s" "socks u = (socks s)(sockfd c \<mapsto> k\<lparr>sk_out := sk_out k @ v @ w\<rparr>)"
    and "net.more u = net.more s"
proof -
  obtain t where t: "dic_conn_send conn a n s = Inr (0, t)" "heap_of t = heap_of s" "mem_ok t"
    "\<forall>ns. stocked ns t = stocked ns s" "connected conn c (k\<lparr>sk_out := sk_out k @ v\<rparr>) t"
    "conns t = conns s" "socks t = (socks s)(sockfd c \<mapsto> k\<lparr>sk_out := sk_out k @ v\<rparr>)" "net.more t = net.more s"
    by (rule send_bytes [OF con ok v])
  have h: "\<not> sk_reset (k\<lparr>sk_out := sk_out k @ v\<rparr>)" "heap_of t b = Some (w @ r')" using con(2) t(2) w(1) by simp_all
  obtain u where u: "dic_conn_send conn b m t = Inr (0, u)" "heap_of u = heap_of t" "mem_ok u"
    "\<forall>ns. stocked ns u = stocked ns t" "connected conn c (k\<lparr>sk_out := (sk_out k @ v) @ w\<rparr>) u"
    "conns u = conns t" "socks u = (socks t)(sockfd c \<mapsto> k\<lparr>sk_out := (sk_out k @ v) @ w\<rparr>)" "net.more u = net.more t"
    using send_bytes [OF t(5) h(1) t(3) h(2) w(2,3)] by auto
  from t u show ?thesis by (intro that [OF t(1-3) u(1)]) simp_all
qed

section \<open>Answering a query\<close>

lemma handle_get_info_lists:
  fixes s :: "'a main_server_scheme"
  assumes r: "registry s xs" and con: "connected conn c k s" "\<not> sk_reset k"
    and mem: "stocked [4 + 24 * length xs, 4] s" and small: "4 + 24 * length xs < 2 ^ 31"
  shows "\<exists>s' p bs. handle_get_info conn s = Some (Inr s') \<and> registry s' xs \<and> conns s' = conns s \<and>
    socks s' = (socks s)(sockfd c \<mapsto> k\<lparr>sk_out := sk_out k @ listing (map snd xs)\<rparr>) \<and>
    heap_of s p = None \<and> heap_of s' = (heap_of s)(p \<mapsto> bs)"
proof -
  let ?N = "4 + 24 * length xs" and ?n = "word_of_nat (length xs) :: c_int"
  let ?body = "enc_dic_resp_get_info \<lparr>resp_get_info_count = ?n, resp_get_info_nodes = map snd xs\<rparr>"
  let ?head = "enc_word 4 (word_of_nat ?N :: u32)"
  have ok: "mem_ok s" and sg: "seg (infos s) 0 (NODES_INFO s) xs 0" using r by (simp_all add: registry_def)
  from mem obtain b where b: "grants ?N b s" "stocked [4] (add_block b s)" by (rule stocked_Cons)
  obtain s1 s2 where s12: "store_word 4 (fst b) ?n (add_block b s) = Inr s1"
    "copy_infos (fst b) 0 (nat (sint ?n)) (NODES_INFO s) s1 = Inr s2"
    and s2: "s2 = set_block (fst b) (?body @ drop ?N (snd b)) (add_block b s)" and lb: "length ?body = ?N" and ok2: "mem_ok s2"
    by (rule listing_built [OF r b(1) small])
  have h2: "heap_of s2 = (heap_of s)(fst b \<mapsto> ?body @ drop ?N (snd b))" unfolding s2 by auto
  have fb: "heap_of s (fst b) = None" using b(1) ok by (rule grants_fresh)
  have more2: "mem.more s2 = mem.more s" by (simp add: s2)
  have st2: "stocked [4] s2" unfolding s2 using b grants_length [OF b(1)] lb grants_mem_ok [OF b(1) ok]
    by (subst stocked_set_block) auto
  obtain d s3 s4 rd where d: "c_alloca 4 s2 = Inr (d, s3)" "store_word 4 d (word_of_nat ?N :: u32) s3 = Inr s4"
    "mem_ok s4" "stocked [] s4" "heap_of s2 d = None" "heap_of s4 = (heap_of s2)(d \<mapsto> ?head @ rd)" "mem.more s4 = mem.more s2"
    by (rule local_word [OF st2 ok2])
  have more4: "mem.more s4 = mem.more s" using d(7) more2 by simp
  have ne: "d \<noteq> fst b" using d(5) h2 by (auto split: if_splits)
  have h4: "heap_of s4 d = Some (?head @ rd)" "heap_of s4 (fst b) = Some (?body @ drop ?N (snd b))" using d(6) h2 ne by simp_all
  have sz: "size_of_int 4 = length ?head" "length ?head < 2 ^ 31" "size_of_int (word_of_nat ?N) = length ?body" "length ?body < 2 ^ 31"
    "size_of_int ?n = length xs"
    using size_of_int_nat [OF small] size_of_int_nat [of "length xs"] small lb by simp_all
  obtain s5 s6 where s6: "dic_conn_send conn d 4 s4 = Inr (0, s5)" "dic_conn_send conn (fst b) (word_of_nat ?N) s5 = Inr (0, s6)"
    "heap_of s6 = heap_of s4" "mem_ok s6" "conns s6 = conns s4"
    "socks s6 = (socks s4)(sockfd c \<mapsto> k\<lparr>sk_out := sk_out k @ ?head @ ?body\<rparr>)" "net.more s6 = net.more s4"
    by (rule send_two [OF connected_more [OF con(1) more4] con(2) d(3) h4(1) sz(1,2) h4(2) sz(3,4)])
  have cnt: "(if NODES_INFO s \<noteq> 0 then count_infos (infos s) (NODES_INFO s) 1 else Some (Inr 0)) = Some (Inr ?n)"
    using seg_null [OF sg] count_infos_seg [OF sg, of 1] by (cases xs) (simp_all del: seg.simps)
  have run: "handle_get_info conn s = Some (Inr (del_block d s6))"
    unfolding handle_get_info_def cnt bindO_simps Let_def sz(5) sizeof_dic_resp_get_info_def sizeof_dic_node_info_def
      c_malloc_grants [OF b(1)] prod.case s12 sizeof_dic_main_server_resp_head_generic_def d(1,2)
    using s6(1,2) by simp
  have h6: "heap_of (del_block d s6) = (heap_of s)(fst b \<mapsto> ?body @ drop ?N (snd b))"
    unfolding h2 [symmetric] using s6(3) d(5,6) by (auto simp: fun_eq_iff)
  have "net.more s6 = net.more s" using s6(7) net_more_of_mem [OF more4] by simp
  then have "registry (del_block d s6) xs"
    using h6 s6(4) fb r by (intro registry_cong [OF r]) (auto simp: registry_def dest: more_ms)
  moreover have "listing (map snd xs) = ?head @ ?body"
    by (simp add: listing_def enc_dic_main_server_resp_head_generic_def)
  ultimately show ?thesis
    using run h6 fb s6(5,6) more_net [OF more4] by (intro exI [of _ "del_block d s6"] exI [of _ "fst b"]) (auto simp: del_block_def)
qed

section \<open>Announcing a node\<close>

text \<open>The confirmation on the wire.\<close>

definition confirmation :: "byte list" where
  "confirmation = enc_dic_main_server_resp_head_generic \<lparr>ms_resp_head_body_size = 4\<rparr> @
     enc_dic_resp_announce_info \<lparr>resp_announce_info_error = 0\<rparr>"

lemma send_confirmation:
  fixes s :: "'a net_scheme"
  assumes con: "connected conn c k s" "\<not> sk_reset k" and ok: "mem_ok s" and mem: "stocked [4, 4, n] s"
  obtains rb t1 s1 rh t2 s2 s3 s4 jb jh where
    "c_alloca 4 s = Inr (rb, t1)" "store_word 4 rb (0 :: u32) t1 = Inr s1"
    "c_alloca 4 s1 = Inr (rh, t2)" "store_word 4 rh (4 :: u32) t2 = Inr s2"
    "dic_conn_send conn rh 4 s2 = Inr (0, s3)" "load_word 4 rh s3 = Inr (4 :: u32)"
    "dic_conn_send conn rb 4 s3 = Inr (0, s4)"
    "heap_of s4 = (heap_of s)(rb \<mapsto> jb, rh \<mapsto> jh)" "heap_of s rb = None" "heap_of s rh = None"
    "mem_ok s4" "stocked [n] s4" "conns s4 = conns s" "net.more s4 = net.more s"
    "socks s4 = (socks s)(sockfd c \<mapsto> k\<lparr>sk_out := sk_out k @ confirmation\<rparr>)"
proof -
  obtain rb t1 s1 jb where l1: "c_alloca 4 s = Inr (rb, t1)" "store_word 4 rb (0 :: u32) t1 = Inr s1"
    and s1: "mem_ok s1" "stocked [4, n] s1" "heap_of s rb = None"
      "heap_of s1 = (heap_of s)(rb \<mapsto> enc_word 4 (0 :: u32) @ jb)" "mem.more s1 = mem.more s"
    by (rule local_word [OF mem ok])
  obtain rh t2 s2 jh where l2: "c_alloca 4 s1 = Inr (rh, t2)" "store_word 4 rh (4 :: u32) t2 = Inr s2"
    and s2: "mem_ok s2" "stocked [n] s2" "heap_of s1 rh = None"
      "heap_of s2 = (heap_of s1)(rh \<mapsto> enc_word 4 (4 :: u32) @ jh)" "mem.more s2 = mem.more s1"
    by (rule local_word [OF s1(2,1)])
  have m2: "mem.more s2 = mem.more s" using s2(5) s1(5) by simp
  have h2: "heap_of s2 rh = Some (enc_word 4 (4 :: u32) @ jh)" "heap_of s2 rb = Some (enc_word 4 (0 :: u32) @ jb)"
    "heap_of s rh = None" using s2(3,4) s1(3,4) by (auto split: if_splits)
  have sz: "size_of_int 4 = length (enc_word 4 (w :: u32))" "length (enc_word 4 (w :: u32)) < 2 ^ 31" for w by simp_all
  obtain s3 s4 where d: "dic_conn_send conn rh 4 s2 = Inr (0, s3)" "heap_of s3 = heap_of s2" "mem_ok s3"
    "dic_conn_send conn rb 4 s3 = Inr (0, s4)" "heap_of s4 = heap_of s2" "mem_ok s4" "\<forall>ns. stocked ns s4 = stocked ns s2"
    "conns s4 = conns s2" "socks s4 = (socks s2)(sockfd c \<mapsto> k\<lparr>sk_out := sk_out k @ enc_word 4 (4 :: u32) @ enc_word 4 (0 :: u32)\<rparr>)"
    "net.more s4 = net.more s2" by (rule send_two [OF connected_more [OF con(1) m2] con(2) s2(1) h2(1) sz h2(2) sz])
  have ld: "load_word 4 rh s3 = Inr (4 :: u32)" using h2(1) d(2) by (simp add: load_word_at0 [OF d(3)])
  have conf: "confirmation = enc_word 4 (4 :: u32) @ enc_word 4 (0 :: u32)"
    by (simp add: confirmation_def enc_dic_main_server_resp_head_generic_def enc_dic_resp_announce_info_def)
  have "heap_of s4 = (heap_of s)(rb \<mapsto> enc_word 4 (0 :: u32) @ jb, rh \<mapsto> enc_word 4 (4 :: u32) @ jh)"
    using d(5) s2(4) s1(4) by simp
  from that [OF l1 l2 d(1) ld d(4) this s1(3) h2(3) d(6)] show ?thesis
    using d(7-10) s2(2) more_net [OF m2] net_more_of_mem [OF m2] conf by simp
qed

lemma handle_push_info_announces:
  fixes s :: "'a main_server_scheme"
  assumes r: "registry s xs" and con: "connected conn c k s" "\<not> sk_reset k"
    and stream: "concat (sk_in k) = enc_dic_req_announce_info \<lparr>req_announce_info_core_count = cores\<rparr> @ rest"
    and mem: "stocked [4, 4, 4, sizeof_linked_list_node_info] s"
  shows "\<exists>s' p ks. handle_push_info conn 4 s = Some (Inr (p, s')) \<and>
    registry s' (xs @ [(p, \<lparr>address = ip c, core_count = cores\<rparr>)]) \<and> heap_of s p = None \<and> conns s' = conns s \<and>
    concat ks = rest \<and> [] \<notin> set ks \<and>
    socks s' = (socks s)(sockfd c \<mapsto> k\<lparr>sk_in := ks, sk_out := sk_out k @ confirmation\<rparr>)"
proof -
  let ?L = sizeof_linked_list_node_info and ?info = "\<lparr>address = ip c, core_count = cores\<rparr>"
  have ok: "mem_ok s" and live: "\<forall>x \<in> set xs. heap_of s (fst x) \<noteq> None" using r by (simp_all add: registry_def)
  from mem obtain b where b: "grants 4 b s" "stocked [4, 4, ?L] (add_block b s)" by (rule stocked_Cons)
  have in4: "concat (sk_in k) = enc_word 4 cores @ rest" using stream by (simp add: enc_dic_req_announce_info_def)
  have sz: "size_of_int 4 = 4" using size_of_int_nat [of 4] by simp
  obtain s2 ks where r2: "dic_conn_recv conn (fst b) 4 False (add_block b s) = Inr (0, s2)"
    and s2: "connected conn c (k\<lparr>sk_in := ks\<rparr>) s2" "concat ks = rest" "mem_ok s2" "stocked [4, 4, ?L] s2"
      "heap_of s2 = (heap_of s)(fst b \<mapsto> patch (snd b) 0 (enc_word 4 cores))" "conns s2 = conns s"
      "socks s2 = (socks s)(sockfd c \<mapsto> k\<lparr>sk_in := ks\<rparr>)" "net.more s2 = net.more s"
    by (rule recv_into_fresh [OF con(1) in4 ok b length_enc_word sz])
  have "heap_of s2 (fst b) = Some (enc_word 4 cores @ drop 4 (snd b))" using s2(5) by (simp add: patch_def)
  then have cores: "load_word 4 (fst b) s2 = Inr cores" by (simp add: load_word_at0 [OF s2(3)])
  have k2: "\<not> sk_reset (k\<lparr>sk_in := ks\<rparr>)" "get_conn conn s2 = Inr c"
    using con(2) get_conn_connected [OF s2(1)] by simp_all
  obtain rb t3 s4 rh t5 s6 s7 s8 jb jh where run: "c_alloca 4 s2 = Inr (rb, t3)"
      "store_word 4 rb (0 :: u32) t3 = Inr s4" "c_alloca 4 s4 = Inr (rh, t5)"
      "store_word 4 rh (4 :: u32) t5 = Inr s6" "dic_conn_send conn rh 4 s6 = Inr (0, s7)"
      "load_word 4 rh s7 = Inr (4 :: u32)" "dic_conn_send conn rb 4 s7 = Inr (0, s8)"
    and s8: "heap_of s8 = (heap_of s2)(rb \<mapsto> jb, rh \<mapsto> jh)" "heap_of s2 rb = None" "heap_of s2 rh = None"
      "mem_ok s8" "stocked [?L] s8" "conns s8 = conns s2" "net.more s8 = net.more s2"
      "socks s8 = (socks s2)(sockfd c \<mapsto> k\<lparr>sk_in := ks, sk_out := sk_out k @ confirmation\<rparr>)"
    by (rule send_confirmation [OF s2(1) k2(1) s2(3,4), simplified])
  have fresh: "heap_of s (fst b) = None" "heap_of s rb = None" "heap_of s rh = None"
    using grants_fresh [OF b(1) ok] s8(2,3) s2(5) by (auto split: if_splits)
  then have apart: "\<forall>x \<in> set xs. fst x \<noteq> fst b \<and> fst x \<noteq> rb \<and> fst x \<noteq> rh" using live by auto
  have m8: "net.more s8 = net.more s" using s8(7) s2(8) by simp
  have r8: "registry s8 xs"
    using apart s8(1,4) s2(5) more_ms [OF m8] by (intro registry_cong [OF r]) auto
  from s8(5) obtain g where g: "grants ?L g s8" by (rule stocked_Cons)
  from append_info_registry [OF r8 g, of ?info] obtain s9 where s9: "append_info ?info s8 = Some (Inr (fst g, s9))"
    "registry s9 (xs @ [(fst g, ?info)])" "heap_of s9 = (heap_of s8)(fst g \<mapsto> snd g)"
    "conns s9 = conns s8" "socks s9 = socks s8" by blast
  let ?s' = "del_block (fst b) (del_block rh (del_block rb s9))"
  have new: "fst g \<noteq> fst b" "fst g \<noteq> rb" "fst g \<noteq> rh" "heap_of s (fst g) = None"
    using grants_fresh [OF g s8(4)] s8(1) s2(5) by (auto split: if_splits)
  then have r': "registry ?s' (xs @ [(fst g, ?info)])"
    using apart s9(2) by (intro registry_cong [OF s9(2)]) (auto simp: registry_def)
  have "handle_push_info conn 4 s = Some (Inr (fst g, ?s'))"
    using c_alloca_grants [OF b(1)] r2 k2(2) cores run s9(1)
    by (simp add: handle_push_info_def sizeof_dic_req_announce_info_def sizeof_dic_resp_announce_info_def
        sizeof_dic_main_server_resp_head_generic_def)
  moreover have "conns ?s' = conns s" "socks ?s' =
      (socks s)(sockfd c \<mapsto> k\<lparr>sk_in := ks, sk_out := sk_out k @ confirmation\<rparr>)"
    using s9(4,5) s8(6,8) s2(6,7) by (simp_all add: del_block_def)
  ultimately show ?thesis using r' new(4) s2(1,2) by (auto simp: connected_def)
qed

end
