(* ===== verification/Main_Clients.thy ===== *)
theory Main_Clients
  imports Main_Server_Correct Sockets_Correct
begin

text \<open>
  The main server's two kinds of clients: a compute node that announces itself
  (\<open>node/src/node_main_communication.c\<close>) and an application that asks for the nodes and connects to them
  (\<open>diconlib/src/client_main_communication.c\<close>).
\<close>

section \<open>The node's announcement\<close>

text \<open>\<open>cores\<close> is the answer of \<open>sysconf\<close>. The results of the receives are not looked at.\<close>

definition notify_main_server :: "c_int \<Rightarrow> nat \<Rightarrow> 'a net_scheme \<Rightarrow> (c_int \<times> 'a net_scheme) res" where
  "notify_main_server cores main_conn s =
     bindR (c_alloca sizeof_dic_req_announce_info s) (\<lambda>(body, s1).
     bindR (store_word 4 body cores s1) (\<lambda>s2.
     bindR (c_alloca sizeof_dic_main_server_req_head_generic s2) (\<lambda>(head, s3).
     bindR (store_word 4 (head + 4) (word_of_nat sizeof_dic_req_announce_info :: u32) s3) (\<lambda>s4.
     bindR (store_word 2 head (main_op_code DIC_ANNOUNCE_INFO) s4) (\<lambda>s5.
     bindR (store_word 2 (head + 2) (1 :: u16) s5) (\<lambda>s6.
     bindR (dic_conn_send main_conn head (word_of_nat sizeof_dic_main_server_req_head_generic) s6) (\<lambda>(res, s7).
     if res \<noteq> 0 then Inr (of_int res, del_block head (del_block body s7))
     else
     bindR (dic_conn_send main_conn body (word_of_nat sizeof_dic_req_announce_info) s7) (\<lambda>(res, s8).
     if res \<noteq> 0 then Inr (of_int res, del_block head (del_block body s8))
     else
     bindR (c_alloca sizeof_dic_main_server_resp_head_generic s8) (\<lambda>(res_head, s9).
     bindR (c_alloca sizeof_dic_resp_announce_info s9) (\<lambda>(res_body, s10).
     bindR (dic_conn_recv main_conn res_head (word_of_nat sizeof_dic_main_server_resp_head_generic) False s10) (\<lambda>(_, s11).
     bindR (load_word 4 res_head s11) (\<lambda>body_size :: u32.
     bindR (dic_conn_recv main_conn res_body body_size False s11) (\<lambda>(_, s12).
     bindR (load_word 4 res_body s12) (\<lambda>error :: u32.
       Inr (error, del_block res_body (del_block res_head (del_block head (del_block body s12))))))))))))))))))"

section \<open>The application's query\<close>

definition dic_main_connect :: "ip_addr \<Rightarrow> 'a net_scheme \<Rightarrow> (nat \<times> 'a net_scheme) res" where
  "dic_main_connect ip_address s = dic_conn_new ip_address DIC_MAIN_SERVER_PORT s"

definition dic_get_nodes_info :: "nat \<Rightarrow> 'a net_scheme \<Rightarrow> (nat \<times> 'a net_scheme) res" where
  "dic_get_nodes_info conn s =
     bindR (c_alloca sizeof_dic_main_server_req_head_generic s) (\<lambda>(req_head, s1).
     bindR (store_word 4 (req_head + 4) (0 :: u32) s1) (\<lambda>s2.
     bindR (store_word 2 req_head (main_op_code DIC_GET_INFO) s2) (\<lambda>s3.
     bindR (store_word 2 (req_head + 2) (0 :: u16) s3) (\<lambda>s4.
     bindR (dic_conn_send conn req_head (word_of_nat sizeof_dic_main_server_req_head_generic) s4) (\<lambda>(_, s5).
     bindR (c_alloca sizeof_dic_main_server_resp_head_generic s5) (\<lambda>(res_head, s6).
     bindR (dic_conn_recv conn res_head (word_of_nat sizeof_dic_main_server_resp_head_generic) False s6) (\<lambda>(_, s7).
     bindR (load_word 4 res_head s7) (\<lambda>body_size :: u32.
     let (res_body, s8) = c_malloc (unat body_size) s7 in
     bindR (dic_conn_recv conn res_body body_size False s8) (\<lambda>(_, s9).
       Inr (res_body, del_block res_head (del_block req_head s9)))))))))))"

text \<open>The loop of \<open>dic_nodes_connect_all\<close>: the \<open>i\<close>-th pointer of the array is the connection to the \<open>i\<close>-th
  node. The addresses are read from the table at \<open>nodes_info\<close>.\<close>

fun connect_nodes :: "nat \<Rightarrow> nat \<Rightarrow> nat \<Rightarrow> nat \<Rightarrow> 'a net_scheme \<Rightarrow> 'a net_scheme res" where
  "connect_nodes nodes_info nodes i 0 s = Inr s"
| "connect_nodes nodes_info nodes i (Suc n) s =
     bindR (load (nodes_info + sizeof_dic_resp_get_info + sizeof_dic_node_info * i) sizeof_ip_addr s) (\<lambda>addr.
     bindR (dic_conn_new (dec_ip_addr addr) DIC_NODE_PORT s) (\<lambda>(node, s1).
     bindR (store_word 8 (nodes + 8 * i) (word_of_nat node :: u64) s1) (\<lambda>s2.
       connect_nodes nodes_info nodes (i + 1) n s2)))"

definition dic_nodes_connect_all :: "nat \<Rightarrow> 'a net_scheme \<Rightarrow> (nat \<times> 'a net_scheme) res" where
  "dic_nodes_connect_all nodes_info s =
     bindR (load_word 4 nodes_info s) (\<lambda>count :: u32.
     let (nodes, s1) = c_malloc (8 * unat count) s in
     bindR (connect_nodes nodes_info nodes 0 (unat count) s1) (\<lambda>s2. Inr (nodes, s2)))"

section \<open>The messages\<close>

lemma local_head:
  fixes s :: "'a net_scheme"
  assumes "stocked (8 # ns) s" "mem_ok s"
  obtains a t0 t1 t2 t rest where "c_alloca 8 s = Inr (a, t0)" "store_word 4 (a + 4) (n :: u32) t0 = Inr t1"
    and "store_word 2 a (opr :: u16) t1 = Inr t2" "store_word 2 (a + 2) (v :: u16) t2 = Inr t"
    and "mem_ok t" "stocked ns t" "heap_of s a = None" "mem.more t = mem.more s"
    and "heap_of t = (heap_of s)(a \<mapsto> enc_dic_main_server_req_head_generic
      \<lparr>ms_req_head_operation = opr, ms_req_head_version = v, ms_req_head_body_size = n\<rparr> @ rest)"
proof -
  from assms(1) obtain d where d: "grants 8 d s" "stocked ns (add_block d s)" by (rule stocked_Cons)
  let ?t0 = "add_block d s" and ?a = "fst d"
  have m: "mem_ok ?t0" "heap_of ?t0 ?a = Some (snd d)" "8 \<le> length (snd d)"
    using grants_mem_ok [OF d(1) assms(2)] grants_length [OF d(1)] by simp_all
  let ?b1 = "patch (snd d) 4 (enc_word 4 n)"
  let ?b2 = "patch ?b1 0 (enc_word 2 opr)"
  let ?b3 = "patch ?b2 2 (enc_word 2 v)"
  have st1: "store_word 4 (?a + 4) n ?t0 = Inr (set_block ?a ?b1 ?t0)"
    unfolding store_word_def using m by (intro store_in_block) simp_all
  have st2: "store_word 2 ?a opr (set_block ?a ?b1 ?t0) = Inr (set_block ?a ?b2 ?t0)"
    unfolding store_word_def using m(3) by (intro store_set_block0 [OF m(1,2)]) simp_all
  have st3: "store_word 2 (?a + 2) v (set_block ?a ?b2 ?t0) = Inr (set_block ?a ?b3 ?t0)"
    unfolding store_word_def using m(3) by (intro store_set_block [OF m(1,2)]) simp_all
  have b3: "?b3 = enc_dic_main_server_req_head_generic
      \<lparr>ms_req_head_operation = opr, ms_req_head_version = v, ms_req_head_body_size = n\<rparr> @ drop 8 (snd d)"
    using m(3) by (simp add: patch_def enc_dic_main_server_req_head_generic_def)
  have len: "length ?b3 = length (snd d)" using m(3) by simp
  have "heap_of (set_block ?a ?b3 ?t0) = (heap_of s)(?a \<mapsto> ?b3)" by auto
  then show ?thesis
    using that [OF c_alloca_grants [OF d(1)] st1 st2 st3] set_block_mem_ok [OF m(1,2) len]
      stocked_set_block [OF m(1,2) len] d(2) grants_fresh [OF d(1) assms(2)] b3 by simp
qed

lemma load_u32: "mem_ok s \<Longrightarrow> heap_of s a = Some (enc_word 4 (w :: u32) @ rest) \<Longrightarrow> load_word 4 a s = Inr w"
  by (simp add: load_word_at0)

section \<open>The query returns the table of the server\<close>

text \<open>The request on the wire.\<close>

definition info_request :: "byte list" where
  "info_request = enc_dic_main_server_req_head_generic \<lparr>ms_req_head_operation = main_op_code DIC_GET_INFO,
     ms_req_head_version = 0, ms_req_head_body_size = 0\<rparr>"

definition info_table :: "dic_node_info list \<Rightarrow> byte list" where
  "info_table is = enc_dic_resp_get_info \<lparr>resp_get_info_count = word_of_nat (length is), resp_get_info_nodes = is\<rparr>"

lemma length_info_table: "length (info_table is) = 4 + 24 * length is"
  using node_info_codec.array_length [of "is"]
  by (simp add: info_table_def enc_dic_resp_get_info_def sizeof_dic_node_info_def)

lemma listing_framed:
  "listing is = enc_word 4 (word_of_nat (length (info_table is)) :: u32) @ info_table is"
  by (simp add: listing_def length_info_table enc_dic_main_server_resp_head_generic_def flip: info_table_def)

lemma dic_get_nodes_info_receives:
  fixes s :: "'a net_scheme"
  assumes con: "connected conn c k s" "\<not> sk_reset k" "concat (sk_in k) = listing is @ rest"
    and mem: "mem_ok s" "stocked [8, 4, 4 + 24 * length is] s" and small: "4 + 24 * length is < 2 ^ 31"
  shows "\<exists>p s' bs ks. dic_get_nodes_info conn s = Inr (p, s') \<and> 0 < p \<and> heap_of s p = None \<and>
    heap_of s' = (heap_of s)(p \<mapsto> info_table is @ bs) \<and> mem_ok s' \<and> conns s' = conns s \<and>
    concat ks = rest \<and> [] \<notin> set ks \<and>
    socks s' = (socks s)(sockfd c \<mapsto> k\<lparr>sk_in := ks, sk_out := sk_out k @ info_request\<rparr>)"
proof -
  let ?L = "length (info_table is)" and ?k = "k\<lparr>sk_out := sk_out k @ info_request\<rparr>"
  obtain a t0 t1 t2 t j where head: "c_alloca 8 s = Inr (a, t0)" "store_word 4 (a + 4) (0 :: u32) t0 = Inr t1"
      "store_word 2 a (main_op_code DIC_GET_INFO) t1 = Inr t2" "store_word 2 (a + 2) (0 :: u16) t2 = Inr t"
    and t: "mem_ok t" "stocked [4, 4 + 24 * length is] t" "heap_of s a = None" "mem.more t = mem.more s"
      "heap_of t = (heap_of s)(a \<mapsto> info_request @ j)"
    unfolding info_request_def by (rule local_head [OF mem(2,1)])
  have len: "size_of_int 8 = length info_request" "length info_request < 2 ^ 31" "heap_of t a = Some (info_request @ j)"
    using t(5) by (simp_all add: info_request_def ms_req_head_codec.enc_length sizeof_dic_main_server_req_head_generic_def)
  obtain s5 where send: "dic_conn_send conn a 8 t = Inr (0, s5)"
    and s5: "heap_of s5 = heap_of t" "mem_ok s5" "\<forall>ns. stocked ns s5 = stocked ns t" "connected conn c ?k s5"
      "conns s5 = conns t" "socks s5 = (socks t)(sockfd c \<mapsto> ?k)" "net.more s5 = net.more t"
    by (rule send_bytes [OF connected_more [OF con(1) t(4)] con(2) t(1) len(3,1,2)])
  have pre: "concat (sk_in ?k) = enc_word 4 (word_of_nat ?L :: u32) @ info_table is @ rest" "stocked [4, ?L] s5" "?L < 2 ^ 31"
    using con(3) s5(3) t(2) small by (simp_all add: listing_framed length_info_table)
  obtain h u1 u2 p u3 u4 bs ks where recv: "c_alloca 4 s5 = Inr (h, u1)" "dic_conn_recv conn h 4 False u1 = Inr (0, u2)"
      "load_word 4 h u2 = Inr (word_of_nat ?L :: u32)" "unat (word_of_nat ?L :: u32) = ?L" "c_malloc ?L u2 = (p, u3)"
      "dic_conn_recv conn p (word_of_nat ?L) False u3 = Inr (0, u4)"
    and u4: "heap_of (del_block h u4) = (heap_of s5)(p \<mapsto> info_table is @ bs)" "heap_of s5 p = None" "mem_ok u4"
      "0 < p" "concat ks = rest" "[] \<notin> set ks" "conns u4 = conns s5" "net.more u4 = net.more s5"
      "socks u4 = (socks s5)(sockfd c \<mapsto> ?k\<lparr>sk_in := ks\<rparr>)"
    by (rule receive_framed [OF s5(4) pre(1) s5(2) pre(2,3)])
  let ?s' = "del_block h (del_block a u4)"
  have "dic_get_nodes_info conn s = Inr (p, ?s')"
    using head send recv by (simp add: dic_get_nodes_info_def sizeof_dic_main_server_req_head_generic_def
        sizeof_dic_main_server_resp_head_generic_def)
  moreover have "p \<noteq> a" "heap_of s p = None" using u4(2) s5(1) t(5) by (auto split: if_splits)
  moreover from this have "heap_of ?s' = (heap_of s)(p \<mapsto> info_table is @ bs)"
    unfolding del_block_commute [of h a] heap_of_del_block [of a] u4(1) s5(1) t(5) using t(3) by auto
  moreover have "conns ?s' = conns s" "socks ?s' = (socks s)(sockfd c \<mapsto> k\<lparr>sk_in := ks, sk_out := sk_out k @ info_request\<rparr>)"
    using u4(7,9) s5(5,6) more_net [OF t(4)] by (simp_all add: del_block_def sk_swap)
  ultimately show ?thesis using u4(3,4,5,6) by auto
qed

section \<open>The announcement is confirmed\<close>

text \<open>The two locals for the answer, filled from the stream and dropped again.\<close>

lemma receive_confirmation:
  fixes s :: "'a net_scheme"
  assumes con: "connected conn c k s" "concat (sk_in k) = confirmation @ rest"
    and ok: "mem_ok s" and mem: "stocked [4, 4] s"
  obtains rh s1 rb s2 s3 s4 ks where
    "c_alloca 4 s = Inr (rh, s1)" "c_alloca 4 s1 = Inr (rb, s2)" "dic_conn_recv conn rh 4 False s2 = Inr (0, s3)"
    "load_word 4 rh s3 = Inr (4 :: u32)" "dic_conn_recv conn rb 4 False s3 = Inr (0, s4)"
    "load_word 4 rb s4 = Inr (0 :: u32)" "heap_of (del_block rb (del_block rh s4)) = heap_of s" "mem_ok s4"
    "conns s4 = conns s" "concat ks = rest" "[] \<notin> set ks" "socks s4 = (socks s)(sockfd c \<mapsto> k\<lparr>sk_in := ks\<rparr>)"
proof -
  from mem obtain b1 where b1: "grants 4 b1 s" "stocked [4] (add_block b1 s)" by (rule stocked_Cons)
  let ?s1 = "add_block b1 s"
  from b1(2) obtain b2 where b2: "grants 4 b2 ?s1" by (rule stocked_Cons)
  let ?s2 = "add_block b2 ?s1"
  have o1: "mem_ok ?s1" "mem_ok ?s2" using grants_mem_ok b1(1) b2 ok by blast+
  have fr: "heap_of s (fst b1) = None" "heap_of s (fst b2) = None" "fst b1 \<noteq> fst b2"
    using grants_fresh [OF b1(1) ok] grants_fresh [OF b2 o1(1)] by (auto split: if_splits)
  have len: "4 \<le> length (snd b1)" "4 \<le> length (snd b2)" using grants_length b1(1) b2 by blast+
  have more: "mem.more ?s2 = mem.more s" by simp
  have in4: "concat (sk_in k) = enc_word 4 (4 :: u32) @ enc_word 4 (0 :: u32) @ rest"
    using con(2) by (simp add: confirmation_def enc_dic_main_server_resp_head_generic_def enc_dic_resp_announce_info_def)
  have h2: "heap_of ?s2 (fst b1) = Some (snd b1)" "length (enc_word 4 (4 :: u32)) \<le> length (snd b1)"
    "size_of_int 4 = length (enc_word 4 (4 :: u32))" using fr(3) len by simp_all
  obtain s3 k3 where r3: "dic_conn_recv conn (fst b1) 4 False ?s2 = Inr (0, s3)"
    and s3: "connected conn c (k\<lparr>sk_in := k3\<rparr>) s3" "concat k3 = enc_word 4 (0 :: u32) @ rest" "mem_ok s3"
      "\<forall>ns. stocked ns s3 = stocked ns ?s2" "heap_of s3 = (heap_of ?s2)(fst b1 \<mapsto> patch (snd b1) 0 (enc_word 4 (4 :: u32)))"
      "conns s3 = conns ?s2" "socks s3 = (socks ?s2)(sockfd c \<mapsto> k\<lparr>sk_in := k3\<rparr>)" "net.more s3 = net.more ?s2"
    by (rule recv_into_object [OF connected_more [OF con(1) more] in4 o1(2) h2])
  have h3: "heap_of s3 (fst b2) = Some (snd b2)" "length (enc_word 4 (0 :: u32)) \<le> length (snd b2)"
    "size_of_int 4 = length (enc_word 4 (0 :: u32))" "concat (sk_in (k\<lparr>sk_in := k3\<rparr>)) = enc_word 4 (0 :: u32) @ rest"
    using fr(3) len s3(2,5) by simp_all
  obtain s4 ks where r4: "dic_conn_recv conn (fst b2) 4 False s3 = Inr (0, s4)"
    and s4: "connected conn c (k\<lparr>sk_in := ks\<rparr>) s4" "concat ks = rest" "mem_ok s4" "\<forall>ns. stocked ns s4 = stocked ns s3"
      "heap_of s4 = (heap_of s3)(fst b2 \<mapsto> patch (snd b2) 0 (enc_word 4 (0 :: u32)))"
      "conns s4 = conns s3" "socks s4 = (socks s3)(sockfd c \<mapsto> k\<lparr>sk_in := ks\<rparr>)" "net.more s4 = net.more s3"
    by (rule recv_into_object [OF s3(1) h3(4) s3(3) h3(1-3), unfolded sk_in_twice])
  have l: "load_word 4 (fst b1) s3 = Inr (4 :: u32)" "load_word 4 (fst b2) s4 = Inr (0 :: u32)"
    using load_u32 [OF s3(3), of "fst b1"] load_u32 [OF s4(3), of "fst b2"] s3(5) s4(5)
    by (simp_all add: patch_def)
  have "heap_of (del_block (fst b2) (del_block (fst b1) s4)) = heap_of s"
    using s4(5) s3(5) fr by auto
  with l s3 s4 r3 r4 show ?thesis
    using that [OF c_alloca_grants [OF b1(1)] c_alloca_grants [OF b2]] more_net [OF more]
    by (auto simp: connected_def)
qed

definition announcement :: "c_int \<Rightarrow> byte list" where
  "announcement cores = enc_dic_main_server_req_head_generic
       \<lparr>ms_req_head_operation = main_op_code DIC_ANNOUNCE_INFO, ms_req_head_version = 1, ms_req_head_body_size = 4\<rparr> @
     enc_dic_req_announce_info \<lparr>req_announce_info_core_count = cores\<rparr>"

text \<open>Both parts of the announcement go out from their locals.\<close>

lemma send_announcement:
  fixes s :: "'a net_scheme"
  assumes con: "connected conn c k s" "\<not> sk_reset k" and ok: "mem_ok s" and mem: "stocked (4 # 8 # ns) s"
  obtains b s1 s2 h s3 s4 s5 s6 s7 s8 where
    "c_alloca 4 s = Inr (b, s1)" "store_word 4 b cores s1 = Inr s2" "c_alloca 8 s2 = Inr (h, s3)"
    "store_word 4 (h + 4) (4 :: u32) s3 = Inr s4" "store_word 2 h (main_op_code DIC_ANNOUNCE_INFO) s4 = Inr s5"
    "store_word 2 (h + 2) (1 :: u16) s5 = Inr s6" "dic_conn_send conn h 8 s6 = Inr (0, s7)"
    "dic_conn_send conn b 4 s7 = Inr (0, s8)" "connected conn c (k\<lparr>sk_out := sk_out k @ announcement cores\<rparr>) s8"
    "mem_ok s8" "stocked ns s8" "conns s8 = conns s" "heap_of (del_block h (del_block b s8)) = heap_of s"
    "socks s8 = (socks s)(sockfd c \<mapsto> k\<lparr>sk_out := sk_out k @ announcement cores\<rparr>)"
proof -
  obtain b s1 s2 j where b: "c_alloca 4 s = Inr (b, s1)" "store_word 4 b cores s1 = Inr s2"
    and s2: "mem_ok s2" "stocked (8 # ns) s2" "heap_of s b = None" "heap_of s2 = (heap_of s)(b \<mapsto> enc_word 4 cores @ j)"
      "mem.more s2 = mem.more s"
    by (rule local_word [OF mem ok])
  let ?hd = "enc_dic_main_server_req_head_generic \<lparr>ms_req_head_operation = main_op_code DIC_ANNOUNCE_INFO,
    ms_req_head_version = 1, ms_req_head_body_size = 4\<rparr>"
  obtain h s3 s4 s5 s6 r where h: "c_alloca 8 s2 = Inr (h, s3)" "store_word 4 (h + 4) (4 :: u32) s3 = Inr s4"
      "store_word 2 h (main_op_code DIC_ANNOUNCE_INFO) s4 = Inr s5" "store_word 2 (h + 2) (1 :: u16) s5 = Inr s6"
    and s6: "mem_ok s6" "stocked ns s6" "heap_of s2 h = None" "mem.more s6 = mem.more s2"
      "heap_of s6 = (heap_of s2)(h \<mapsto> ?hd @ r)"
    by (rule local_head [OF s2(2,1)])
  have m: "mem.more s6 = mem.more s" using s6(4) s2(5) by simp
  have ne: "h \<noteq> b" "heap_of s h = None" using s6(3) s2(4) by (auto split: if_splits)
  have hd: "heap_of s6 h = Some (?hd @ r)" "size_of_int 8 = length ?hd" "length ?hd < 2 ^ 31"
    using s6(5) by (simp_all add: ms_req_head_codec.enc_length sizeof_dic_main_server_req_head_generic_def)
  have bd: "heap_of s6 b = Some (enc_word 4 cores @ j)" "size_of_int 4 = length (enc_word 4 cores)" "length (enc_word 4 cores) < 2 ^ 31"
    using s6(5) s2(4) ne(1) by simp_all
  obtain s7 s8 where t7: "dic_conn_send conn h 8 s6 = Inr (0, s7)" and t8: "dic_conn_send conn b 4 s7 = Inr (0, s8)"
    and s8: "heap_of s8 = heap_of s6" "mem_ok s8" "\<forall>ns. stocked ns s8 = stocked ns s6"
      "connected conn c (k\<lparr>sk_out := sk_out k @ ?hd @ enc_word 4 cores\<rparr>) s8" "conns s8 = conns s6"
      "socks s8 = (socks s6)(sockfd c \<mapsto> k\<lparr>sk_out := sk_out k @ ?hd @ enc_word 4 cores\<rparr>)"
    by (rule send_two [OF connected_more [OF con(1) m] con(2) s6(1) hd bd])
  have "announcement cores = ?hd @ enc_word 4 cores"
    by (simp add: announcement_def enc_dic_req_announce_info_def)
  moreover have "heap_of (del_block h (del_block b s8)) = heap_of s"
    using s8(1) s6(5) s2(3,4) ne by auto
  ultimately show ?thesis
    using that [OF b h t7 t8] s8 s6 more_net [OF m] by simp
qed

lemma notify_main_server_confirmed:
  fixes s :: "'a net_scheme"
  assumes con: "connected conn c k s" "\<not> sk_reset k" "concat (sk_in k) = confirmation @ rest"
    and ok: "mem_ok s" and mem: "stocked [4, 8, 4, 4] s"
  shows "\<exists>s' ks. notify_main_server cores conn s = Inr (0, s') \<and> heap_of s' = heap_of s \<and> mem_ok s' \<and>
    conns s' = conns s \<and> concat ks = rest \<and> [] \<notin> set ks \<and>
    socks s' = (socks s)(sockfd c \<mapsto> k\<lparr>sk_in := ks, sk_out := sk_out k @ announcement cores\<rparr>)"
proof -
  let ?k = "k\<lparr>sk_out := sk_out k @ announcement cores\<rparr>"
  obtain b s1 s2 h s3 s4 s5 s6 s7 s8 where run: "c_alloca 4 s = Inr (b, s1)" "store_word 4 b cores s1 = Inr s2"
      "c_alloca 8 s2 = Inr (h, s3)" "store_word 4 (h + 4) (4 :: u32) s3 = Inr s4"
      "store_word 2 h (main_op_code DIC_ANNOUNCE_INFO) s4 = Inr s5" "store_word 2 (h + 2) (1 :: u16) s5 = Inr s6"
      "dic_conn_send conn h 8 s6 = Inr (0, s7)" "dic_conn_send conn b 4 s7 = Inr (0, s8)"
    and s8: "connected conn c ?k s8" "mem_ok s8" "stocked [4, 4] s8" "conns s8 = conns s"
      "heap_of (del_block h (del_block b s8)) = heap_of s" "socks s8 = (socks s)(sockfd c \<mapsto> ?k)"
    by (rule send_announcement [OF con(1,2) ok mem])
  have in8: "concat (sk_in ?k) = confirmation @ rest" using con(3) by simp
  obtain rh t1 rb t2 t3 t4 ks where recv: "c_alloca 4 s8 = Inr (rh, t1)" "c_alloca 4 t1 = Inr (rb, t2)"
      "dic_conn_recv conn rh 4 False t2 = Inr (0, t3)" "load_word 4 rh t3 = Inr (4 :: u32)"
      "dic_conn_recv conn rb 4 False t3 = Inr (0, t4)" "load_word 4 rb t4 = Inr (0 :: u32)"
    and t4: "heap_of (del_block rb (del_block rh t4)) = heap_of s8" "mem_ok t4" "conns t4 = conns s8"
      "concat ks = rest" "[] \<notin> set ks" "socks t4 = (socks s8)(sockfd c \<mapsto> ?k\<lparr>sk_in := ks\<rparr>)"
    by (rule receive_confirmation [OF s8(1) in8 s8(2,3)])
  let ?s' = "del_block rb (del_block rh (del_block h (del_block b t4)))"
  have "notify_main_server cores conn s = Inr (0, ?s')"
    using run recv by (simp add: notify_main_server_def sizeof_dic_req_announce_info_def
        sizeof_dic_main_server_req_head_generic_def sizeof_dic_main_server_resp_head_generic_def
        sizeof_dic_resp_announce_info_def)
  moreover have "heap_of ?s' = heap_of (del_block h (del_block b s8))"
  proof -
    have "?s' = del_block h (del_block b (del_block rb (del_block rh t4)))"
      by (metis del_block_commute)
    then show ?thesis using t4(1) by simp
  qed
  moreover have "conns ?s' = conns s"
    "socks ?s' = (socks s)(sockfd c \<mapsto> k\<lparr>sk_in := ks, sk_out := sk_out k @ announcement cores\<rparr>)"
    using t4(3,6) s8(4,6) by (simp_all add: del_block_def sk_swap)
  ultimately show ?thesis using s8(5) t4(2,4,5) by auto
qed

section \<open>Connecting to all nodes\<close>

text \<open>The address of the \<open>i\<close>-th node, read from the table.\<close>

lemma dec_ip_addr_take: "dec_ip_addr (take 20 bs) = address (dec_dic_node_info bs)"
  by (simp add: dec_ip_addr_def dec_dic_node_info_def drop_take)

lemma table_address:
  assumes "mem_ok s" "heap_of s p = Some (info_table is @ sl)" "i < length is"
  obtains bs where "load (p + sizeof_dic_resp_get_info + sizeof_dic_node_info * i) sizeof_ip_addr s = Inr bs"
    and "dec_ip_addr bs = address (is ! i)"
proof -
  let ?t = "concat (map enc_dic_node_info is) @ sl"
  have split: "info_table is @ sl = enc_word 4 (word_of_nat (length is) :: u32) @ ?t"
    by (simp add: info_table_def enc_dic_resp_get_info_def)
  have "load (p + (4 + 24 * i)) 20 s = Inr (take 20 (drop (4 + 24 * i) (info_table is @ sl)))"
    using assms(3) by (intro load_block [OF assms(1,2)]) (simp add: length_info_table)
  then have "load (p + (4 + 24 * i)) 20 s = Inr (take 20 (drop (i * 24) ?t))"
    unfolding split by (simp add: mult.commute)
  moreover have "dec_ip_addr (take 20 (drop (i * 24) ?t)) = address (is ! i)"
    unfolding dec_ip_addr_take node_info_codec.array_nth [OF assms(3), of sl, unfolded sizeof_dic_node_info_def] ..
  ultimately show ?thesis
    by (intro that) (simp_all add: sizeof_dic_resp_get_info_def sizeof_dic_node_info_def sizeof_ip_addr_def add.assoc)
qed

text \<open>\<open>linked_up\<close>: the array holds the pointers \<open>ps\<close> from index \<open>i\<close> on, and each is a connection to its node.\<close>

definition linked_up :: "dic_node_info list \<Rightarrow> nat \<Rightarrow> nat list \<Rightarrow> byte list \<Rightarrow> 'a net_scheme \<Rightarrow> bool" where
  "linked_up is i ps arr s \<longleftrightarrow> (\<forall>j < length ps.
     take 8 (drop (8 * (i + j)) arr) = enc_word 8 (word_of_nat (ps ! j) :: u64) \<and>
     (\<exists>c. conns s (ps ! j) = Some c \<and> ip c = address (is ! (i + j)) \<and> port c = DIC_NODE_PORT))"

lemma connect_nodes_links:
  fixes s :: "'a net_scheme"
  assumes "heap_of s p = Some (info_table is @ sl)" "heap_of s q = Some arr" "p \<noteq> q" "mem_ok s"
    and "8 * length is \<le> length arr" "i + n = length is" "stocked (replicate n sizeof_dic_conn) s"
  shows "\<exists>s' ps arr'. connect_nodes p q i n s = Inr s' \<and> length ps = n \<and> mem_ok s' \<and>
    heap_of s' q = Some arr' \<and> take (8 * i) arr' = take (8 * i) arr \<and> linked_up is i ps arr' s' \<and>
    (\<forall>a. heap_of s a \<noteq> None \<longrightarrow> conns s' a = conns s a \<and> (a \<noteq> q \<longrightarrow> heap_of s' a = heap_of s a))"
  using assms
proof (induction n arbitrary: i s arr)
  case 0
  then show ?case by (auto simp: linked_up_def)
next
  case (Suc n)
  then have i: "i < length is" and st: "stocked (sizeof_dic_conn # replicate n sizeof_dic_conn) s" by simp_all
  obtain bs where ld: "load (p + sizeof_dic_resp_get_info + sizeof_dic_node_info * i) sizeof_ip_addr s = Inr bs"
    and addr: "dec_ip_addr bs = address (is ! i)" by (rule table_address [OF Suc.prems(4,1) i])
  obtain node t ns c where new: "dic_conn_new (dec_ip_addr bs) DIC_NODE_PORT s = Inr (node, t)" "heap_of s node = None"
    and t: "mem_ok t" "stocked (replicate n sizeof_dic_conn) t" "heap_of t = (heap_of s)(node \<mapsto> ns)"
      "conns t = (conns s)(node \<mapsto> c)" "ip c = dec_ip_addr bs" "port c = DIC_NODE_PORT"
    using dic_conn_new_fresh [OF st Suc.prems(4), of "dec_ip_addr bs" DIC_NODE_PORT] by metis
  let ?w = "enc_word 8 (word_of_nat node :: u64)"
  let ?arr = "patch arr (8 * i) ?w" and ?u = "set_block q (patch arr (8 * i) ?w) t"
  have ne: "node \<noteq> q" "node \<noteq> p" using new(2) Suc.prems(1,2) by auto
  have room: "8 * i + 8 \<le> length arr" using i Suc.prems(5) by simp
  have q: "heap_of t q = Some arr" using t(3) ne Suc.prems(2) by simp
  have store: "store_word 8 (q + 8 * i) (word_of_nat node :: u64) t = Inr ?u"
    unfolding store_word_def using room by (intro store_in_block [OF t(1) q]) simp
  have len: "length ?arr = length arr" using room by simp
  have "\<exists>s' ps arr'. connect_nodes p q (i + 1) n ?u = Inr s' \<and> length ps = n \<and> mem_ok s' \<and>
    heap_of s' q = Some arr' \<and> take (8 * (i + 1)) arr' = take (8 * (i + 1)) ?arr \<and> linked_up is (i + 1) ps arr' s' \<and>
    (\<forall>a. heap_of ?u a \<noteq> None \<longrightarrow> conns s' a = conns ?u a \<and> (a \<noteq> q \<longrightarrow> heap_of s' a = heap_of ?u a))"
    using Suc.prems t ne q len set_block_mem_ok [OF t(1) q len] stocked_set_block [OF t(1) q len]
    by (intro Suc.IH) simp_all
  then obtain s' ps arr' where s': "connect_nodes p q (i + 1) n ?u = Inr s'" "length ps = n" "mem_ok s'"
    "heap_of s' q = Some arr'" "take (8 * (i + 1)) arr' = take (8 * (i + 1)) ?arr" "linked_up is (i + 1) ps arr' s'"
    "\<forall>a. heap_of ?u a \<noteq> None \<longrightarrow> conns s' a = conns ?u a \<and> (a \<noteq> q \<longrightarrow> heap_of s' a = heap_of ?u a)" by blast
  have run: "connect_nodes p q i (Suc n) s = Inr s'" using ld new(1) store s'(1) by simp
  have "take 8 (drop (8 * i) arr') = take 8 (drop (8 * i) (take (8 * (i + 1)) arr'))" by (simp add: drop_take)
  also have "\<dots> = ?w" unfolding s'(5) using room by (simp add: drop_take patch_def)
  finally have first: "take 8 (drop (8 * i) arr') = ?w" .
  have "conns s' node = Some c" using s'(7) t(3,4) ne by auto
  then have "linked_up is i (node # ps) arr' s'"
    using first s'(6) addr t(5,6) by (auto simp: linked_up_def less_Suc_eq_0_disj ac_simps)
  moreover have "take (8 * i) arr' = take (8 * i) (take (8 * (i + 1)) arr')" by (simp add: min_def)
  then have "take (8 * i) arr' = take (8 * i) arr" unfolding s'(5) using room by (simp add: patch_def min_def)
  moreover have "conns s' a = conns s a \<and> (a \<noteq> q \<longrightarrow> heap_of s' a = heap_of s a)" if "heap_of s a \<noteq> None" for a
  proof -
    have a: "a \<noteq> node" using that new(2) by auto
    then have "heap_of ?u a \<noteq> None" using that t(3) by auto
    with s'(7) have "conns s' a = conns ?u a \<and> (a \<noteq> q \<longrightarrow> heap_of s' a = heap_of ?u a)" by blast
    with a t(3,4) show ?thesis by simp
  qed
  ultimately show ?case using run s'(2,3,4) by (intro exI [of _ s'] exI [of _ "node # ps"] exI [of _ arr']) simp
qed

text \<open>C20. From the table of the main server \<open>dic_nodes_connect_all\<close> makes an array with one connection per node,
  in the order of the table, each with the address of its node and the port of compute nodes.\<close>

theorem dic_nodes_connect_all_links:
  fixes s :: "'a net_scheme"
  assumes p: "heap_of s p = Some (info_table is @ sl)" and ok: "mem_ok s" and n: "length is < 2 ^ 32"
    and mem: "stocked (8 * length is # replicate (length is) sizeof_dic_conn) s"
  shows "\<exists>q s' ps arr. dic_nodes_connect_all p s = Inr (q, s') \<and> length ps = length is \<and>
    heap_of s' q = Some arr \<and> linked_up is 0 ps arr s' \<and> heap_of s' p = heap_of s p"
proof -
  from mem obtain b where b: "grants (8 * length is) b s" "stocked (replicate (length is) sizeof_dic_conn) (add_block b s)"
    by (rule stocked_Cons)
  have q: "heap_of s (fst b) = None" "mem_ok (add_block b s)" "8 * length is \<le> length (snd b)"
    using grants_fresh [OF b(1) ok] grants_mem_ok [OF b(1) ok] grants_length [OF b(1)] .
  have "load_word 4 p s = Inr (word_of_nat (length is) :: u32)"
    using p by (intro load_u32 [OF ok]) (simp add: info_table_def enc_dic_resp_get_info_def)
  moreover have "unat (word_of_nat (length is) :: u32) = length is" using n by (subst unat_of_nat) simp
  moreover have pq: "p \<noteq> fst b" using p q(1) by auto
  then obtain s' ps arr where "connect_nodes p (fst b) 0 (length is) (add_block b s) = Inr s'" "length ps = length is"
    "heap_of s' (fst b) = Some arr" "linked_up is 0 ps arr s'"
    "\<forall>a. heap_of (add_block b s) a \<noteq> None \<longrightarrow> conns s' a = conns (add_block b s) a \<and>
      (a \<noteq> fst b \<longrightarrow> heap_of s' a = heap_of (add_block b s) a)"
    using connect_nodes_links [of "add_block b s" p "is" sl "fst b" "snd b" 0 "length is"] p q(2,3) b(2) by auto
  ultimately show ?thesis
    using c_malloc_grants [OF b(1)] p pq
    by (intro exI [of _ "fst b"] exI [of _ s'] exI [of _ ps] exI [of _ arr]) (simp add: dic_nodes_connect_all_def)
qed

end
