(* ===== verification/Main_Server_Links.thy ===== *)
theory Main_Server_Links
  imports Main_Server_Correct
begin

text \<open>
  The list of the main server when nodes come and go in any order. The departure of the first node loses
  the list (theory Main_Server_Correct), but not the links: every node in memory, listed or lost, stays
  linked both ways with its neighbours and without cycles. So \<open>remove_info\<close> succeeds for every node in
  memory and keeps this, and so does \<open>append_info\<close>. Theory Main_Process builds the invariant of the server on it.
\<close>

section \<open>The invariant\<close>

text \<open>Every node in memory, listed or lost, is linked both ways with its neighbours, and the links do not
  form a cycle: some rank grows along \<open>next\<close>.\<close>

definition node_linked :: "ll_table \<Rightarrow> nat \<Rightarrow> linked_list_node_info \<Rightarrow> bool" where
  "node_linked m a n \<longleftrightarrow>
     (ll_next n \<noteq> 0 \<longrightarrow> (\<exists>x. m (ll_next n) = Some x \<and> ll_prev x = a)) \<and>
     (ll_prev n \<noteq> 0 \<longrightarrow> (\<exists>x. m (ll_prev n) = Some x \<and> ll_next x = a))"

definition ranked :: "(nat \<Rightarrow> nat) \<Rightarrow> ll_table \<Rightarrow> bool" where
  "ranked rk m \<longleftrightarrow> (\<forall>a n. m a = Some n \<longrightarrow> ll_next n \<noteq> 0 \<longrightarrow> rk a < rk (ll_next n))"

definition linked :: "'a main_server_scheme \<Rightarrow> bool" where
  "linked s \<longleftrightarrow> (\<forall>a n. infos s a = Some n \<longrightarrow> 0 < a \<and> heap_of s a \<noteq> None \<and> node_linked (infos s) a n) \<and>
     (\<exists>rk. ranked rk (infos s))"

lemma linkedD:
  assumes "linked s" "infos s a = Some n"
  shows "0 < a" "heap_of s a \<noteq> None"
    "ll_next n \<noteq> 0 \<Longrightarrow> \<exists>x. infos s (ll_next n) = Some x \<and> ll_prev x = a"
    "ll_prev n \<noteq> 0 \<Longrightarrow> \<exists>x. infos s (ll_prev n) = Some x \<and> ll_next x = a"
    "ll_next n \<noteq> a" "ll_prev n \<noteq> a" "ll_next n = ll_prev n \<Longrightarrow> ll_next n = 0"
proof -
  from assms(1) obtain rk where rk: "ranked rk (infos s)" by (auto simp: linked_def)
  from assms show a: "0 < a" "heap_of s a \<noteq> None"
    and nx: "ll_next n \<noteq> 0 \<Longrightarrow> \<exists>x. infos s (ll_next n) = Some x \<and> ll_prev x = a"
    and pr: "ll_prev n \<noteq> 0 \<Longrightarrow> \<exists>x. infos s (ll_prev n) = Some x \<and> ll_next x = a"
    unfolding linked_def node_linked_def by blast+
  have up: "ll_next n \<noteq> 0 \<Longrightarrow> rk a < rk (ll_next n)" using rk assms(2) by (simp add: ranked_def)
  have down: "ll_prev n \<noteq> 0 \<Longrightarrow> rk (ll_prev n) < rk a" using pr rk a(1) by (fastforce simp: ranked_def)
  show "ll_next n \<noteq> a" using up a(1) by auto
  show "ll_prev n \<noteq> a" using down a(1) by auto
  show "ll_next n = ll_prev n \<Longrightarrow> ll_next n = 0" using up down by fastforce
qed

definition owns :: "(nat \<rightharpoonup> nat) \<Rightarrow> nat set \<Rightarrow> bool" where
  "owns m D \<longleftrightarrow> (\<forall>c p. m c = Some p \<longrightarrow> p \<in> D) \<and> (\<forall>c d p. m c = Some p \<longrightarrow> m d = Some p \<longrightarrow> c = d)"

lemma owns_announce: "owns m D \<Longrightarrow> p \<notin> D \<Longrightarrow> owns (m(c \<mapsto> p)) (insert p D)"
  unfolding owns_def by (auto split: if_splits)

lemma owns_leave: "owns m D \<Longrightarrow> m c = Some p \<Longrightarrow> owns (m(c := None)) (D - {p})"
  unfolding owns_def by (auto split: if_splits)

text \<open>The listed nodes are closed under both links.\<close>

lemma seg_closed:
  assumes "seg m pr p xs q" "x \<in> set xs" "m (fst x) = Some n"
  shows "ll_next n \<in> fst ` set xs \<or> ll_next n = q" "ll_prev n \<in> fst ` set xs \<or> ll_prev n = pr"
proof -
  have "(ll_next n \<in> fst ` set xs \<or> ll_next n = q) \<and> (ll_prev n \<in> fst ` set xs \<or> ll_prev n = pr)"
    using assms
  proof (induction xs arbitrary: pr p)
    case (Cons y ys)
    from Cons.prems(1) obtain ny where y: "p = fst y" "m p = Some ny" "ll_prev ny = pr"
      "seg m p (ll_next ny) ys q" by (auto split: option.splits)
    have nx: "ll_next ny = q \<or> ll_next ny \<in> fst ` set ys" using y(4) by (cases ys) auto
    show ?case
    proof (cases "x = y \<or> fst x = fst y")
      case True
      then have "n = ny" using Cons.prems(3) y(1,2) by auto
      with nx y(3) show ?thesis by (simp, blast)
    next
      case False
      with Cons.prems(2) have "x \<in> set ys" by auto
      from Cons.IH [OF y(4) this Cons.prems(3)] y(1) show ?thesis by auto
    qed
  qed simp
  then show "ll_next n \<in> fst ` set xs \<or> ll_next n = q" "ll_prev n \<in> fst ` set xs \<or> ll_prev n = pr" by auto
qed

lemma unlink_dom: "dom (unlink a pr nx m) = dom m - {a}"
  by (auto simp: unlink_def Let_def dom_def split: if_splits)

text \<open>A removal of a node in memory succeeds, and its effect is known.\<close>

lemma linked_remove:
  assumes l: "linked s" and ok: "mem_ok s" and a: "infos s a = Some n"
  obtains s' where "remove_info a s = Inr s'" "infos s' = unlink a (ll_prev n) (ll_next n) (infos s)"
    "NODES_INFO s' = (if ll_prev n = 0 then 0 else NODES_INFO s)" "mem_ok s'"
    "heap_of s' = (heap_of s)(a := None)"
proof -
  note L = linkedD [OF l a]
  have "ll_next n \<noteq> 0 \<longrightarrow> infos s (ll_next n) \<noteq> None" "ll_prev n \<noteq> 0 \<longrightarrow> infos s (ll_prev n) \<noteq> None"
    using L(3,4) by auto
  from remove_info_unlink [OF L(1) a L(2) ok this(1) L(5) this(2) L(6)] that show ?thesis by blast
qed

text \<open>What a removal does to a remaining node.\<close>

definition relink :: "nat \<Rightarrow> nat \<Rightarrow> nat \<Rightarrow> linked_list_node_info \<Rightarrow> linked_list_node_info" where
  "relink pr nx z v = v\<lparr>ll_prev := if nx \<noteq> 0 \<and> z = nx then pr else ll_prev v,
     ll_next := if pr \<noteq> 0 \<and> z = pr then nx else ll_next v\<rparr>"

lemma relink_links [simp]:
  "ll_prev (relink pr nx z v) = (if nx \<noteq> 0 \<and> z = nx then pr else ll_prev v)"
  "ll_next (relink pr nx z v) = (if pr \<noteq> 0 \<and> z = pr then nx else ll_next v)"
  by (simp_all add: relink_def)

lemma unlink_at:
  assumes "nx \<noteq> pr \<or> nx = 0"
  shows "unlink a pr nx m z = (if z = a then None else map_option (relink pr nx z) (m z))"
  using assms by (cases "m z") (auto simp: unlink_def Let_def relink_def)

lemma linked_unlink:
  assumes l: "linked s" and a: "infos s a = Some n"
    and s': "infos s' = unlink a (ll_prev n) (ll_next n) (infos s)" "heap_of s' = (heap_of s)(a := None)"
  shows "linked s'"
proof -
  let ?pr = "ll_prev n" and ?nx = "ll_next n"
  note A = linkedD [OF l a]
  have at: "infos s' z = (if z = a then None else map_option (relink ?pr ?nx z) (infos s z))" for z
    unfolding s'(1) using A(7) by (intro unlink_at) auto
  from l obtain rk where rk: "ranked rk (infos s)" by (auto simp: linked_def)
  have "0 < b \<and> heap_of s' b \<noteq> None \<and> node_linked (infos s') b x \<and> (ll_next x \<noteq> 0 \<longrightarrow> rk b < rk (ll_next x))"
    if b: "infos s' b = Some x" for b x
  proof -
    from b obtain w where ba: "b \<noteq> a" and w: "infos s b = Some w" and x: "x = relink ?pr ?nx b w"
      unfolding at by (auto split: if_splits)
    note B = linkedD [OF l w]
    have next_b: "ll_next w = a \<Longrightarrow> b = ?pr" using B(1,3) A(1) a by fastforce
    have prev_b: "ll_prev w = a \<Longrightarrow> b = ?nx" using B(1,4) A(1) a by fastforce
    have "\<exists>y. infos s' (ll_next x) = Some y \<and> ll_prev y = b" if nz: "ll_next x \<noteq> 0"
    proof (cases "b = ?pr")
      case True
      with nz x B(1) have "?nx \<noteq> 0" "ll_next x = ?nx" by auto
      with A(3,5) True show ?thesis by (auto simp: at)
    next
      case False
      with nz x have nw: "ll_next x = ll_next w" "ll_next w \<noteq> 0" "ll_next w \<noteq> a" using next_b by auto
      with B(3) obtain y where y: "infos s (ll_next w) = Some y" "ll_prev y = b" by auto
      then have "ll_next w \<noteq> ?nx" using A(3) ba nw(2) by fastforce
      with nw y show ?thesis by (auto simp: at)
    qed
    moreover have "\<exists>y. infos s' (ll_prev x) = Some y \<and> ll_next y = b" if nz: "ll_prev x \<noteq> 0"
    proof (cases "b = ?nx")
      case True
      with nz x B(1) have "?pr \<noteq> 0" "ll_prev x = ?pr" by auto
      with A(4,6) True show ?thesis by (auto simp: at)
    next
      case False
      with nz x have pw: "ll_prev x = ll_prev w" "ll_prev w \<noteq> 0" "ll_prev w \<noteq> a" using prev_b by auto
      with B(4) obtain y where y: "infos s (ll_prev w) = Some y" "ll_next y = b" by auto
      then have "ll_prev w \<noteq> ?pr" using A(4) ba pw(2) by fastforce
      with pw y show ?thesis by (auto simp: at)
    qed
    moreover have "rk b < rk (ll_next x)" if nz: "ll_next x \<noteq> 0"
    proof (cases "b = ?pr")
      case True
      with nz x B(1) have nx: "?nx \<noteq> 0" "ll_next x = ?nx" "?pr \<noteq> 0" by auto
      then have "rk ?pr < rk a" using A(1,4) rk unfolding ranked_def by fastforce
      moreover have "rk a < rk ?nx" using rk a nx(1) by (simp add: ranked_def)
      ultimately show ?thesis using nx True by simp
    next
      case False
      with nz x rk w show ?thesis by (simp add: ranked_def)
    qed
    ultimately show ?thesis using B(1,2) ba s'(2) by (simp add: node_linked_def)
  qed
  then show ?thesis unfolding linked_def ranked_def by blast
qed

lemma registry_remove_any:
  assumes r: "registry s xs" and l: "linked s" and a: "infos s a = Some n" and rm: "remove_info a s = Inr s'"
    and s': "infos s' = unlink a (ll_prev n) (ll_next n) (infos s)"
      "NODES_INFO s' = (if ll_prev n = 0 then 0 else NODES_INFO s)" "mem_ok s'" "heap_of s' = (heap_of s)(a := None)"
  shows "\<exists>ys. registry s' ys"
proof (cases "ll_prev n = 0 \<or> a \<in> fst ` set xs")
  case True
  show ?thesis
  proof (cases "ll_prev n = 0")
    case True
    then have "registry s' []" using s' by (simp add: registry_def)
    then show ?thesis ..
  next
    case False
    with True obtain i where "(a, i) \<in> set xs" by auto
    then obtain us vs where xs: "xs = us @ (a, i) # vs" by (auto simp: in_set_conv_decomp)
    with r False a have "us \<noteq> []" by (auto simp: registry_def)
    with r xs remove_info_registry [of s us a i vs] rm show ?thesis by auto
  qed
next
  case False
  then have nz: "ll_prev n \<noteq> 0" and out: "a \<notin> fst ` set xs" by auto
  note A = linkedD [OF l a]
  have sg: "seg (infos s) 0 (NODES_INFO s) xs 0" using r unfolding registry_def by blast
  have same: "infos s' (fst x) = infos s (fst x) \<and> fst x \<noteq> a" if x: "x \<in> set xs" for x
  proof -
    have xa: "fst x \<noteq> a" using out x by auto
    have "fst x \<noteq> ll_prev n"
    proof
      assume e: "fst x = ll_prev n"
      with A(4) nz obtain w where "infos s (fst x) = Some w" "ll_next w = a" by auto
      with seg_closed(1) [OF sg x] out A(1) show False by auto
    qed
    moreover have "fst x \<noteq> ll_next n" if "ll_next n \<noteq> 0"
    proof
      assume e: "fst x = ll_next n"
      with A(3) that obtain w where "infos s (fst x) = Some w" "ll_prev w = a" by auto
      with seg_closed(2) [OF sg x] out A(1) show False by auto
    qed
    ultimately show ?thesis using s'(1) xa by (auto simp: unlink_def Let_def)
  qed
  have "seg (infos s') 0 (NODES_INFO s') xs 0" using s'(2) nz same by (auto intro: seg_frame [OF sg])
  then have "registry s' xs" using r s'(3,4) same by (simp add: registry_def)
  then show ?thesis ..
qed

text \<open>An announcement adds one node at the end.\<close>

lemma append_info_effect:
  assumes r: "registry s xs" and ap: "append_info info s = Some (Inr (p, s'))"
  obtains c where "grants sizeof_linked_list_node_info c s" "p = fst c" "registry s' (xs @ [(p, info)])"
    "heap_of s' = (heap_of s)(fst c \<mapsto> snd c)"
proof -
  have "fst (c_malloc sizeof_linked_list_node_info s) \<noteq> 0"
    using ap by (auto simp: append_info_def Let_def split: prod.splits if_splits)
  then obtain c where c: "grants sizeof_linked_list_node_info c s"
    by (cases rule: c_malloc_cases [of sizeof_linked_list_node_info s]) auto
  from append_info_registry [OF r c, of info] ap that [OF c] show ?thesis by auto
qed

lemma append_info_table:
  assumes r: "registry s xs" and ap: "append_info info s = Some (Inr (p, s'))"
  shows "xs = [] \<and> infos s' = (infos s)(p \<mapsto> \<lparr>ll_info = info, ll_prev = 0, ll_next = 0\<rparr>) \<or>
    (\<exists>a n. infos s a = Some n \<and> ll_next n = 0 \<and> infos s' = (infos s)
       (a \<mapsto> n\<lparr>ll_next := p\<rparr>, p \<mapsto> \<lparr>ll_info = info, ll_prev = a, ll_next = 0\<rparr>))"
proof -
  have sg: "seg (infos s) 0 (NODES_INFO s) xs 0" using r by (simp add: registry_def)
  from append_info_effect [OF r ap] obtain c where c: "grants sizeof_linked_list_node_info c s" "p = fst c" by blast
  note m = c_malloc_grants [OF c(1)]
  show ?thesis
  proof (cases xs rule: rev_cases)
    case Nil
    with sg ap m c(2) grants_pos [OF c(1)] show ?thesis by (auto simp: append_info_def)
  next
    case (snoc us x)
    then have "last_info (infos s) (NODES_INFO s) = Some (Inr (fst x))" "NODES_INFO s \<noteq> 0"
      using last_info_seg [OF sg] seg_null [OF sg] by simp_all
    moreover from sg snoc obtain n where n: "0 < fst x" "infos s (fst x) = Some n" "ll_next n = 0"
      by (auto simp: seg_append split: option.splits)
    ultimately have "infos s' = (infos s)(fst x \<mapsto> n\<lparr>ll_next := p\<rparr>,
        p \<mapsto> \<lparr>ll_info = info, ll_prev = fst x, ll_next = 0\<rparr>)"
      using ap m c(2) grants_pos [OF c(1)] by (auto simp: append_info_def ll_node_def)
    with n show ?thesis by blast
  qed
qed

lemma linked_append:
  assumes r: "registry s xs" and l: "linked s" and ap: "append_info info s = Some (Inr (p, s'))"
  shows "linked s'" "infos s p = None" "dom (infos s') = insert p (dom (infos s))"
proof -
  from append_info_effect [OF r ap] obtain c where c: "grants sizeof_linked_list_node_info c s" "p = fst c"
    and hp: "heap_of s' = (heap_of s)(fst c \<mapsto> snd c)" by blast
  have "mem_ok s" using r by (simp add: registry_def)
  then have hf: "heap_of s p = None" "0 < p" using grants_fresh [OF c(1)] grants_pos [OF c(1)] c(2) by simp_all
  then show new: "infos s p = None" using linkedD(2) [OF l] by (cases "infos s p") auto
  show "dom (infos s') = insert p (dom (infos s))" using append_info_table [OF r ap] by (auto split: if_splits)
  from l obtain rk where rk: "ranked rk (infos s)" by (auto simp: linked_def)
  have no_in: "ll_next w \<noteq> p" "ll_prev w \<noteq> p" if "infos s b = Some w" for b w
    using linkedD(3,4) [OF l that] new hf(2) by force+
  have heap: "heap_of s' b \<noteq> None" if "infos s b \<noteq> None" for b
    using that linkedD(2) [OF l] hp by (cases "infos s b") auto
  from append_info_table [OF r ap] show "linked s'"
  proof (elim disjE exE conjE)
    assume i: "infos s' = (infos s)(p \<mapsto> \<lparr>ll_info = info, ll_prev = 0, ll_next = 0\<rparr>)"
    then have "ranked rk (infos s')" using rk by (simp add: ranked_def)
    moreover have "node_linked (infos s') b w" if "infos s b = Some w" for b w
      using l that no_in [OF that] new i unfolding linked_def node_linked_def by (metis fun_upd_other)
    ultimately show ?thesis using i l hp hf(2) c(2) heap
      unfolding linked_def by (auto simp: node_linked_def)
  next
    fix a n assume a: "infos s a = Some n" "ll_next n = 0"
      and i: "infos s' = (infos s)(a \<mapsto> n\<lparr>ll_next := p\<rparr>, p \<mapsto> \<lparr>ll_info = info, ll_prev = a, ll_next = 0\<rparr>)"
    have ap: "a \<noteq> p" "0 < a" using a(1) new linkedD(1) [OF l a(1)] by auto
    have "ranked (rk(p := rk a + 1)) (infos s')"
      using rk i no_in(1) ap by (auto simp: ranked_def)
    moreover have "node_linked (infos s') b w" if b: "infos s b = Some w" "b \<noteq> a" for b w
    proof -
      note B = linkedD [OF l b(1)] and N = no_in [OF b(1)]
      have "ll_prev w \<noteq> a" if "ll_prev w \<noteq> 0" using B(1,4) a that by fastforce
      with B(3,4) N a i show ?thesis unfolding node_linked_def by fastforce
    qed
    moreover have "node_linked (infos s') a (n\<lparr>ll_next := p\<rparr>)"
      using linkedD(4,6) [OF l a(1)] no_in(2) [OF a(1)] i ap by (fastforce simp: node_linked_def)
    moreover have "node_linked (infos s') p \<lparr>ll_info = info, ll_prev = a, ll_next = 0\<rparr>"
      using i ap by (simp add: node_linked_def)
    ultimately show ?thesis using i l hp hf(2) c(2) heap a(1) ap unfolding linked_def
      by (auto split: if_splits)
  qed
qed

end
