(* ===== verification/Main_Rpc.thy ===== *)
theory Main_Rpc
  imports Main_Clients Main_Server_Links
begin

text \<open>
  The main server and its clients together. One pass of a connection thread serves one request: the
  bytes that a node's announcement or an application's query put on the wire are what the thread reads,
  and its answer is what they wait for. Nodes that have announced themselves are the ones an
  application finds, in the order in which they came.
\<close>

section \<open>The head of a request\<close>

lemma pass_head:
  fixes s :: "'a net_scheme"
  assumes con: "connected conn c k s" "concat (sk_in k) = enc_dic_main_server_req_head_generic
      \<lparr>ms_req_head_operation = opr, ms_req_head_version = v, ms_req_head_body_size = n\<rparr> @ rest"
    and ok: "mem_ok s" and mem: "stocked (8 # ns) s"
  obtains h s1 s2 hb ks where "c_alloca 8 s = Inr (h, s1)" "dic_conn_recv conn h 8 False s1 = Inr (0, s2)"
    "load_word 2 h s2 = Inr opr" "load_word 4 (h + 4) s2 = Inr n" "connected conn c (k\<lparr>sk_in := ks\<rparr>) s2"
    "concat ks = rest" "mem_ok s2" "stocked ns s2" "heap_of s2 = (heap_of s)(h \<mapsto> hb)" "heap_of s h = None"
    "conns s2 = conns s" "socks s2 = (socks s)(sockfd c \<mapsto> k\<lparr>sk_in := ks\<rparr>)" "net.more s2 = net.more s"
proof -
  let ?h = "enc_dic_main_server_req_head_generic
    \<lparr>ms_req_head_operation = opr, ms_req_head_version = v, ms_req_head_body_size = n\<rparr>"
  have len: "length ?h = 8" by (simp add: ms_req_head_codec.enc_length sizeof_dic_main_server_req_head_generic_def)
  from mem obtain b where b: "grants 8 b s" "stocked ns (add_block b s)" by (rule stocked_Cons)
  obtain s2 ks where r: "dic_conn_recv conn (fst b) 8 False (add_block b s) = Inr (0, s2)"
    and s2: "connected conn c (k\<lparr>sk_in := ks\<rparr>) s2" "concat ks = rest" "mem_ok s2" "stocked ns s2"
      "heap_of s2 = (heap_of s)(fst b \<mapsto> patch (snd b) 0 ?h)" "conns s2 = conns s"
      "socks s2 = (socks s)(sockfd c \<mapsto> k\<lparr>sk_in := ks\<rparr>)" "net.more s2 = net.more s"
    by (rule recv_into_fresh [OF con ok b len size_of_int_4_8(2)])
  let ?hb = "patch (snd b) 0 ?h"
  have hb: "?hb = enc_word 2 opr @ enc_word 2 v @ enc_word 4 n @ drop 8 (snd b)"
    using len by (simp add: patch_def) (simp add: enc_dic_main_server_req_head_generic_def)
  have at: "heap_of s2 (fst b) = Some ?hb" using s2(5) by simp
  have "load_word 2 (fst b) s2 = Inr opr" "load_word 4 (fst b + 4) s2 = Inr n"
    by (simp_all add: load_word_at0 [OF s2(3) at [unfolded hb]] load_word_at [OF s2(3) at [unfolded hb]])
  then show ?thesis
    using that [OF c_alloca_grants [OF b(1)] r] s2 grants_fresh [OF b(1) ok] by blast
qed

lemmas pass_sizes = sizeof_dic_main_server_req_head_generic_def

text \<open>The registry does not see the locals of a thread.\<close>

lemma registry_local:
  fixes s t :: "'a main_server_scheme"
  assumes "registry s xs" "heap_of s h = None" "heap_of t = (heap_of s)(h \<mapsto> hb)" "mem_ok t" "net.more t = net.more s"
  shows "registry t xs" "heap_of t h \<noteq> None" "\<forall>x \<in> set xs. fst x \<noteq> h"
proof -
  show *: "\<forall>x \<in> set xs. fst x \<noteq> h" using assms(1,2) by (auto simp: registry_def)
  show "registry t xs"
    using * assms(3,4) more_ms [OF assms(5)] by (intro registry_cong [OF assms(1)]) auto
  show "heap_of t h \<noteq> None" using assms(3) by simp
qed

lemma registry_del_block:
  assumes "registry t xs" "\<forall>x \<in> set xs. fst x \<noteq> h"
  shows "registry (del_block h t) xs"
  using assms by (intro registry_cong [OF assms(1)]) (auto simp: registry_def)

section \<open>One pass\<close>

lemma connection_pass_query:
  fixes s :: "'a main_server_scheme"
  assumes r: "registry s xs" and con: "connected conn c k s" "\<not> sk_reset k" "concat (sk_in k) = info_request @ rest"
    and mem: "stocked [8, 4 + 24 * length xs, 4] s" and small: "4 + 24 * length xs < 2 ^ 31"
  shows "\<exists>s' ks. connection_pass conn ci s = Some (Inr (Some ci, s')) \<and> registry s' xs \<and> conns s' = conns s \<and>
    concat ks = rest \<and> [] \<notin> set ks \<and>
    socks s' = (socks s)(sockfd c \<mapsto> k\<lparr>sk_in := ks, sk_out := sk_out k @ listing (map snd xs)\<rparr>)"
proof -
  have ok: "mem_ok s" using r by (simp add: registry_def)
  obtain h s1 s2 hb ks where run: "c_alloca 8 s = Inr (h, s1)" "dic_conn_recv conn h 8 False s1 = Inr (0, s2)"
      "load_word 2 h s2 = Inr (main_op_code DIC_GET_INFO)" "load_word 4 (h + 4) s2 = Inr (0 :: u32)"
    and s2: "connected conn c (k\<lparr>sk_in := ks\<rparr>) s2" "concat ks = rest" "mem_ok s2" "stocked [4 + 24 * length xs, 4] s2"
      "heap_of s2 = (heap_of s)(h \<mapsto> hb)" "heap_of s h = None" "conns s2 = conns s"
      "socks s2 = (socks s)(sockfd c \<mapsto> k\<lparr>sk_in := ks\<rparr>)" "net.more s2 = net.more s"
    by (rule pass_head [OF con(1) con(3) [unfolded info_request_def] ok mem])
  note r2 = registry_local [OF r s2(6,5,3,9)]
  have k2: "\<not> sk_reset (k\<lparr>sk_in := ks\<rparr>)" using con(2) by simp
  from handle_get_info_lists [OF r2(1) s2(1) k2 s2(4) small] obtain s3 where
    s3: "handle_get_info conn s2 = Some (Inr s3)" "registry s3 xs" "conns s3 = conns s2"
      "socks s3 = (socks s2)(sockfd c \<mapsto> k\<lparr>sk_in := ks, sk_out := sk_out k @ listing (map snd xs)\<rparr>)" by auto
  have "connection_pass conn ci s = Some (Inr (Some ci, del_block h s3))"
    using run s3(1) by (simp add: connection_pass_def pass_sizes)
  moreover have "registry (del_block h s3) xs" by (rule registry_del_block [OF s3(2) r2(3)])
  moreover have "conns (del_block h s3) = conns s"
    "socks (del_block h s3) = (socks s)(sockfd c \<mapsto> k\<lparr>sk_in := ks, sk_out := sk_out k @ listing (map snd xs)\<rparr>)"
    using s3(3,4) s2(7,8) by (simp_all add: del_block_def)
  ultimately show ?thesis using s2(1,2) by (auto simp: connected_def)
qed

lemma connection_pass_announcement:
  fixes s :: "'a main_server_scheme"
  assumes r: "registry s xs" and con: "connected conn c k s" "\<not> sk_reset k" "concat (sk_in k) = announcement cores @ rest"
    and mem: "stocked [8, 4, 4, 4, sizeof_linked_list_node_info] s"
  shows "\<exists>s' p ks. connection_pass conn ci s = Some (Inr (Some (Some p), s')) \<and>
    registry s' (xs @ [(p, \<lparr>address = ip c, core_count = cores\<rparr>)]) \<and> conns s' = conns s \<and>
    concat ks = rest \<and> [] \<notin> set ks \<and>
    socks s' = (socks s)(sockfd c \<mapsto> k\<lparr>sk_in := ks, sk_out := sk_out k @ confirmation\<rparr>)"
proof -
  let ?body = "enc_dic_req_announce_info \<lparr>req_announce_info_core_count = cores\<rparr>"
  have ok: "mem_ok s" using r by (simp add: registry_def)
  have in1: "concat (sk_in k) = enc_dic_main_server_req_head_generic \<lparr>ms_req_head_operation = main_op_code DIC_ANNOUNCE_INFO,
      ms_req_head_version = 1, ms_req_head_body_size = 4\<rparr> @ ?body @ rest" using con(3) by (simp add: announcement_def)
  obtain h s1 s2 hb k2 where run: "c_alloca 8 s = Inr (h, s1)" "dic_conn_recv conn h 8 False s1 = Inr (0, s2)"
      "load_word 2 h s2 = Inr (main_op_code DIC_ANNOUNCE_INFO)" "load_word 4 (h + 4) s2 = Inr (4 :: u32)"
    and s2: "connected conn c (k\<lparr>sk_in := k2\<rparr>) s2" "concat k2 = ?body @ rest" "mem_ok s2"
      "stocked [4, 4, 4, sizeof_linked_list_node_info] s2" "heap_of s2 = (heap_of s)(h \<mapsto> hb)" "heap_of s h = None"
      "conns s2 = conns s" "socks s2 = (socks s)(sockfd c \<mapsto> k\<lparr>sk_in := k2\<rparr>)" "net.more s2 = net.more s"
    by (rule pass_head [OF con(1) in1 ok mem])
  note r2 = registry_local [OF r s2(6,5,3,9)]
  have k2: "\<not> sk_reset (k\<lparr>sk_in := k2\<rparr>)" "concat (sk_in (k\<lparr>sk_in := k2\<rparr>)) = ?body @ rest" using con(2) s2(2) by simp_all
  from handle_push_info_announces [OF r2(1) s2(1) k2 s2(4)] obtain s3 p ks where
    s3: "handle_push_info conn 4 s2 = Some (Inr (p, s3))" "conns s3 = conns s2" "concat ks = rest" "[] \<notin> set ks"
      "registry s3 (xs @ [(p, \<lparr>address = ip c, core_count = cores\<rparr>)])" "heap_of s2 p = None"
      "socks s3 = (socks s2)(sockfd c \<mapsto> k\<lparr>sk_in := ks, sk_out := sk_out k @ confirmation\<rparr>)" by auto
  have "connection_pass conn ci s = Some (Inr (Some (Some p), del_block h s3))"
    using run s3(1) by (simp add: connection_pass_def pass_sizes)
  moreover have "registry (del_block h s3) (xs @ [(p, \<lparr>address = ip c, core_count = cores\<rparr>)])"
    using r2(2,3) s3(6) by (intro registry_del_block [OF s3(5)]) auto
  moreover have "conns (del_block h s3) = conns s"
    "socks (del_block h s3) = (socks s)(sockfd c \<mapsto> k\<lparr>sk_in := ks, sk_out := sk_out k @ confirmation\<rparr>)"
    using s3(2,7) s2(7,8) by (simp_all add: del_block_def)
  ultimately show ?thesis using s3(3,4) by blast
qed

lemma connection_pass_closed:
  fixes s :: "'a main_server_scheme"
  assumes r: "registry s xs" and con: "connected conn c k s" "sk_eof k" "length (concat (sk_in k)) < 8"
    and mem: "stocked [8] s"
  shows "\<exists>s'. connection_pass conn ci s = Some (Inr (None, s')) \<and> registry s' xs \<and> heap_of s' = heap_of s \<and>
    conns s' = (conns s)(conn \<mapsto> c\<lparr>sockfd := - 1\<rparr>) \<and> socks s' = (socks s)(sockfd c := None) \<and>
    net.more s' = net.more s"
proof -
  have ok: "mem_ok s" using r by (simp add: registry_def)
  from mem obtain b where b: "grants 8 b s" by (rule stocked_Cons)
  obtain t bs where run: "dic_conn_recv conn (fst b) 8 False (add_block b s) = Inr (1, t)"
    and t: "mem_ok t" "heap_of t = (heap_of s)(fst b \<mapsto> bs)" "length bs = length (snd b)" "heap_of s (fst b) = None"
      "conns t = (conns s)(conn \<mapsto> c\<lparr>sockfd := - 1\<rparr>)" "socks t = (socks s)(sockfd c := None)" "net.more t = net.more s"
    by (rule recv_stream_ends [OF con ok b size_of_int_4_8(2)])
  let ?s' = "del_block (fst b) t"
  have "connection_pass conn ci s = Some (Inr (None, ?s'))"
    using run by (simp add: connection_pass_def pass_sizes c_alloca_grants [OF b])
  moreover have "registry ?s' xs"
    using registry_local [OF r t(4,2,1,7)] by (intro registry_del_block)
  moreover have "heap_of ?s' = heap_of s" using t(2,4) by (simp add: fun_upd_idem)
  moreover have "conns ?s' = (conns s)(conn \<mapsto> c\<lparr>sockfd := - 1\<rparr>)" "socks ?s' = (socks s)(sockfd c := None)"
    "net.more ?s' = net.more s" using t(5-7) by (simp_all add: del_block_def)
  ultimately show ?thesis by blast
qed

section \<open>A node leaves\<close>

lemma remove_info_keeps:
  fixes s :: "'a main_server_scheme"
  assumes "remove_info a s = Inr s'"
  shows "conns s' = conns s" "socks s' = socks s"
proof -
  have upd: "conns t' = conns t \<and> socks t' = socks t"
    if "(if b then bindR m (\<lambda>x. Inr (t\<lparr>infos := f x\<rparr>)) else Inr u) = Inr t'" "u = t \<or> u = t\<lparr>NODES_INFO := 0\<rparr>"
    for b m f u and t t' :: "'a main_server_scheme"
    using that by (cases b; cases m) auto
  have free: "conns t' = conns t \<and> socks t' = socks t" if "c_free a t = Inr t'" for t t' :: "'a main_server_scheme"
    using that by (auto simp: c_free_def split: if_splits option.splits)
  from assms obtain n n1 :: linked_list_node_info and s1 s2 s3 where
    s1: "(if ll_next n \<noteq> 0
      then bindR (ll_node (infos s) (ll_next n)) (\<lambda>x. Inr (s\<lparr>infos := (infos s)(ll_next n \<mapsto> x\<lparr>ll_prev := ll_prev n\<rparr>)\<rparr>))
      else Inr s) = Inr s1"
    and s2: "(if ll_prev n1 \<noteq> 0
      then bindR (ll_node (infos s1) (ll_prev n1)) (\<lambda>x. Inr (s1\<lparr>infos := (infos s1)(ll_prev n1 \<mapsto> x\<lparr>ll_next := ll_next n1\<rparr>)\<rparr>))
      else Inr (s1\<lparr>NODES_INFO := 0\<rparr>)) = Inr s2"
    "c_free a s2 = Inr s3" "s' = s3\<lparr>infos := (infos s3)(a := None)\<rparr>"
    unfolding remove_info_def bindR_Inr_iff by (elim exE conjE) (rule that, assumption+, simp)
  show "conns s' = conns s" "socks s' = socks s"
    using upd [OF s1] upd [OF s2(1)] free [OF s2(2)] s2(3) by simp_all
qed

lemma dic_conn_destroy_ms:
  fixes s :: "'a main_server_scheme"
  assumes "dic_conn_destroy p s = Inr s'"
  shows "infos s' = infos s" "NODES_INFO s' = NODES_INFO s"
  using assms by (auto simp: dic_conn_destroy_def dic_conn_disconnect_def c_free_def put_conn_def c_close_def res_simps
      Let_def split: if_splits option.splits)

text \<open>The thread of a connection whose stream is over: the node it announced is taken from the list, and
  the connection is released.\<close>

lemma connection_thread_ends:
  fixes s :: "'a main_server_scheme"
  assumes r: "registry s xs" and con: "connected conn c k s" "sk_eof k" "length (concat (sk_in k)) < 8"
    and mem: "stocked [8] s" "heap_of s conn \<noteq> None" and a: "a \<noteq> conn"
    and rm: "\<And>t :: 'a main_server_scheme. registry t xs \<Longrightarrow> heap_of t = heap_of s \<Longrightarrow> infos t = infos s \<Longrightarrow>
      \<exists>t'. remove_info a t = Inr t' \<and> registry t' ys \<and> heap_of t' = (heap_of t)(a := None)"
    and ys: "\<forall>x \<in> set ys. fst x \<noteq> conn"
  shows "\<exists>s'. connection_handler_loop conn (Some a) s = Some (Inr s') \<and> registry s' ys \<and>
    heap_of s' = (heap_of s)(a := None, conn := None) \<and> conns s' = (conns s)(conn := None) \<and>
    socks s' (sockfd c) = None"
proof -
  from connection_pass_closed [OF r con mem(1), of "Some a"] obtain s1 where
    s1: "connection_pass conn (Some a) s = Some (Inr (None, s1))" "registry s1 xs" "heap_of s1 = heap_of s"
      "conns s1 = (conns s)(conn \<mapsto> c\<lparr>sockfd := - 1\<rparr>)" "socks s1 = (socks s)(sockfd c := None)" "net.more s1 = net.more s"
    by blast
  from rm [OF s1(2,3) more_ms(1) [OF s1(6)]] s1(3) obtain s2 where
    s2: "remove_info a s1 = Inr s2" "registry s2 ys" "heap_of s2 = (heap_of s)(a := None)" by auto
  note k2 = remove_info_keeps [OF s2(1)]
  have p: "conns s2 conn = Some (c\<lparr>sockfd := - 1\<rparr>)" "0 < conn" "mem_ok s2"
    using k2(1) s1(4) con(1) s2(2) by (simp_all add: connected_def registry_def)
  from mem(2) a s2(3) obtain bs where bs: "heap_of s2 conn = Some bs" by auto
  obtain s3 where s3: "dic_conn_destroy conn s2 = Inr s3" "heap_of s3 = (heap_of s2)(conn := None)" "mem_ok s3"
      "conns s3 = (conns s2)(conn := None)" "socks s3 = (socks s2)(sockfd (c\<lparr>sockfd := - 1\<rparr>) := None)"
      "uninit_destroyed s3 = uninit_destroyed s2 + uninitialised (c\<lparr>sockfd := - 1\<rparr>)"
      "infos s3 = infos s2" "NODES_INFO s3 = NODES_INFO s2"
    using dic_conn_destroy_releases [OF p(1,2) bs p(3)] dic_conn_destroy_ms [of conn s2] by metis
  have "connection_handler_loop conn (Some a) s = Some (Inr s3)"
    using s1(1) s2(1) s3(1) by (subst connection_handler_loop.simps) (simp add: connection_end_def)
  moreover have "registry s3 ys" using ys s3(2,3,7,8) by (intro registry_cong [OF s2(2)]) auto
  ultimately show ?thesis using s3(2,4,5) s2(3) k2 s1(4,5) by auto
qed

end
