(* ===== verification/Main_Frame.thy ===== *)
theory Main_Frame
  imports Main_Rpc
begin

text \<open>
  What a pass of a connection thread leaves alone, whatever bytes the peer sends: the list, the set of
  connections, and the objects that exist when it starts. The relation \<open>keeps\<close> collects this; every
  operation that returns satisfies it, and it composes.
\<close>

section \<open>The relation\<close>

definition keeps :: "'a main_server_scheme \<Rightarrow> 'a main_server_scheme \<Rightarrow> bool" where
  "keeps s t \<longleftrightarrow> mem_ok t \<and> infos t = infos s \<and> NODES_INFO t = NODES_INFO s \<and> dom (conns t) = dom (conns s) \<and>
     dom (heap_of s) \<subseteq> dom (heap_of t)"

lemma keeps_refl: "mem_ok s \<Longrightarrow> keeps s s"
  by (simp add: keeps_def)

lemma keeps_trans: "keeps s t \<Longrightarrow> keeps t u \<Longrightarrow> keeps s u"
  unfolding keeps_def by (metis order_trans)

lemma keeps_mem_ok: "keeps s t \<Longrightarrow> mem_ok t"
  by (simp add: keeps_def)

text \<open>A local variable is dropped again.\<close>

lemma conns_blocks [simp]:
  fixes s :: "'a net_scheme"
  shows "conns (add_block c s) = conns s" "conns (del_block a s) = conns s" "conns (set_block a v s) = conns s"
  by (simp_all add: add_block_def del_block_def set_block_def)

lemma keeps_del_block:
  assumes "keeps s t" "heap_of s a = None"
  shows "keeps s (del_block a t)"
proof -
  have "dom (heap_of s) \<subseteq> dom (heap_of t) - {a}" using assms by (auto simp: keeps_def)
  with assms(1) show ?thesis by (simp add: keeps_def)
qed

section \<open>The operations\<close>

lemma extent_dom: "map extent B' = map extent B \<Longrightarrow> dom (map_of B') = dom (map_of B)"
proof -
  assume "map extent B' = map extent B"
  then have "map fst (map extent B') = map fst (map extent B)" by simp
  then have "map fst B' = map fst B" by (simp add: o_def)
  then show ?thesis by (metis dom_map_of_conv_image_fst list.set_map)
qed

lemma store_keeps:
  fixes s :: "'a main_server_scheme"
  assumes "store p v s = Inr t" "mem_ok s"
  shows "keeps s t" "dom (heap_of t) = dom (heap_of s)"
proof -
  have "\<exists>B. t = s\<lparr>blocks := B\<rparr> \<and> map extent B = map extent (blocks s)"
    using assms(1) wr_extent by (auto simp: store_def split: if_splits option.splits intro: exI [of _ "blocks s"])
  then obtain B where B: "t = s\<lparr>blocks := B\<rparr>" "map extent B = map extent (blocks s)" by blast
  from extent_dom [OF B(2)] B(1) show "dom (heap_of t) = dom (heap_of s)" by (simp add: heap_of_def)
  then show "keeps s t"
    using B assms(2) apart_all_extent [OF B(2)] by (simp add: keeps_def mem_ok_def)
qed

lemma c_malloc_keeps:
  fixes s :: "'a main_server_scheme"
  assumes "mem_ok s"
  shows "keeps s (snd (c_malloc n s))" "fst (c_malloc n s) \<noteq> 0 \<Longrightarrow> heap_of s (fst (c_malloc n s)) = None"
proof -
  have "keeps s (snd (c_malloc n s)) \<and> (fst (c_malloc n s) \<noteq> 0 \<longrightarrow> heap_of s (fst (c_malloc n s)) = None)"
  proof (cases rule: c_malloc_cases [of n s])
    case null
    have "net.more (snd (c_malloc n s)) = net.more s" "conns (snd (c_malloc n s)) = conns s"
      by (simp_all add: c_malloc_def split: list.split)
    with null c_malloc_mem_ok [OF assms] more_ms [of "snd (c_malloc n s)" s] show ?thesis
      by (simp add: keeps_def)
  next
    case (grant c)
    with grants_mem_ok [OF grant(1) assms] grants_fresh [OF grant(1) assms] show ?thesis
      by (simp add: keeps_def subset_insertI)
  qed
  then show "keeps s (snd (c_malloc n s))" "fst (c_malloc n s) \<noteq> 0 \<Longrightarrow> heap_of s (fst (c_malloc n s)) = None" by auto
qed

lemma c_alloca_keeps:
  fixes s :: "'a main_server_scheme"
  assumes "c_alloca n s = Inr (p, t)" "mem_ok s"
  shows "keeps s t" "heap_of s p = None" "heap_of t p \<noteq> None"
proof -
  have p: "fst (c_malloc n s) = p" "snd (c_malloc n s) = t" "p \<noteq> 0"
    using assms(1) by (auto simp: c_alloca_def Let_def case_prod_unfold split: if_splits)
  with c_malloc_keeps [OF assms(2), of n] show "keeps s t" "heap_of s p = None" by auto
  show "heap_of t p \<noteq> None" using p by (cases rule: c_malloc_cases [of n s]) auto
qed

lemma c_recv_keeps:
  fixes s :: "'a main_server_scheme"
  assumes "c_recv fd p n s = Inr (r, t)" "mem_ok s"
  shows "keeps s t" "dom (heap_of t) = dom (heap_of s)"
proof -
  have set_in: "keeps s (set_in fd cs u)" "heap_of (set_in fd cs u) = heap_of u" if "keeps s u" for cs and u :: "'a main_server_scheme"
    using that by (simp_all add: keeps_def set_in_def heap_of_def mem_ok_def)
  from assms(1) consider "t = s" | cs u v where "store p v s = Inr u" "t = set_in fd cs u"
    by (auto simp: c_recv_def res_simps split: option.splits list.splits if_splits)
  then have "keeps s t \<and> dom (heap_of t) = dom (heap_of s)"
  proof cases
    case 1
    with keeps_refl [OF assms(2)] show ?thesis by simp
  next
    case (2 cs u v)
    with store_keeps [OF 2(1) assms(2)] set_in show ?thesis by metis
  qed
  then show "keeps s t" "dom (heap_of t) = dom (heap_of s)" by simp_all
qed

lemma tcp_recv_loop_keeps:
  fixes s :: "'a main_server_scheme"
  shows "tcp_recv_loop fd buf n k s = Inr (r, t) \<Longrightarrow> mem_ok s \<Longrightarrow> keeps s t \<and> dom (heap_of t) = dom (heap_of s)"
proof (induction fd buf n k s arbitrary: t rule: tcp_recv_loop.induct)
  case (1 fd buf n k s)
  show ?case
  proof (cases "k < n")
    case False
    with 1(2,3) keeps_refl show ?thesis by (subst (asm) tcp_recv_loop.simps) auto
  next
    case True
    with 1(2) obtain b u where u: "c_recv fd (buf + k) (n - k) s = Inr (b, u)"
      "(if b \<le> 0 then Inr (- 1, u) else tcp_recv_loop fd buf n (k + nat b) u) = Inr (r, t)"
      by (subst (asm) tcp_recv_loop.simps) (auto simp: res_simps)
    note ku = c_recv_keeps [OF u(1) 1(3)]
    show ?thesis
    proof (cases "b \<le> 0")
      case True
      with u(2) ku show ?thesis by simp
    next
      case False
      then have "tcp_recv_loop fd buf n (k + nat b) u = Inr (r, t)" using u(2) by simp
      from 1(1) [OF \<open>k < n\<close> u(1) refl False this keeps_mem_ok [OF ku(1)]] ku keeps_trans show ?thesis by metis
    qed
  qed
qed

lemma put_conn_keeps:
  fixes s t :: "'a main_server_scheme"
  assumes "keeps s t" "conns t p = Some c"
  shows "keeps s (put_conn p c' (c_close fd t))"
proof -
  have "dom (conns t) = insert p (dom (conns t))" using assms(2) by auto
  then show ?thesis using assms(1) by (simp add: keeps_def put_conn_def c_close_def heap_of_def mem_ok_def)
qed

lemma dic_conn_recv_keeps:
  fixes s :: "'a main_server_scheme"
  assumes "dic_conn_recv p buf n False s = Inr (r, t)" "mem_ok s"
  shows "keeps s t" "dom (heap_of t) = dom (heap_of s)"
proof -
  from assms(1) obtain c err u where c: "conns s p = Some c" "tcp_recv_loop (sockfd c) buf (size_of_int n) 0 s = Inr (err, u)"
    and t: "t = put_conn p (c\<lparr>sockfd := - 1\<rparr>) (c_close (sockfd c) u) \<or> t = u"
    by (auto simp: dic_conn_recv_def get_conn_def tcp_recv_n_def res_simps split: if_splits option.splits)
  from tcp_recv_loop_keeps [OF c(2) assms(2)] have u: "keeps s u" "dom (heap_of u) = dom (heap_of s)" by auto
  have "p \<in> dom (conns u)" using u(1) c(1) by (simp add: keeps_def domI)
  then obtain c' where "conns u p = Some c'" by blast
  with put_conn_keeps [OF u(1)] t u show "keeps s t" by metis
  have "heap_of t = heap_of u" using t by (auto simp: put_conn_def c_close_def heap_of_def)
  with u(2) show "dom (heap_of t) = dom (heap_of s)" by simp
qed

lemma dic_conn_send_keeps:
  fixes s :: "'a main_server_scheme"
  assumes "dic_conn_send p a n s = Inr (r, t)" "mem_ok s"
  shows "keeps s t"
proof -
  have "t = s \<or> (\<exists>x. t = s\<lparr>socks := x\<rparr>)"
    using assms(1) by (auto simp: dic_conn_send_def c_send_def res_simps split: option.splits if_splits)
  with assms(2) show ?thesis by (auto simp: keeps_def heap_of_def mem_ok_def)
qed

lemma copy_infos_keeps:
  fixes s :: "'a main_server_scheme"
  shows "copy_infos a i n q s = Inr t \<Longrightarrow> mem_ok s \<Longrightarrow> keeps s t"
proof (induction n arbitrary: i q s)
  case 0
  then show ?case by (simp add: keeps_refl)
next
  case (Suc n)
  then obtain x :: linked_list_node_info and u where "store (a + sizeof_dic_resp_get_info + sizeof_dic_node_info * i) (enc_dic_node_info (ll_info x)) s = Inr u"
    "copy_infos a (i + 1) n (ll_next x) u = Inr t" by (auto simp: res_simps)
  with store_keeps(1) [OF this(1) Suc(3)] Suc(1) keeps_trans keeps_mem_ok show ?case by metis
qed

lemma store_word_keeps:
  fixes s :: "'a main_server_scheme"
  shows "store_word k p w s = Inr t \<Longrightarrow> mem_ok s \<Longrightarrow> keeps s t"
  by (simp add: store_word_def store_keeps(1))

lemma keeps_fresh: "keeps s t \<Longrightarrow> heap_of t a = None \<Longrightarrow> heap_of s a = None"
  by (auto simp: keeps_def)

lemma keeps_live: "keeps s t \<Longrightarrow> heap_of s a \<noteq> None \<Longrightarrow> heap_of t a \<noteq> None"
  by (auto simp: keeps_def)

section \<open>The handlers\<close>

lemma bindO_Inr_iff:
  "bindO m f = Some (Inr y) \<longleftrightarrow> (\<exists>x. m = Some (Inr x) \<and> f x = Some (Inr y))"
  by (auto simp: bindO_def split: option.splits sum.splits)

lemma handle_get_info_keeps:
  fixes s :: "'a main_server_scheme"
  assumes "handle_get_info conn s = Some (Inr t)" "mem_ok s"
  shows "keeps s t"
proof -
  from assms(1) obtain len :: c_int and w :: u32 and n p s2 s3 h s4 s5 r6 s6 r7 s7 where
    s2: "store_word 4 p len (snd (c_malloc n s)) = Inr s2"
    and s3: "copy_infos p 0 (nat (sint len)) (NODES_INFO s) s2 = Inr s3"
    and s4: "c_alloca sizeof_dic_main_server_resp_head_generic s3 = Inr (h, s4)"
    and s5: "store_word 4 h w s4 = Inr s5"
    and s6: "dic_conn_send conn h (word_of_nat sizeof_dic_main_server_resp_head_generic) s5 = Inr (r6, s6)"
    and s7: "dic_conn_send conn p w s6 = Inr (r7, s7)" and t: "t = del_block h s7"
    unfolding handle_get_info_def by (auto simp: bindO_Inr_iff Let_def case_prod_unfold)
  note k1 = c_malloc_keeps(1) [OF assms(2), of n]
  note k2 = keeps_trans [OF k1 store_word_keeps [OF s2 keeps_mem_ok [OF k1]]]
  note k3 = keeps_trans [OF k2 copy_infos_keeps [OF s3 keeps_mem_ok [OF k2]]]
  note a = c_alloca_keeps [OF s4 keeps_mem_ok [OF k3]]
  note k4 = keeps_trans [OF k3 a(1)]
  note k5 = keeps_trans [OF k4 store_word_keeps [OF s5 keeps_mem_ok [OF k4]]]
  note k6 = keeps_trans [OF k5 dic_conn_send_keeps [OF s6 keeps_mem_ok [OF k5]]]
  note k7 = keeps_trans [OF k6 dic_conn_send_keeps [OF s7 keeps_mem_ok [OF k6]]]
  show ?thesis unfolding t by (rule keeps_del_block [OF k7 keeps_fresh [OF k3 a(2)]])
qed

text \<open>An announcement: nothing changes up to the call of \<open>append_info\<close>, and after it only the locals go.\<close>

lemma push_prefix_keeps:
  fixes s :: "'a main_server_scheme" and v w x m :: u32
  assumes ok: "mem_ok s" and s1: "c_alloca n1 s = Inr (b, s1)" and s2: "dic_conn_recv conn b n False s1 = Inr (r2, s2)"
    and s3: "c_alloca n3 s2 = Inr (r, s3)" and s4: "store_word 4 r v s3 = Inr s4"
    and s5: "c_alloca n5 s4 = Inr (h, s5)" and s6: "store_word 4 h w s5 = Inr s6"
    and s7: "dic_conn_send conn h x s6 = Inr (r7, s7)" and s8: "dic_conn_send conn r m s7 = Inr (r8, s8)"
  shows "keeps s s8" "\<forall>a \<in> {b, h, r}. heap_of s a = None \<and> heap_of s8 a \<noteq> None"
proof -
  note a1 = c_alloca_keeps [OF s1 ok]
  note k2 = keeps_trans [OF a1(1) dic_conn_recv_keeps(1) [OF s2 keeps_mem_ok [OF a1(1)]]]
  note a3 = c_alloca_keeps [OF s3 keeps_mem_ok [OF k2]]
  note k3 = store_word_keeps [OF s4 keeps_mem_ok [OF a3(1)]]
  note k4 = keeps_trans [OF k2 keeps_trans [OF a3(1) k3]]
  note a5 = c_alloca_keeps [OF s5 keeps_mem_ok [OF k4]]
  note k6 = store_word_keeps [OF s6 keeps_mem_ok [OF a5(1)]]
  note k7 = keeps_trans [OF k6 dic_conn_send_keeps [OF s7 keeps_mem_ok [OF k6]]]
  note k8 = keeps_trans [OF k7 dic_conn_send_keeps [OF s8 keeps_mem_ok [OF k7]]]
  have k58: "keeps s4 s8" by (rule keeps_trans [OF a5(1) k8])
  show "keeps s s8" by (rule keeps_trans [OF k4 k58])
  have "heap_of s8 b \<noteq> None"
    by (intro keeps_live [OF k58] keeps_live [OF k3] keeps_live [OF a3(1)]
        keeps_live [OF dic_conn_recv_keeps(1) [OF s2 keeps_mem_ok [OF a1(1)]]] a1(3))
  moreover have "heap_of s8 r \<noteq> None" by (intro keeps_live [OF k58] keeps_live [OF k3] a3(3))
  moreover have "heap_of s8 h \<noteq> None" by (intro keeps_live [OF k8] a5(3))
  ultimately show "\<forall>a \<in> {b, h, r}. heap_of s a = None \<and> heap_of s8 a \<noteq> None"
    using a1(2) keeps_fresh [OF k2 a3(2)] keeps_fresh [OF k4 a5(2)] by simp
qed

lemma handle_push_info_keeps:
  fixes s :: "'a main_server_scheme"
  assumes "handle_push_info conn n s = Some (Inr (p, t))" "mem_ok s"
  obtains info s8 s9 b h r where "keeps s s8" "append_info info s8 = Some (Inr (p, s9))"
    "t = del_block b (del_block h (del_block r s9))"
    "\<forall>a \<in> {b, h, r}. heap_of s a = None \<and> heap_of s8 a \<noteq> None"
proof -
  from assms(1) obtain info b s1 r2 s2 r s3 s4 h s5 s6 r7 s7 r8 s8 s9 and m :: u32 where
    s1: "c_alloca sizeof_dic_req_announce_info s = Inr (b, s1)" and s2: "dic_conn_recv conn b n False s1 = Inr (r2, s2)"
    and s3: "c_alloca sizeof_dic_resp_announce_info s2 = Inr (r, s3)" and s4: "store_word 4 r (0 :: u32) s3 = Inr s4"
    and s5: "c_alloca sizeof_dic_main_server_resp_head_generic s4 = Inr (h, s5)"
    and s6: "store_word 4 h (word_of_nat sizeof_dic_resp_announce_info :: u32) s5 = Inr s6"
    and s7: "dic_conn_send conn h (word_of_nat sizeof_dic_main_server_resp_head_generic) s6 = Inr (r7, s7)"
    and s8: "dic_conn_send conn r m s7 = Inr (r8, s8)"
    and s9: "append_info info s8 = Some (Inr (p, s9))" and t: "t = del_block b (del_block h (del_block r s9))"
    unfolding handle_push_info_def by (auto simp: bindO_Inr_iff)
  note k = push_prefix_keeps [OF assms(2) s1 s2 s3 s4 s5 s6 s7 s8]
  show ?thesis by (rule that [OF k(1) s9 t k(2)])
qed

lemma bindO_None_iff: "bindO m f = None \<longleftrightarrow> m = None \<or> (\<exists>x. m = Some (Inr x) \<and> f x = None)"
  by (auto simp: bindO_def split: option.splits sum.splits)

lemma handle_push_info_diverges:
  fixes s :: "'a main_server_scheme"
  assumes "handle_push_info conn n s = None" "mem_ok s"
  obtains info s8 where "keeps s s8" "append_info info s8 = None"
proof -
  from assms(1) obtain info b s1 r2 s2 r s3 s4 h s5 s6 r7 s7 r8 s8 and m :: u32 where
    s1: "c_alloca sizeof_dic_req_announce_info s = Inr (b, s1)" and s2: "dic_conn_recv conn b n False s1 = Inr (r2, s2)"
    and s3: "c_alloca sizeof_dic_resp_announce_info s2 = Inr (r, s3)" and s4: "store_word 4 r (0 :: u32) s3 = Inr s4"
    and s5: "c_alloca sizeof_dic_main_server_resp_head_generic s4 = Inr (h, s5)"
    and s6: "store_word 4 h (word_of_nat sizeof_dic_resp_announce_info :: u32) s5 = Inr s6"
    and s7: "dic_conn_send conn h (word_of_nat sizeof_dic_main_server_resp_head_generic) s6 = Inr (r7, s7)"
    and s8: "dic_conn_send conn r m s7 = Inr (r8, s8)"
    and s9: "append_info info s8 = None"
    unfolding handle_push_info_def by (auto simp: bindO_None_iff)
  show ?thesis by (rule that [OF push_prefix_keeps(1) [OF assms(2) s1 s2 s3 s4 s5 s6 s7 s8] s9])
qed

end
