(* ===== verification/Waiting.thy ===== *)
theory Waiting
  imports Sockets_Correct
begin

text \<open>
  Which calls can wait for ever: of the calls the programs make, only \<open>recv\<close> and \<open>accept\<close> wait for a peer (and
  \<open>pthread_join\<close> for a thread). On a connection whose peer has ended its stream \<open>recv\<close> does not wait either.
\<close>

section \<open>Calls that do not wait\<close>

definition waits :: "'a res \<Rightarrow> bool" where
  "waits r \<longleftrightarrow> r = Inl Blocked"

lemma waits_bind: "waits (bindR r f) \<longleftrightarrow> waits r \<or> (\<exists>x. r = Inr x \<and> waits (f x))"
  by (cases r) (simp_all add: waits_def)

lemma waits_simps [simp]: "\<not> waits (Inr x)" "waits (Inl e) \<longleftrightarrow> e = Blocked"
  by (simp_all add: waits_def)

lemma memory_never_waits [simp]:
  "\<not> waits (load p n s)" "\<not> waits (load_word w p s)" "\<not> waits (load_str p s)" "\<not> waits (store p v s)"
  "\<not> waits (store_word w p x s)" "\<not> waits (c_free p s)" "\<not> waits (c_memcpy d p n s)" "\<not> waits (c_realloc p n s)"
  "\<not> waits (c_alloca n s)"
proof -
  show l: "\<not> waits (load p n s)" for p n and s :: "'a mem_scheme"
    by (auto simp: waits_def load_def split: option.splits if_splits)
  show st: "\<not> waits (store p v s)" for p v and s :: "'a mem_scheme"
    by (auto simp: waits_def store_def split: option.splits if_splits)
  show "\<not> waits (load_word w p s)" using l by (simp add: load_word_def waits_bind)
  show "\<not> waits (store_word w p x s)" using st by (simp add: store_word_def)
  show "\<not> waits (c_memcpy d p n s)" using l st by (simp add: c_memcpy_def waits_bind)
  show "\<not> waits (load_str p s)" by (auto simp: waits_def load_str_def split: option.splits if_splits)
  show "\<not> waits (c_free p s)" by (auto simp: waits_def c_free_def split: option.splits if_splits)
  show "\<not> waits (c_realloc p n s)" by (auto simp: waits_def c_realloc_def split: option.splits if_splits list.splits)
  show "\<not> waits (c_alloca n s)" by (auto simp: waits_def c_alloca_def Let_def split: prod.splits if_splits)
qed

lemma connection_never_waits [simp]: "\<not> waits (get_conn p s)" "\<not> waits (dic_conn_send p a n s)"
  by (auto simp: dic_conn_send_def c_send_def get_conn_def waits_bind split: option.splits)

section \<open>Streams that end\<close>

definition eof_of :: "int \<Rightarrow> 'a net_scheme \<Rightarrow> bool option" where
  "eof_of fd s = map_option sk_eof (socks s fd)"

text \<open>\<open>ending conn s\<close>: the peer has ended its stream on the connection, after the bytes that are still to come.\<close>

definition ending :: "nat \<Rightarrow> 'a net_scheme \<Rightarrow> bool" where
  "ending conn s \<longleftrightarrow> (\<forall>c. get_conn conn s = Inr c \<longrightarrow> eof_of (sockfd c) s \<noteq> Some False)"

lemma ending_cong: "conns t = conns s \<Longrightarrow> socks t = socks s \<Longrightarrow> ending conn t \<longleftrightarrow> ending conn s"
  by (simp add: ending_def eof_of_def get_conn_def)

lemma ending_more: "mem.more t = mem.more s \<Longrightarrow> ending conn s \<Longrightarrow> ending conn t" for s t :: "'a net_scheme"
  using more_net(1,2) [of t s] ending_cong by blast

lemma ending_calls:
  fixes s t :: "'a net_scheme"
  assumes "ending conn s"
  shows "c_malloc n s = (p, t) \<Longrightarrow> ending conn t" "c_alloca n s = Inr (p, t) \<Longrightarrow> ending conn t"
    "store a v s = Inr t \<Longrightarrow> ending conn t" "store_word w a x s = Inr t \<Longrightarrow> ending conn t"
proof -
  show m: "ending conn t" if "c_malloc n s = (p, t)" for p t using c_malloc_more [of n s] that by (intro ending_more [OF _ assms]) simp
  show "c_alloca n s = Inr (p, t) \<Longrightarrow> ending conn t"
    using m by (auto simp: c_alloca_def Let_def split: prod.splits if_splits)
  show st: "ending conn t" if "store a v s = Inr t" for v using store_more [OF that] assms by (rule ending_more)
  show "store_word w a x s = Inr t \<Longrightarrow> ending conn t" by (simp add: store_word_def st)
qed

lemma c_recv_eof:
  "eof_of fd s \<noteq> Some False \<Longrightarrow> \<not> waits (c_recv fd p n s)"
  "c_recv fd p n s = Inr (b, t) \<Longrightarrow> eof_of fd t = eof_of fd s \<and> conns t = conns s"
proof -
  show "\<not> waits (c_recv fd p n s)" if "eof_of fd s \<noteq> Some False"
    using that by (auto simp: c_recv_def eof_of_def waits_bind split: option.splits list.splits)
  show "eof_of fd t = eof_of fd s \<and> conns t = conns s" if "c_recv fd p n s = Inr (b, t)"
  proof -
    from that consider "t = s" | cs u v where "store p v s = Inr u" "t = set_in fd cs u"
      by (auto simp: c_recv_def res_simps split: option.splits list.splits if_splits)
    then show ?thesis
    proof cases
      case (2 cs u v)
      from more_net [OF store_more [OF 2(1)]] show ?thesis unfolding 2(2) by (simp add: eof_of_def option.map_comp o_def)
    qed simp
  qed
qed

lemma tcp_recv_loop_eof: "tcp_recv_loop fd buf n k s = Inr (b, t) \<Longrightarrow> eof_of fd t = eof_of fd s \<and> conns t = conns s"
proof (induction fd buf n k s rule: tcp_recv_loop.induct)
  case (1 fd buf n k s)
  show ?case
  proof (cases "k < n")
    case True
    with "1.prems" obtain x u where x: "c_recv fd (buf + k) (n - k) s = Inr (x, u)"
      and r: "(if x \<le> 0 then Inr (- 1, u) else tcp_recv_loop fd buf n (k + nat x) u) = Inr (b, t)"
      by (subst (asm) tcp_recv_loop.simps) (auto elim!: bindR_InrE)
    from r c_recv_eof(2) [OF x] "1.IH" [OF True x refl] show ?thesis by (simp split: if_splits)
  qed (use "1.prems" in \<open>subst (asm) tcp_recv_loop.simps, simp\<close>)
qed

lemma tcp_recv_loop_waits: "eof_of fd s \<noteq> Some False \<Longrightarrow> \<not> waits (tcp_recv_loop fd buf n k s)"
proof (induction fd buf n k s rule: tcp_recv_loop.induct)
  case (1 fd buf n k s)
  have "\<not> waits (if x \<le> 0 then Inr (- 1, u) else tcp_recv_loop fd buf n (k + nat x) u)"
    if "k < n" "c_recv fd (buf + k) (n - k) s = Inr (x, u)" for x u
    using "1.IH" [OF that refl] c_recv_eof(2) [OF that(2)] "1.prems" by simp
  with c_recv_eof(1) [OF "1.prems"] show ?case by (subst tcp_recv_loop.simps) (simp add: waits_bind split_paired_all)
qed

lemma dic_conn_recv_ending:
  assumes "ending conn s"
  shows "\<not> waits (dic_conn_recv conn buf n False s)" "dic_conn_recv conn buf n False s = Inr (0, t) \<Longrightarrow> ending conn t"
proof -
  show "\<not> waits (dic_conn_recv conn buf n False s)"
  proof (cases "get_conn conn s")
    case (Inr c)
    with assms have "\<not> waits (tcp_recv_loop (sockfd c) buf (size_of_int n) 0 s)"
      by (intro tcp_recv_loop_waits) (simp add: ending_def)
    then show ?thesis using Inr by (simp add: dic_conn_recv_def tcp_recv_n_def waits_bind split_paired_all)
  qed (auto simp: dic_conn_recv_def get_conn_def split: if_splits option.splits)
  assume "dic_conn_recv conn buf n False s = Inr (0, t)"
  then obtain c err where c: "get_conn conn s = Inr c" "tcp_recv_loop (sockfd c) buf (size_of_int n) 0 s = Inr (err, t)"
    by (auto simp: dic_conn_recv_def tcp_recv_n_def res_simps split: if_splits)
  have "get_conn conn t = get_conn conn s" "eof_of (sockfd c) t = eof_of (sockfd c) s"
    using tcp_recv_loop_eof [OF c(2)] by (simp_all add: get_conn_def)
  with c(1) assms show "ending conn t" by (simp add: ending_def)
qed

lemma dic_conn_send_ending: "dic_conn_send conn p n s = Inr (r, t) \<Longrightarrow> ending conn s \<Longrightarrow> ending conn t"
  by (auto simp: dic_conn_send_def c_send_def ending_def eof_of_def get_conn_def res_simps split: option.splits if_splits)

end
