(* ===== verification/Main_Waits.thy ===== *)
theory Main_Waits
  imports Main_Frame Waiting
begin

text \<open>
  Where a thread of the main server can wait for ever: only in \<open>recv\<close>, while its peer neither sends nor ends its
  stream. A query never waits; an announcement waits for its body.
\<close>

section \<open>Waiting in passes\<close>

definition owaits :: "'a res option \<Rightarrow> bool" where
  "owaits out \<longleftrightarrow> out = Some (Inl Blocked)"

lemma owaits_simps [simp]: "owaits (Some r) \<longleftrightarrow> waits r" "\<not> owaits None"
  by (simp_all add: owaits_def waits_def)

lemma owaits_bind: "owaits (bindO m f) \<longleftrightarrow> owaits m \<or> (\<exists>x. m = Some (Inr x) \<and> owaits (f x))"
  by (auto simp: bindO_def owaits_def split: option.splits sum.splits)

lemma ll_node_waits [simp]: "\<not> waits (ll_node m p)"
  by (auto simp: ll_node_def split: option.split)

lemma last_info_waits:
  assumes "last_info m p = Some r"
  shows "\<not> waits r"
proof (rule last_info.raw_induct [OF _ assms])
  fix loop m p r
  assume IH: "\<And>m p r. loop m p = Some r \<Longrightarrow> \<not> waits r"
    and run: "(case ll_node m p of Inl e \<Rightarrow> Some (Inl e)
      | Inr n \<Rightarrow> if ll_next n \<noteq> 0 then loop m (ll_next n) else Some (Inr p)) = Some r"
  show "\<not> waits r" using run IH ll_node_waits [of m p] by (cases "ll_node m p") (auto split: if_splits)
qed

lemma count_infos_waits:
  assumes "count_infos m p len = Some r"
  shows "\<not> waits r"
proof (rule count_infos.raw_induct [OF _ assms])
  fix loop m p r and len :: c_int
  assume IH: "\<And>m p len r. loop m p len = Some r \<Longrightarrow> \<not> waits r"
    and run: "(case ll_node m p of Inl e \<Rightarrow> Some (Inl e)
      | Inr n \<Rightarrow> if ll_next n \<noteq> 0 then loop m (ll_next n) (len + 1) else Some (Inr len)) = Some r"
  show "\<not> waits r" using run IH ll_node_waits [of m p] by (cases "ll_node m p") (auto split: if_splits)
qed

lemma walks_wait [simp]: "\<not> owaits (last_info m p)" "\<not> owaits (count_infos m p len)"
  using last_info_waits [of m p] count_infos_waits [of m p len] by (auto simp: owaits_def waits_def)

lemma append_info_waits [simp]: "\<not> owaits (append_info info s)"
  by (auto simp: append_info_def owaits_bind Let_def split: prod.split)

lemma copy_infos_waits [simp]: "\<not> waits (copy_infos r i n p s)"
  by (induction n arbitrary: i p s) (simp_all add: waits_bind)

lemma handle_get_info_waits [simp]: "\<not> owaits (handle_get_info conn s)"
  by (auto simp: handle_get_info_def owaits_bind waits_bind Let_def split: prod.split)

lemma handle_push_info_waits:
  assumes "ending conn s"
  shows "\<not> owaits (handle_push_info conn n s)"
proof -
  have "\<not> waits (dic_conn_recv conn b n False t)" if "c_alloca m s = Inr (b, t)" for b m t
    using dic_conn_recv_ending(1) [OF ending_calls(2) [OF assms that]] .
  then show ?thesis by (auto simp: handle_push_info_def owaits_bind waits_bind Let_def split: prod.split)
qed

lemma connection_pass_waits:
  assumes "ending conn s"
  shows "\<not> owaits (connection_pass conn i s)"
proof -
  have recv: "\<not> waits (dic_conn_recv conn h n False t)" if "c_alloca m s = Inr (h, t)" for h m n t
    using dic_conn_recv_ending(1) [OF ending_calls(2) [OF assms that]] .
  have "ending conn u" if "c_alloca m s = Inr (h, t)" "dic_conn_recv conn h n False t = Inr (r, u)" "r \<noteq> 1" for h m n t r u
  proof -
    have "r = 0" using that(2,3) by (auto simp: dic_conn_recv_def res_simps split: if_splits)
    with dic_conn_recv_ending(2) [OF ending_calls(2) [OF assms that(1)]] that(2) show ?thesis by blast
  qed
  note after = this
  show ?thesis
  proof
    assume "owaits (connection_pass conn i s)"
    then obtain h t r u n where "c_alloca sizeof_dic_main_server_req_head_generic s = Inr (h, t)"
      "dic_conn_recv conn h (word_of_nat sizeof_dic_main_server_req_head_generic) False t = Inr (r, u)" "r \<noteq> 1"
      "owaits (handle_push_info conn n u)"
      by (auto simp: connection_pass_def owaits_bind waits_bind recv split: if_splits)
    with after handle_push_info_waits show False by blast
  qed
qed

end
