(* ===== verification/Getopt.thy ===== *)
theory Getopt
  imports Dicon_Prelude
begin

text \<open>
  \<open>getopt\<close> of the GNU C library for short options, as the programs of the repository use it: the options of
  a command line in order, with their arguments.
\<close>

section \<open>The options of a command line\<close>

text \<open>\<open>takes optstring c\<close>: \<open>None\<close> when \<open>c\<close> is no option, otherwise whether it has an argument.\<close>

fun takes :: "string \<Rightarrow> char \<Rightarrow> bool option" where
  "takes [] c = None"
| "takes (a # t) c =
     (if a = c \<and> a \<noteq> CHR '':'' then Some (case t of [] \<Rightarrow> False | b # _ \<Rightarrow> b = CHR '':'') else takes t c)"

text \<open>One element that starts with \<open>-\<close>: its options, and whether the last one still needs the next element as
  its argument. An unknown option is returned as \<open>?\<close>.\<close>

fun short_options :: "string \<Rightarrow> string \<Rightarrow> (char \<times> string option) list \<times> char option" where
  "short_options opts [] = ([], None)"
| "short_options opts (c # t) =
     (case takes opts c of
        None \<Rightarrow> (let (os, w) = short_options opts t in ((CHR ''?'', None) # os, w))
      | Some False \<Rightarrow> (let (os, w) = short_options opts t in ((c, None) # os, w))
      | Some True \<Rightarrow> if t = [] then ([], Some c) else ([(c, Some t)], None))"

text \<open>Elements that are no options are passed over, \<open>--\<close> ends the options, and an option without its
  argument is returned as \<open>?\<close>.\<close>

fun getopt :: "string \<Rightarrow> string list \<Rightarrow> (char \<times> string option) list" where
  "getopt opts [] = []"
| "getopt opts (a # as) =
     (if a = ''--'' then []
      else if take 1 a = ''-'' \<and> 1 < length a then
        (case short_options opts (tl a) of
           (os, None) \<Rightarrow> os @ getopt opts as
         | (os, Some d) \<Rightarrow> (case as of [] \<Rightarrow> os @ [(CHR ''?'', None)] | v # as' \<Rightarrow> os @ (d, Some v) # getopt opts as'))
      else getopt opts as)"

end
