(* ===== verification/Main_Process.thy ===== *)
theory Main_Process
  imports Main_Waits Getopt
begin

text \<open>
  The main server as a process, \<open>main-server/src/main.c\<close>: \<open>main\<close> reads the options and opens the listening
  connection, \<open>listen_loop\<close> accepts connections and starts a detached thread for each, and the threads run
  concurrently. A thread works on its own connection and its own locals except in the handlers and at its
  end, where it holds the mutex; so the steps that are interleaved are whole passes of the loops (theory Main_Mutex adds the holder of the mutex, and
  shows that its steps are steps here). The run
  ends with the first pass that fails.
\<close>

section \<open>The program\<close>

fun server_option_loop :: "(char \<times> string option) list \<Rightarrow> unit res" where
  "server_option_loop [] = Inr ()"
| "server_option_loop ((opt, optarg) # os) =
     (if opt = CHR ''h'' then Inl (Exited 0) else server_option_loop os)"

text \<open>\<open>main\<close> up to the listening loop; the options \<open>-p\<close> and \<open>-a\<close> are accepted and not used.\<close>

definition server_main :: "string list \<Rightarrow> 'a main_server_scheme \<Rightarrow> (nat \<times> 'a main_server_scheme) res" where
  "server_main argv s =
     bindR (server_option_loop (getopt ''hp:V:a:'' argv)) (\<lambda>_. dic_conn_new_listening DIC_MAIN_SERVER_PORT s)"

definition sizeof_connection_handler_args :: nat where "sizeof_connection_handler_args = 8"

text \<open>One pass of \<open>listen_loop\<close>: the result is the argument of the new thread. The result of
  \<open>dic_conn_accept\<close> is not looked at, and the argument is not freed.\<close>

definition listen_pass :: "nat \<Rightarrow> 'a main_server_scheme \<Rightarrow> (nat \<times> 'a main_server_scheme) res" where
  "listen_pass listen_conn s =
     bindR (dic_conn_accept listen_conn s) (\<lambda>(client_conn, s1).
     let (args, s2) = c_malloc sizeof_connection_handler_args s1 in
     if args = 0 then Inl NullDeref
     else bindR (store_word 8 args (word_of_nat client_conn :: u64) s2) (\<lambda>s3. Inr (args, s3)))"

text \<open>The connection a new thread reads from its argument.\<close>

definition args_conn :: "nat \<Rightarrow> 'a main_server_scheme \<Rightarrow> nat res" where
  "args_conn args s = bindR (load_word 8 args s) (\<lambda>w. Inr (unat (w :: u64)))"

record server_process =
  srv :: main_server
  listener :: nat
  threads :: "nat \<rightharpoonup> nat option"

text \<open>\<open>threads\<close> gives the variable \<open>conn_info\<close> of the thread of each connection. In an \<open>outside\<close> step the peers
  send, close and connect, and the allocator decides what it will give.\<close>

inductive srv_step :: "server_process \<Rightarrow> server_process \<Rightarrow> bool" where
  accept: "listen_pass (listener y) (srv y) = Inr (args, s) \<Longrightarrow> args_conn args s = Inr c \<Longrightarrow>
    srv_step y (y\<lparr>srv := s, threads := (threads y)(c \<mapsto> None)\<rparr>)"
| serve: "threads y c = Some i \<Longrightarrow> connection_pass c i (srv y) = Some (Inr (Some j, s)) \<Longrightarrow>
    srv_step y (y\<lparr>srv := s, threads := (threads y)(c \<mapsto> j)\<rparr>)"
| finish: "threads y c = Some i \<Longrightarrow> connection_pass c i (srv y) = Some (Inr (None, s)) \<Longrightarrow>
    connection_end c i s = Inr s' \<Longrightarrow> srv_step y (y\<lparr>srv := s', threads := (threads y)(c := None)\<rparr>)"
| outside: "dom f = dom (socks (srv y)) \<Longrightarrow>
    srv_step y (y\<lparr>srv := (srv y)\<lparr>socks := f, accept_answers := as, choices := cs\<rparr>\<rparr>)"

inductive srv_reachable :: "server_process \<Rightarrow> bool" where
  started: "blocks s = [] \<Longrightarrow> conns s = Map.empty \<Longrightarrow> infos s = Map.empty \<Longrightarrow> NODES_INFO s = 0 \<Longrightarrow>
    server_main argv s = Inr (l, s') \<Longrightarrow> srv_reachable \<lparr>srv = s', listener = l, threads = Map.empty\<rparr>"
| onward: "srv_reachable y \<Longrightarrow> srv_step y y' \<Longrightarrow> srv_reachable y'"

section \<open>Passes keep the list sound\<close>

definition sound :: "'a main_server_scheme \<Rightarrow> bool" where
  "sound s \<longleftrightarrow> linked s \<and> (\<exists>xs. registry s xs)"

lemma sound_mem_ok: "sound s \<Longrightarrow> mem_ok s"
  by (auto simp: sound_def registry_def)

lemma sound_live: "sound s \<Longrightarrow> dom (infos s) \<subseteq> dom (heap_of s)"
  by (auto simp: sound_def dest: linkedD(2))

lemma seg_dom: "seg m pr p xs q \<Longrightarrow> x \<in> set xs \<Longrightarrow> fst x \<in> dom m"
  by (induction xs arbitrary: pr p) (auto split: option.splits)

text \<open>Soundness depends on the list and on the objects of its nodes.\<close>

lemma sound_cong:
  fixes s t :: "'a main_server_scheme"
  assumes "sound s" "mem_ok t" "infos t = infos s" "NODES_INFO t = NODES_INFO s"
    and sub: "dom (infos s) \<subseteq> dom (heap_of t)"
  shows "sound t"
proof -
  have live: "heap_of t a \<noteq> None" if "a \<in> dom (infos s)" for a using that sub by auto
  from assms(1) obtain xs where l: "linked s" and r: "registry s xs" by (auto simp: sound_def)
  have "seg (infos s) 0 (NODES_INFO s) xs 0" using r by (simp add: registry_def)
  then have "\<forall>x \<in> set xs. fst x \<in> dom (infos s)" using seg_dom by metis
  with r assms(1-4) live have "registry t xs" by (simp add: registry_def)
  moreover have "linked t" using l live unfolding linked_def assms(3) by (metis domI)
  ultimately show ?thesis by (auto simp: sound_def)
qed

lemma sound_keeps: "sound s \<Longrightarrow> keeps s t \<Longrightarrow> sound t"
  using sound_cong [of s t] sound_live [of s] unfolding keeps_def by (metis order_trans)

lemma sound_del_block: "sound s \<Longrightarrow> a \<notin> dom (infos s) \<Longrightarrow> sound (del_block a s)"
  by (rule sound_cong [of s]) (use sound_live [of s] sound_mem_ok [of s] in auto)

lemma sound_append:
  fixes s :: "'a main_server_scheme"
  assumes "sound s" "append_info info s = Some (Inr (p, t))"
  shows "sound t" "heap_of s p = None" "dom (infos t) = insert p (dom (infos s))"
    "dom (heap_of t) = insert p (dom (heap_of s))" "conns t = conns s"
proof -
  from assms(1) obtain xs where l: "linked s" and r: "registry s xs" by (auto simp: sound_def)
  from append_info_effect [OF r assms(2)] obtain c where
    c: "grants sizeof_linked_list_node_info c s" "p = fst c" "registry t (xs @ [(p, info)])"
      "heap_of t = (heap_of s)(fst c \<mapsto> snd c)" by blast
  note A = linked_append [OF r l assms(2)]
  show "sound t" "dom (infos t) = insert p (dom (infos s))" using A c(3) by (auto simp: sound_def)
  show "heap_of s p = None" using grants_fresh [OF c(1)] sound_mem_ok [OF assms(1)] c(2) by simp
  show "dom (heap_of t) = insert p (dom (heap_of s))" using c(2,4) by simp
  from append_info_registry [OF r c(1), of info] assms(2) show "conns t = conns s" by auto
qed

text \<open>What a pass does, whatever the peer sent.\<close>

text \<open>The announcement inside a pass, whose head stands in the local object \<open>h\<close>.\<close>

lemma push_pass_effect:
  fixes s s2 s3 :: "'a main_server_scheme"
  assumes "sound s" and k: "keeps s s2" and h: "heap_of s h = None" "heap_of s2 h \<noteq> None"
    and push: "handle_push_info c n s2 = Some (Inr (p, s3))" and t: "t = del_block h s3"
  shows "sound t" "dom (conns t) = dom (conns s)" "dom (heap_of s) \<subseteq> dom (heap_of t)"
    "heap_of s p = None" "dom (infos t) = insert p (dom (infos s))"
proof -
  from handle_push_info_keeps [OF push keeps_mem_ok [OF k]] obtain info s8 s9 b g d where
    k8: "keeps s2 s8" and ap: "append_info info s8 = Some (Inr (p, s9))"
    and s3: "s3 = del_block b (del_block g (del_block d s9))"
    and fr: "\<forall>a \<in> {b, g, d}. heap_of s2 a = None \<and> heap_of s8 a \<noteq> None" by metis
  note k28 = keeps_trans [OF k k8]
  note A = sound_append [OF sound_keeps [OF assms(1) k28] ap]
  show "heap_of s p = None" by (rule keeps_fresh [OF k28 A(2)])
  have loc: "\<forall>x \<in> {h, b, g, d}. heap_of s x = None \<and> x \<noteq> p"
    using fr A(2) h(1) keeps_fresh [OF k] keeps_live [OF k8 h(2)] by auto
  have inf: "dom (infos s9) = insert p (dom (infos s))" using A(3) k28 by (simp add: keeps_def)
  have "\<forall>x \<in> {h, b, g, d}. x \<notin> dom (infos s9)"
    using loc sound_live [OF assms(1)] unfolding inf by auto
  then show "sound t" unfolding t s3 by (intro sound_del_block A(1)) simp_all
  show "dom (infos t) = insert p (dom (infos s))" "dom (conns t) = dom (conns s)"
    using inf A(5) k28 unfolding t s3 by (simp_all add: keeps_def)
  show "dom (heap_of s) \<subseteq> dom (heap_of t)"
    using A(4) k28 loc unfolding t s3 keeps_def by auto
qed

lemma connection_pass_effect:
  fixes s :: "'a main_server_scheme"
  assumes "sound s" "connection_pass c i s = Some (Inr (r, t))"
  shows "sound t" "dom (conns t) = dom (conns s)" "dom (heap_of s) \<subseteq> dom (heap_of t)"
    "(r = None \<or> r = Some i) \<and> infos t = infos s \<or>
     (\<exists>p. r = Some (Some p) \<and> heap_of s p = None \<and> dom (infos t) = insert p (dom (infos s)))"
    "c \<in> dom (conns s)" "c \<noteq> 0"
proof -
  note ok = sound_mem_ok [OF assms(1)]
  from assms(2) obtain h s1 q s2 where
    s1: "c_alloca sizeof_dic_main_server_req_head_generic s = Inr (h, s1)"
    and s2: "dic_conn_recv c h (word_of_nat sizeof_dic_main_server_req_head_generic) False s1 = Inr (q, s2)"
    and rest: "t = del_block h s2 \<and> (r = None \<or> r = Some i) \<or>
      (\<exists>n p s3. handle_push_info c n s2 = Some (Inr (p, s3)) \<and> r = Some (Some p) \<and> t = del_block h s3) \<or>
      (\<exists>s3. handle_get_info c s2 = Some (Inr s3) \<and> r = Some i \<and> t = del_block h s3)"
    unfolding connection_pass_def by (fastforce simp: bindO_Inr_iff split: if_splits)
  note a = c_alloca_keeps [OF s1 ok] and k2 = dic_conn_recv_keeps [OF s2 keeps_mem_ok]
  note k = keeps_trans [OF a(1) k2(1) [OF a(1)]]
  have h: "heap_of s2 h \<noteq> None" by (rule keeps_live [OF k2(1) [OF a(1)] a(3)])
  from s2 have "c \<noteq> 0" "conns s1 c \<noteq> None" by (auto simp: dic_conn_recv_def get_conn_def res_simps split: if_splits option.splits)
  with a(1) show "c \<noteq> 0" "c \<in> dom (conns s)" by (auto simp: keeps_def)
  have "keeps s t \<and> (r = None \<or> r = Some i) \<or>
    (\<exists>p. sound t \<and> dom (conns t) = dom (conns s) \<and> dom (heap_of s) \<subseteq> dom (heap_of t) \<and>
       r = Some (Some p) \<and> heap_of s p = None \<and> dom (infos t) = insert p (dom (infos s)))"
    using rest
  proof (elim disjE exE conjE)
    assume "t = del_block h s2" "r = None"
    with keeps_del_block [OF k a(2)] show ?thesis by simp
  next
    assume "t = del_block h s2" "r = Some i"
    with keeps_del_block [OF k a(2)] show ?thesis by simp
  next
    fix s3 assume "handle_get_info c s2 = Some (Inr s3)" "r = Some i" "t = del_block h s3"
    with keeps_del_block [OF keeps_trans [OF k handle_get_info_keeps] a(2)] keeps_mem_ok [OF k] show ?thesis by simp
  next
    fix n p s3 assume push: "handle_push_info c n s2 = Some (Inr (p, s3))" and r: "r = Some (Some p)" and t: "t = del_block h s3"
    from push_pass_effect [OF assms(1) k a(2) h push t] r show ?thesis by blast
  qed
  then show "sound t" "dom (conns t) = dom (conns s)" "dom (heap_of s) \<subseteq> dom (heap_of t)"
    "(r = None \<or> r = Some i) \<and> infos t = infos s \<or>
     (\<exists>p. r = Some (Some p) \<and> heap_of s p = None \<and> dom (infos t) = insert p (dom (infos s)))"
    using sound_keeps [OF assms(1)] by (auto simp: keeps_def)
qed

section \<open>Every pass returns\<close>




section \<open>Connections come and go\<close>

lemma c_accept_effect:
  fixes s :: "'a main_server_scheme"
  assumes "c_accept fd s = Inr (r, t)" "mem_ok s"
  shows "keeps s t" "heap_of t = heap_of s" "conns t = conns s"
proof -
  from assms(1) consider "t = s" | a where "t = s\<lparr>accept_answers := a\<rparr>"
    | f a where "t = s\<lparr>socks := f, accept_answers := a\<rparr>"
    by (auto simp: c_accept_def split: if_splits list.splits option.splits)
  then show "keeps s t" "heap_of t = heap_of s" "conns t = conns s"
    using assms(2) by (cases; simp add: keeps_def mem_ok_def heap_of_def)+
qed

lemma dic_conn_accept_effect:
  fixes s :: "'a main_server_scheme"
  assumes "dic_conn_accept l s = Inr (c, t)" "mem_ok s"
  shows "mem_ok t" "infos t = infos s" "NODES_INFO t = NODES_INFO s" "dom (heap_of s) \<subseteq> dom (heap_of t)"
    "c = 0 \<and> conns t = conns s \<or>
     0 < c \<and> c < 2 ^ 64 \<and> heap_of s c = None \<and> heap_of t c \<noteq> None \<and> dom (conns t) = insert c (dom (conns s))"
proof -
  from assms(1) obtain lc r u where u: "c_accept (sockfd lc) s = Inr (r, u)"
    and out: "bindR (get_conn l s) (\<lambda>lc. bindR (c_accept (sockfd lc) s) (\<lambda>_. Inr lc)) = Inr lc"
    by (auto simp: dic_conn_accept_def res_simps)
  have t: "c = 0 \<and> t = u \<or>
      c \<noteq> 0 \<and> c = fst (c_malloc sizeof_dic_conn u) \<and> (\<exists>v. t = put_conn c v (snd (c_malloc sizeof_dic_conn u)))"
  proof (cases r)
    case None
    with assms(1) u out show ?thesis by (auto simp: dic_conn_accept_def res_simps)
  next
    case (Some a)
    with assms(1) u out show ?thesis
      by (cases a) (auto simp: dic_conn_accept_def res_simps Let_def case_prod_unfold split: if_splits)
  qed
  note k = c_accept_effect [OF u assms(2)]
  have "mem_ok t \<and> infos t = infos s \<and> NODES_INFO t = NODES_INFO s \<and> dom (heap_of s) \<subseteq> dom (heap_of t) \<and>
    (c = 0 \<and> conns t = conns s \<or>
     0 < c \<and> c < 2 ^ 64 \<and> heap_of s c = None \<and> heap_of t c \<noteq> None \<and> dom (conns t) = insert c (dom (conns s)))"
  proof (cases "c = 0")
    case True
    with t k show ?thesis by (simp add: keeps_def)
  next
    case False
    with t obtain v where c: "c = fst (c_malloc sizeof_dic_conn u)" and t': "t = put_conn c v (snd (c_malloc sizeof_dic_conn u))"
      by auto
    from False c obtain b where b: "grants sizeof_dic_conn b u" "c_malloc sizeof_dic_conn u = (fst b, add_block b u)"
      by (cases rule: c_malloc_cases [of sizeof_dic_conn u]) auto
    note ok = keeps_mem_ok [OF k(1)]
    have "heap_of t = (heap_of s)(fst b \<mapsto> snd b)" "mem_ok t" "conns t = (conns s)(c \<mapsto> v)" "infos t = infos s"
      "NODES_INFO t = NODES_INFO s"
      using t' b grants_mem_ok [OF b(1) ok] k by (simp_all add: put_conn_def heap_of_def mem_ok_def add_block_def keeps_def)
    with c b False grants_limit [OF b(1)] grants_fresh [OF b(1) ok] k(2) show ?thesis by auto
  qed
  then show "mem_ok t" "infos t = infos s" "NODES_INFO t = NODES_INFO s" "dom (heap_of s) \<subseteq> dom (heap_of t)"
    "c = 0 \<and> conns t = conns s \<or>
     0 < c \<and> c < 2 ^ 64 \<and> heap_of s c = None \<and> heap_of t c \<noteq> None \<and> dom (conns t) = insert c (dom (conns s))"
    by simp_all
qed

text \<open>A new thread works on the connection that was accepted.\<close>

lemma args_hold_conn:
  fixes s :: "'a main_server_scheme"
  assumes b: "grants sizeof_connection_handler_args b s" and ok: "mem_ok s" and p: "p < 2 ^ 64"
  obtains t where "store_word 8 (fst b) (word_of_nat p :: u64) (add_block b s) = Inr t" "args_conn (fst b) t = Inr p"
    "\<forall>ns. stocked ns t = stocked ns (add_block b s)" "mem.more t = mem.more s"
proof -
  let ?v = "enc_word 8 (word_of_nat p :: u64) @ drop 8 (snd b)"
  let ?t = "set_block (fst b) ?v (add_block b s)"
  have len: "8 \<le> length (snd b)" using grants_length [OF b] by (simp add: sizeof_connection_handler_args_def)
  have s1: "mem_ok (add_block b s)" "heap_of (add_block b s) (fst b) = Some (snd b)" using grants_mem_ok [OF b ok] by simp_all
  have lv: "length ?v = length (snd b)" using len by simp
  note t = set_block_mem_ok [OF s1 lv]
  from store_block [OF s1, of 0 "enc_word 8 (word_of_nat p :: u64)"] len
  have "store_word 8 (fst b) (word_of_nat p :: u64) (add_block b s) = Inr ?t" by (simp add: store_word_def patch_def)
  moreover have "heap_of ?t (fst b) = Some ?v" by simp
  then have "load_word 8 (fst b) ?t = Inr (word_of_nat p :: u64)" by (simp add: load_word_at0 [OF t])
  then have "args_conn (fst b) ?t = Inr p" using p by (simp add: args_conn_def unsigned_of_nat take_bit_nat_eq_self)
  moreover have "mem.more ?t = mem.more s" by (simp add: more_blocks)
  ultimately show ?thesis using that stocked_set_block [OF s1 lv] by blast
qed

lemma listen_pass_effect:
  fixes s :: "'a main_server_scheme"
  assumes "listen_pass l s = Inr (args, t)" "args_conn args t = Inr c" "mem_ok s"
  obtains s1 where "dic_conn_accept l s = Inr (c, s1)" "keeps s1 t"
proof -
  from assms(1) obtain p s1 where p: "dic_conn_accept l s = Inr (p, s1)" and a: "args \<noteq> 0"
    "fst (c_malloc sizeof_connection_handler_args s1) = args"
    and st: "store_word 8 args (word_of_nat p :: u64) (snd (c_malloc sizeof_connection_handler_args s1)) = Inr t"
    by (auto simp: listen_pass_def res_simps Let_def case_prod_unfold split: if_splits)
  note A = dic_conn_accept_effect [OF p assms(3)] and k = c_malloc_keeps(1) [OF A(1), of sizeof_connection_handler_args]
  from a obtain b where b: "grants sizeof_connection_handler_args b s1" "args = fst b"
    "snd (c_malloc sizeof_connection_handler_args s1) = add_block b s1"
    by (cases rule: c_malloc_cases [of sizeof_connection_handler_args s1]) auto
  have "p < 2 ^ 64" using A(5) by auto
  then obtain t' where "store_word 8 args (word_of_nat p :: u64) (add_block b s1) = Inr t'" "args_conn args t' = Inr p"
    using args_hold_conn [OF b(1) A(1), of p] b(2) by metis
  with st b(3) assms(2) have "c = p" by simp
  with that p keeps_trans [OF k store_word_keeps [OF st keeps_mem_ok [OF k]]] show ?thesis by metis
qed

text \<open>The end of a thread.\<close>

lemma sound_remove:
  fixes s :: "'a main_server_scheme"
  assumes "sound s" "p \<in> dom (infos s)"
  obtains t where "remove_info p s = Inr t" "sound t" "dom (infos t) = dom (infos s) - {p}"
    "heap_of t = (heap_of s)(p := None)" "conns t = conns s"
proof -
  from assms obtain xs n where l: "linked s" and r: "registry s xs" and n: "infos s p = Some n" by (auto simp: sound_def)
  obtain t where t: "remove_info p s = Inr t" "infos t = unlink p (ll_prev n) (ll_next n) (infos s)"
    "NODES_INFO t = (if ll_prev n = 0 then 0 else NODES_INFO s)" "mem_ok t" "heap_of t = (heap_of s)(p := None)"
    by (rule linked_remove [OF l sound_mem_ok [OF assms(1)] n])
  have "sound t" using linked_unlink [OF l n t(2,5)] registry_remove_any [OF r l n t] by (simp add: sound_def)
  with that t remove_info_keeps [OF t(1)] show ?thesis by (simp add: unlink_dom)
qed

lemma connection_end_effect:
  fixes s :: "'a main_server_scheme"
  assumes sd: "sound s" and c: "c \<in> dom (conns s)" "c \<noteq> 0" "heap_of s c \<noteq> None" "c \<notin> dom (infos s)"
    and i: "\<forall>p. i = Some p \<longrightarrow> p \<in> dom (infos s)"
  obtains t where "connection_end c i s = Inr t" "sound t" "dom (infos t) = dom (infos s) - set_option i"
    "heap_of t = (heap_of s |` (- set_option i)) (c := None)" "conns t = (conns s)(c := None)"
proof -
  obtain s1 where s1: "(case i of None \<Rightarrow> Inr s | Some p \<Rightarrow> remove_info p s) = Inr s1" "sound s1"
    "dom (infos s1) = dom (infos s) - set_option i" "heap_of s1 = heap_of s |` (- set_option i)" "conns s1 = conns s"
  proof (cases i)
    case None
    with that sd show ?thesis by (simp add: restrict_map_def)
  next
    case (Some p)
    from sound_remove [OF sd, of p] i Some obtain t where "remove_info p s = Inr t" "sound t"
      "dom (infos t) = dom (infos s) - {p}" "heap_of t = (heap_of s)(p := None)" "conns t = conns s" by blast
    with that Some show ?thesis by (simp add: restrict_complement_singleton_eq)
  qed
  from c obtain v where v: "conns s1 c = Some v" using s1(5) by auto
  have "c \<notin> set_option i" using i c(4) by auto
  with c(3) s1(4) obtain bs where bs: "heap_of s1 c = Some bs" by auto
  obtain t where t: "dic_conn_destroy c s1 = Inr t" "heap_of t = (heap_of s1)(c := None)" "mem_ok t"
    "conns t = (conns s1)(c := None)"
    by (rule dic_conn_destroy_releases [OF v _ bs sound_mem_ok [OF s1(2)]]) (use c(2) in auto)
  note same = dic_conn_destroy_ms [OF t(1)]
  have "c \<notin> dom (infos s1)" using c(4) s1(3) by simp
  then have "sound t" using sound_live [OF s1(2)] t(2,3) same by (intro sound_cong [OF s1(2)]) auto
  with that [of t] s1 t same show ?thesis by (simp add: connection_end_def)
qed

section \<open>The invariant\<close>

text \<open>The list is sound, each registered node of a live thread is its own, and the connection structures in
  memory are exactly the one that listens and those of the live threads.\<close>

definition nodes_of :: "server_process \<Rightarrow> nat \<rightharpoonup> nat" where
  "nodes_of y c = Option.bind (threads y c) (\<lambda>i. i)"

definition srv_inv :: "server_process \<Rightarrow> bool" where
  "srv_inv y \<longleftrightarrow> sound (srv y) \<and> owns (nodes_of y) (dom (infos (srv y))) \<and>
     dom (conns (srv y)) = insert (listener y) (dom (threads y) - {0}) \<and>
     listener y \<noteq> 0 \<and> listener y \<notin> dom (threads y) \<and>
     dom (conns (srv y)) \<subseteq> dom (heap_of (srv y)) \<and> dom (conns (srv y)) \<inter> dom (infos (srv y)) = {}"

lemma srv_invD:
  assumes "srv_inv y"
  shows "sound (srv y)" "owns (nodes_of y) (dom (infos (srv y)))"
    "dom (conns (srv y)) = insert (listener y) (dom (threads y) - {0})" "listener y \<noteq> 0" "listener y \<notin> dom (threads y)"
    "dom (conns (srv y)) \<subseteq> dom (heap_of (srv y))" "dom (conns (srv y)) \<inter> dom (infos (srv y)) = {}"
  using assms unfolding srv_inv_def by blast+

lemma owns_mono: "owns m D \<Longrightarrow> D \<subseteq> E \<Longrightarrow> owns m E"
  by (auto simp: owns_def)

lemma owns_less: "owns m D \<Longrightarrow> owns (m(c := None)) D"
  by (auto simp: owns_def)

lemma nodes_of_update:
  "nodes_of (y\<lparr>srv := s, threads := (threads y)(c := i)\<rparr>) = (nodes_of y)(c := Option.bind i (\<lambda>i. i))"
  by (auto simp: nodes_of_def)

lemma srv_invI:
  assumes "sound s" "owns ((nodes_of y)(c := Option.bind i (\<lambda>i. i))) (dom (infos s))"
    "dom (conns s) = insert (listener y) (dom ((threads y)(c := i)) - {0})" "listener y \<noteq> 0"
    "listener y \<notin> dom ((threads y)(c := i))" "dom (conns s) \<subseteq> dom (heap_of s)" "dom (conns s) \<inter> dom (infos s) = {}"
  shows "srv_inv (y\<lparr>srv := s, threads := (threads y)(c := i)\<rparr>)"
proof -
  let ?y = "y\<lparr>srv := s, threads := (threads y)(c := i)\<rparr>"
  have f: "srv ?y = s" "listener ?y = listener y" "threads ?y = (threads y)(c := i)" by simp_all
  show ?thesis using assms unfolding srv_inv_def nodes_of_update f by blast
qed

lemma srv_inv_accept:
  assumes inv: "srv_inv y" and lp: "listen_pass (listener y) (srv y) = Inr (args, s)" "args_conn args s = Inr c"
  shows "srv_inv (y\<lparr>srv := s, threads := (threads y)(c \<mapsto> None)\<rparr>)"
proof -
  note I = srv_invD [OF inv]
  obtain s1 where s1: "dic_conn_accept (listener y) (srv y) = Inr (c, s1)" "keeps s1 s"
    by (rule listen_pass_effect [OF lp sound_mem_ok [OF I(1)]])
  note A = dic_conn_accept_effect [OF s1(1) sound_mem_ok [OF I(1)]]
  have live: "dom (heap_of (srv y)) \<subseteq> dom (heap_of s)" using A(4) s1(2) unfolding keeps_def by blast
  have same: "infos s = infos (srv y)" "NODES_INFO s = NODES_INFO (srv y)" "mem_ok s"
    using A(2,3) s1(2) by (simp_all add: keeps_def)
  have "sound s" by (rule sound_cong [OF I(1)]) (use same live sound_live [OF I(1)] in simp_all)
  moreover have "dom (conns s) = insert (listener y) (dom ((threads y)(c \<mapsto> None)) - {0}) \<and> listener y \<noteq> c \<and>
    dom (conns s) \<subseteq> dom (heap_of s) \<and> dom (conns s) \<inter> dom (infos s) = {}"
  proof (cases "c = 0")
    case True
    then have cs: "dom (conns s) = dom (conns (srv y))" using A(5) s1(2) by (simp add: keeps_def)
    have th: "dom ((threads y)(c \<mapsto> None)) - {0} = dom (threads y) - {0}" using True by auto
    have "listener y \<noteq> c" using True I(4) by simp
    then show ?thesis unfolding cs th same(1) using I(3,7) order_trans [OF I(6) live] by simp
  next
    case False
    with A(5) have c: "c \<notin> dom (heap_of (srv y))" "heap_of s1 c \<noteq> None" "dom (conns s1) = insert c (dom (conns (srv y)))"
      by auto
    have cs: "dom (conns s) = insert c (dom (conns (srv y)))" and hs: "c \<in> dom (heap_of s)"
      using s1(2) c keeps_live [OF s1(2), of c] by (auto simp: keeps_def)
    have out: "c \<notin> dom (conns (srv y))" "c \<notin> dom (infos (srv y))" using c(1) I(6) sound_live [OF I(1)] by blast+
    have th: "dom ((threads y)(c \<mapsto> None)) - {0} = insert c (dom (threads y) - {0})" using False by auto
    have "listener y \<noteq> c" using out(1) I(3) by blast
    then show ?thesis unfolding cs th same(1)
      using I(3,7) order_trans [OF I(6) live] hs out(2) by (simp add: insert_commute)
  qed
  moreover have "owns ((nodes_of y)(c := None)) (dom (infos s))" using owns_less [OF I(2)] same(1) by simp
  ultimately show ?thesis using I(4,5) by (intro srv_invI) auto
qed

lemma srv_inv_serve:
  assumes inv: "srv_inv y" and ps: "threads y c = Some i" "connection_pass c i (srv y) = Some (Inr (Some j, s))"
  shows "srv_inv (y\<lparr>srv := s, threads := (threads y)(c \<mapsto> j)\<rparr>)"
proof -
  note I = srv_invD [OF inv]
  note A = connection_pass_effect [OF I(1) ps(2)]
  have th: "dom ((threads y)(c \<mapsto> j)) = dom (threads y)" using ps(1) by auto
  have ci: "nodes_of y c = i" using ps(1) by (simp add: nodes_of_def)
  have "owns ((nodes_of y)(c := j)) (dom (infos s)) \<and> dom (conns s) \<inter> dom (infos s) = {}"
    using A(4)
  proof (elim disjE exE conjE)
    fix p assume p: "Some j = Some (Some p)" "heap_of (srv y) p = None" "dom (infos s) = insert p (dom (infos (srv y)))"
    then have "p \<notin> dom (heap_of (srv y))" by auto
    then have "p \<notin> dom (infos (srv y))" "p \<notin> dom (conns (srv y))" using sound_live [OF I(1)] I(6) by blast+
    with p owns_announce [OF I(2), of p c] I(7) A(2) show ?thesis by simp
  next
    assume "Some j = Some i" "infos s = infos (srv y)"
    with I(2,7) A(2) ci show ?thesis by (simp add: fun_upd_idem)
  qed simp
  moreover have "dom (conns s) \<subseteq> dom (heap_of s)" using A(2,3) I(6) by blast
  ultimately show ?thesis using A(1,2) I(3-5) th unfolding srv_inv_def nodes_of_update by simp
qed

lemma srv_inv_finish:
  assumes inv: "srv_inv y" and ps: "threads y c = Some i" "connection_pass c i (srv y) = Some (Inr (None, s))"
  obtains s' where "connection_end c i s = Inr s'" "srv_inv (y\<lparr>srv := s', threads := (threads y)(c := None)\<rparr>)"
    "heap_of s' c = None"
proof -
  note I = srv_invD [OF inv]
  note A = connection_pass_effect [OF I(1) ps(2)]
  have inf: "infos s = infos (srv y)" using A(4) by auto
  have ci: "nodes_of y c = i" using ps(1) by (simp add: nodes_of_def)
  have i: "\<forall>p. i = Some p \<longrightarrow> p \<in> dom (infos s)" using I(2) ci inf by (auto simp: owns_def)
  have cd: "c \<in> dom (conns s)" "c \<in> dom (heap_of s)" "c \<notin> dom (infos s)" using A(2,3,5) I(6,7) unfolding inf by blast+
  then have c: "c \<in> dom (conns s)" "heap_of s c \<noteq> None" "c \<notin> dom (infos s)" by auto
  obtain t where t: "connection_end c i s = Inr t" "sound t" "dom (infos t) = dom (infos s) - set_option i"
    "heap_of t = (heap_of s |` (- set_option i)) (c := None)" "conns t = (conns s)(c := None)"
    by (rule connection_end_effect [OF A(1) c(1) A(6) c(2,3) i])
  have "owns ((nodes_of y)(c := None)) (dom (infos t))"
  proof (cases i)
    case None
    with owns_less [OF I(2)] t(3) inf show ?thesis by simp
  next
    case (Some p)
    with owns_leave [OF I(2), of c p] ci t(3) inf show ?thesis by simp
  qed
  moreover have "c \<noteq> listener y" using ps(1) I(5) by auto
  then have "dom (conns t) = insert (listener y) (dom ((threads y)(c := None)) - {0})"
    using A(2,6) I(3) t(5) by auto
  moreover have "dom (conns t) \<inter> dom (infos t) = {}" using I(7) A(2) t(3,5) inf by auto
  moreover have heap_t: "dom (heap_of t) = dom (heap_of s) - set_option i - {c}" using t(4) by auto
  moreover have conns_t: "dom (conns t) = dom (conns s) - {c}" using t(5) by simp
  moreover have "set_option i \<subseteq> dom (infos (srv y))" using i inf by (cases i) auto
  then have "dom (conns t) \<subseteq> dom (heap_of t)" using A(2,3) I(6,7) unfolding heap_t conns_t by blast
  ultimately have "srv_inv (y\<lparr>srv := t, threads := (threads y)(c := None)\<rparr>)"
    using t(2) I(4,5) unfolding srv_inv_def nodes_of_update by simp
  moreover have "heap_of t c = None" using t(4) by simp
  ultimately show ?thesis using that t(1) by blast
qed

lemma srv_inv_outside:
  assumes "srv_inv y"
  shows "srv_inv (y\<lparr>srv := (srv y)\<lparr>socks := f, accept_answers := as, choices := cs\<rparr>\<rparr>)"
proof -
  note I = srv_invD [OF assms]
  let ?s = "(srv y)\<lparr>socks := f, accept_answers := as, choices := cs\<rparr>"
  have s: "mem_ok ?s" "infos ?s = infos (srv y)" "NODES_INFO ?s = NODES_INFO (srv y)" "heap_of ?s = heap_of (srv y)"
    "conns ?s = conns (srv y)" using sound_mem_ok [OF I(1)] by (simp_all add: mem_ok_def heap_of_def)
  have y: "srv (y\<lparr>srv := ?s\<rparr>) = ?s" "listener (y\<lparr>srv := ?s\<rparr>) = listener y" "threads (y\<lparr>srv := ?s\<rparr>) = threads y"
    "nodes_of (y\<lparr>srv := ?s\<rparr>) = nodes_of y" by (simp_all add: nodes_of_def fun_eq_iff)
  have "sound ?s" by (rule sound_cong [OF I(1) s(1-3)]) (simp add: s(4) sound_live [OF I(1)])
  then show ?thesis unfolding srv_inv_def y s(2,4,5) using I(2-7) by blast
qed

lemma srv_inv_step: "srv_step y y' \<Longrightarrow> srv_inv y \<Longrightarrow> srv_inv y'"
proof (induction rule: srv_step.induct)
  case (accept y args s c)
  then show ?case by (intro srv_inv_accept)
next
  case (serve y c i j s)
  then show ?case by (intro srv_inv_serve)
next
  case (finish y c i s s')
  from srv_inv_finish [OF finish(4,1,2)] finish(3) show ?case by auto
next
  case (outside f y as cs)
  then show ?case by (intro srv_inv_outside)
qed

lemma dic_conn_new_listening_effect:
  fixes s :: "'a main_server_scheme"
  assumes "dic_conn_new_listening prt s = Inr (l, t)" "blocks s = []"
  obtains b v where "b = (l, v)" "0 < l" "mem_ok t" "infos t = infos s" "NODES_INFO t = NODES_INFO s"
    "heap_of t = [l \<mapsto> v]" "dom (conns t) = insert l (dom (conns s))"
proof -
  define x where "x = snd (c_listen (snd (c_bind (snd (c_socket s)))))"
  have x: "blocks x = []" "infos x = infos s" "NODES_INFO x = NODES_INFO s" "conns x = conns s"
    using assms(2) by (simp_all add: x_def c_socket_def c_bind_def c_listen_def Let_def split: list.split)
  from assms(1) obtain v where l: "l = fst (c_malloc sizeof_dic_conn x)" "l \<noteq> 0"
    and t: "t = put_conn l v (snd (c_malloc sizeof_dic_conn x))"
    unfolding dic_conn_new_listening_def Let_def case_prod_unfold x_def [symmetric]
    by (simp split: if_splits) blast
  from l obtain b where b: "grants sizeof_dic_conn b x" "c_malloc sizeof_dic_conn x = (fst b, add_block b x)"
    by (cases rule: c_malloc_cases [of sizeof_dic_conn x]) auto
  have "mem_ok x" using x(1) by (simp add: mem_ok_def)
  then have "mem_ok t" using grants_mem_ok [OF b(1)] t b(2) by (simp add: put_conn_def mem_ok_def)
  moreover have "heap_of t = [l \<mapsto> snd b]" using t b(2) l x(1) by (simp add: put_conn_def heap_of_def add_block_def)
  moreover have "infos t = infos s" "NODES_INFO t = NODES_INFO s" "dom (conns t) = insert l (dom (conns s))"
    using t b(2) x by (simp_all add: put_conn_def add_block_def)
  ultimately show ?thesis using that l(2) by blast
qed

lemma srv_reachable_inv: "srv_reachable y \<Longrightarrow> srv_inv y"
proof (induction rule: srv_reachable.induct)
  case (started s argv l s')
  from started(5) have "dic_conn_new_listening DIC_MAIN_SERVER_PORT s = Inr (l, s')" by (auto simp: server_main_def res_simps)
  from dic_conn_new_listening_effect [OF this started(1)] obtain v where
    v: "0 < l" "mem_ok s'" "infos s' = Map.empty" "NODES_INFO s' = 0" "heap_of s' = [l \<mapsto> v]" "dom (conns s') = {l}"
    using started(2-4) by (metis dom_empty)
  then have "registry s' []" "linked s'" by (simp_all add: registry_def linked_def ranked_def)
  then have "sound s'" by (auto simp: sound_def)
  with v show ?case by (simp add: srv_inv_def owns_def nodes_of_def)
next
  case (onward y y')
  then show ?case by (blast intro: srv_inv_step)
qed

section \<open>Properties\<close>

text \<open>C17. Whatever clients connect and whatever bytes they send, in whatever order the threads of the main server
  run: in every reachable state the list of nodes is well formed, and the connection structures in memory
  are exactly the listening one and those of the threads that still run; each is a live object.\<close>

theorem server_state_sound:
  assumes "srv_reachable y"
  shows "(\<exists>xs. registry (srv y) xs) \<and> dom (conns (srv y)) = insert (listener y) (dom (threads y) - {0}) \<and>
    dom (conns (srv y)) \<subseteq> dom (heap_of (srv y))"
  using srv_invD(1,3,6) [OF srv_reachable_inv [OF assms]] unfolding sound_def by blast

text \<open>C18. When the connection of a thread is closed by its peer, the end of the thread succeeds in every reachable
  state: the node it registered is still in memory and linked, and nothing is freed twice; afterwards its
  connection is gone.\<close>

theorem server_threads_end:
  assumes "srv_reachable y" "threads y c = Some i" "connection_pass c i (srv y) = Some (Inr (None, s))"
  shows "\<exists>s'. connection_end c i s = Inr s' \<and> conns s' c = None \<and> heap_of s' c = None \<and>
    srv_reachable (y\<lparr>srv := s', threads := (threads y)(c := None)\<rparr>)"
proof -
  note inv = srv_reachable_inv [OF assms(1)]
  obtain s' where s': "connection_end c i s = Inr s'" "srv_inv (y\<lparr>srv := s', threads := (threads y)(c := None)\<rparr>)"
    "heap_of s' c = None" by (rule srv_inv_finish [OF inv assms(2,3)])
  have "c \<noteq> 0" "threads y c \<noteq> None" using connection_pass_effect(6) [OF srv_invD(1) [OF inv] assms(3)] assms(2) by simp_all
  then have "c \<noteq> listener y" using srv_invD(5) [OF inv] by auto
  then have "c \<notin> dom (conns s')" using srv_invD(3) [OF s'(2)] by simp
  then show ?thesis using s'(1,3) srv_reachable.onward [OF assms(1) srv_step.finish [OF assms(2,3) s'(1)]] by auto
qed


text \<open>C22. \<open>dic_conn_accept\<close> returns null when \<open>accept\<close> fails, for example when no descriptor is left; \<open>listen_loop\<close>
  starts a thread all the same, and the thread follows the null pointer, which ends the server.\<close>

theorem failed_accept_crashes:
  assumes l: "get_conn l s = Inr lc" and fail: "accept_answers s = None # r" and ok: "mem_ok s"
    and mem: "stocked [sizeof_connection_handler_args, sizeof_dic_main_server_req_head_generic] s"
  shows "\<exists>args s1. listen_pass l s = Inr (args, s1) \<and> args_conn args s1 = Inr 0 \<and>
    connection_handler_thread 0 s1 = Some (Inl NullDeref)"
proof -
  obtain u where u: "dic_conn_accept l s = Inr (0, u)" "u = s \<or> u = s\<lparr>accept_answers := r\<rparr>"
    using l fail by (cases "socks s (sockfd lc)") (simp_all add: dic_conn_accept_def c_accept_def)
  then have ok': "mem_ok u" and mem': "stocked [sizeof_connection_handler_args, sizeof_dic_main_server_req_head_generic] u"
    using ok mem by (auto simp: mem_ok_def stocked_def)
  from mem' obtain b where b: "grants sizeof_connection_handler_args b u"
    "stocked [sizeof_dic_main_server_req_head_generic] (add_block b u)" by (rule stocked_Cons)
  have zero: "(0 :: nat) < 2 ^ 64" by simp
  obtain t where t: "store_word 8 (fst b) (word_of_nat 0 :: u64) (add_block b u) = Inr t" "args_conn (fst b) t = Inr 0"
    "\<forall>ns. stocked ns t = stocked ns (add_block b u)" by (rule args_hold_conn [OF b(1) ok' zero])
  have st: "stocked [sizeof_dic_main_server_req_head_generic] t" using t(3) b(2) by simp
  have "listen_pass l s = Inr (fst b, t)"
    using u(1) t(1) c_malloc_grants [OF b(1)] grants_pos [OF b(1)] by (simp add: listen_pass_def)
  moreover from st obtain h where "grants sizeof_dic_main_server_req_head_generic h t" by (rule stocked_Cons)
  then have "connection_handler_thread 0 t = Some (Inl NullDeref)" unfolding connection_handler_thread_def
    by (subst connection_handler_loop.simps) (simp add: connection_pass_def c_alloca_grants dic_conn_recv_def get_conn_def)
  ultimately show ?thesis using t(2) by blast
qed

end
