(* ===== verification/Main_Properties.thy ===== *)
theory Main_Properties
  imports Main_Process Socket_Properties Allocations
begin

text \<open>
  What compute nodes and applications can rely on when they talk to the main server, stated over the
  definitions that model the source, with concrete servers and clients on which the hypotheses of the
  statements hold.
\<close>

section \<open>Example servers\<close>

text \<open>The example process of theory Socket_Properties as a server with three nodes in its list.\<close>

definition ms_info :: "u32 \<Rightarrow> dic_node_info" where
  "ms_info n = \<lparr>address = NONE_IP_ADDR, core_count = n\<rparr>"

definition ms_nodes :: "(nat \<times> dic_node_info) list" where
  "ms_nodes = [(2000, ms_info 4), (2100, ms_info 8), (2200, ms_info 2)]"

definition example_server :: "byte list list \<Rightarrow> (nat \<times> byte list) list \<Rightarrow> main_server" where
  "example_server cs ch = net.extend (example_net [(2000, replicate 40 0), (2100, replicate 40 0), (2200, replicate 40 0)] cs ch)
     \<lparr>NODES_INFO = 2000, infos = [2000 \<mapsto> \<lparr>ll_info = ms_info 4, ll_prev = 0, ll_next = 2100\<rparr>,
        2100 \<mapsto> \<lparr>ll_info = ms_info 8, ll_prev = 2000, ll_next = 2200\<rparr>,
        2200 \<mapsto> \<lparr>ll_info = ms_info 2, ll_prev = 2100, ll_next = 0\<rparr>]\<rparr>"

lemma example_server_facts [simp]:
  "[] \<notin> set cs \<Longrightarrow> connected 1000 example_conn (example_sock cs) (example_server cs ch)"
  "registry (example_server cs ch) ms_nodes" "socks (example_server cs ch) = [5 \<mapsto> example_sock cs]"
  "heap_of (example_server cs ch) 1000 = Some (replicate 200 0)"
  "stocked ns (example_server cs ch) \<longleftrightarrow>
     serves [(1000, replicate 200 0), (2000, replicate 40 0), (2100, replicate 40 0), (2200, replicate 40 0)] ns ch"
  by (simp_all add: example_server_def net.defs example_net_def connected_def get_conn_def example_conn_def mem_ok_def
      stocked_def example_sock_def registry_def ms_nodes_def heap_of_def)

section \<open>Nodes join and applications find them\<close>

text \<open>C14. A node announces itself: the thread of its connection appends the node, with the address the
  connection was accepted from, to the end of the list and answers; the answer makes
  \<open>notify_main_server\<close> return 0, having sent exactly the announcement and with no memory left behind.\<close>

theorem node_joins:
  fixes s :: "'a main_server_scheme"
  assumes "registry s xs" "connected conn c k s" "\<not> sk_reset k" "concat (sk_in k) = announcement cores @ rest"
    and "stocked [8, 4, 4, 4, sizeof_linked_list_node_info] s"
  shows "\<exists>s' p ks. connection_pass conn ci s = Some (Inr (Some (Some p), s')) \<and>
    registry s' (xs @ [(p, \<lparr>address = ip c, core_count = cores\<rparr>)]) \<and> conns s' = conns s \<and> concat ks = rest \<and>
    socks s' = (socks s)(sockfd c \<mapsto> k\<lparr>sk_in := ks, sk_out := sk_out k @ confirmation\<rparr>) \<and>
    (\<forall>(t :: 'b net_scheme) conn' c' k' rest'. connected conn' c' k' t \<longrightarrow> \<not> sk_reset k' \<longrightarrow>
       concat (sk_in k') = confirmation @ rest' \<longrightarrow> mem_ok t \<longrightarrow> stocked [4, 8, 4, 4] t \<longrightarrow>
       (\<exists>t' ks'. notify_main_server cores conn' t = Inr (0, t') \<and> heap_of t' = heap_of t \<and> concat ks' = rest' \<and>
          socks t' = (socks t)(sockfd c' \<mapsto> k'\<lparr>sk_in := ks', sk_out := sk_out k' @ announcement cores\<rparr>)))"
proof -
  from connection_pass_announcement [OF assms] obtain s' p ks where
    s': "connection_pass conn ci s = Some (Inr (Some (Some p), s'))"
      "registry s' (xs @ [(p, \<lparr>address = ip c, core_count = cores\<rparr>)])" "conns s' = conns s" "concat ks = rest"
      "socks s' = (socks s)(sockfd c \<mapsto> k\<lparr>sk_in := ks, sk_out := sk_out k @ confirmation\<rparr>)" by blast
  have "\<exists>t' ks'. notify_main_server cores conn' t = Inr (0, t') \<and> heap_of t' = heap_of t \<and> concat ks' = rest' \<and>
      socks t' = (socks t)(sockfd c' \<mapsto> k'\<lparr>sk_in := ks', sk_out := sk_out k' @ announcement cores\<rparr>)"
    if "connected conn' c' k' t" "\<not> sk_reset k'" "concat (sk_in k') = confirmation @ rest'" "mem_ok t" "stocked [4, 8, 4, 4] t"
    for t :: "'b net_scheme" and conn' c' k' rest'
    using notify_main_server_confirmed [OF that, of cores] by blast
  with s' show ?thesis by blast
qed

definition joining_server :: main_server where
  "joining_server = example_server (two_chunks (announcement 6)) [(3000, replicate 8 0), (3100, replicate 4 0),
     (3200, replicate 4 0), (3300, replicate 4 0), (3400, replicate 40 0)]"

definition joining_node :: net where
  "joining_node = example_net [] [confirmation] [(3000, replicate 4 0), (3100, replicate 8 0),
     (3200, replicate 4 0), (3300, replicate 4 0)]"

lemma length_announcement: "length (announcement n) = 12" "length confirmation = 8" "length info_request = 8"
  by (simp_all add: announcement_def confirmation_def info_request_def ms_req_head_codec.enc_length
      ms_resp_head_codec.enc_length req_announce_info_codec.enc_length resp_announce_info_codec.enc_length
      sizeof_dic_main_server_req_head_generic_def sizeof_dic_req_announce_info_def
      sizeof_dic_main_server_resp_head_generic_def sizeof_dic_resp_announce_info_def)

theorem node_joins_witness:
  "\<exists>s' p t'. connection_pass 1000 None joining_server = Some (Inr (Some (Some p), s')) \<and>
    registry s' (ms_nodes @ [(p, ms_info 6)]) \<and> map_option sk_out (socks s' 5) = Some confirmation \<and>
    notify_main_server 6 1000 joining_node = Inr (0, t') \<and> heap_of t' = heap_of joining_node"
proof -
  have s: "registry joining_server ms_nodes" "connected 1000 example_conn (example_sock (two_chunks (announcement 6))) joining_server"
    "\<not> sk_reset (example_sock (two_chunks (announcement 6)))"
    "concat (sk_in (example_sock (two_chunks (announcement 6)))) = announcement 6 @ []"
    "stocked [8, 4, 4, 4, sizeof_linked_list_node_info] joining_server"
    by (simp_all add: joining_server_def length_announcement sizeof_linked_list_node_info_def)
  have "confirmation \<noteq> []" using length_announcement(2) by fastforce
  then have t: "connected 1000 example_conn (example_sock [confirmation]) joining_node" "mem_ok joining_node"
    "stocked [4, 8, 4, 4] joining_node" by (simp_all add: joining_node_def)
  have "\<not> sk_reset (example_sock [confirmation])" "concat (sk_in (example_sock [confirmation])) = confirmation @ []" by simp_all
  with t node_joins [where ci = None and 'b = unit, OF s] obtain s' p ks t' where
    "connection_pass 1000 None joining_server = Some (Inr (Some (Some p), s'))"
    "registry s' (ms_nodes @ [(p, \<lparr>address = ip example_conn, core_count = 6\<rparr>)])"
    "socks s' = (socks joining_server)(sockfd example_conn \<mapsto>
      example_sock (two_chunks (announcement 6))\<lparr>sk_in := ks, sk_out := sk_out (example_sock (two_chunks (announcement 6))) @ confirmation\<rparr>)"
    "notify_main_server 6 1000 joining_node = Inr (0, t')" "heap_of t' = heap_of joining_node" by blast
  moreover have "ip example_conn = NONE_IP_ADDR" by (simp add: example_conn_def)
  ultimately show ?thesis by (simp add: ms_info_def)
qed

text \<open>C15. An application asks for the nodes: the thread answers with all nodes in the order in which they
  announced themselves and leaves the list as it is; from that answer \<open>dic_get_nodes_info\<close> returns a new
  object that holds exactly this table, having sent exactly the request.\<close>

theorem nodes_listed:
  fixes s :: "'a main_server_scheme"
  assumes "registry s xs" "connected conn c k s" "\<not> sk_reset k" "concat (sk_in k) = info_request @ rest"
    and "stocked [8, 4 + 24 * length xs, 4] s" "4 + 24 * length xs < 2 ^ 31"
  shows "\<exists>s' ks. connection_pass conn ci s = Some (Inr (Some ci, s')) \<and> registry s' xs \<and> conns s' = conns s \<and>
    concat ks = rest \<and> socks s' = (socks s)(sockfd c \<mapsto> k\<lparr>sk_in := ks, sk_out := sk_out k @ listing (map snd xs)\<rparr>) \<and>
    (\<forall>(t :: 'b net_scheme) conn' c' k' rest'. connected conn' c' k' t \<longrightarrow> \<not> sk_reset k' \<longrightarrow>
       concat (sk_in k') = listing (map snd xs) @ rest' \<longrightarrow> mem_ok t \<longrightarrow> stocked [8, 4, 4 + 24 * length xs] t \<longrightarrow>
       (\<exists>p t' bs ks'. dic_get_nodes_info conn' t = Inr (p, t') \<and> heap_of t p = None \<and>
          heap_of t' = (heap_of t)(p \<mapsto> info_table (map snd xs) @ bs) \<and> concat ks' = rest' \<and>
          socks t' = (socks t)(sockfd c' \<mapsto> k'\<lparr>sk_in := ks', sk_out := sk_out k' @ info_request\<rparr>)))"
proof -
  from connection_pass_query [OF assms] obtain s' ks where
    s': "connection_pass conn ci s = Some (Inr (Some ci, s'))" "registry s' xs" "conns s' = conns s" "concat ks = rest"
      "socks s' = (socks s)(sockfd c \<mapsto> k\<lparr>sk_in := ks, sk_out := sk_out k @ listing (map snd xs)\<rparr>)" by blast
  have "\<exists>p t' bs ks'. dic_get_nodes_info conn' t = Inr (p, t') \<and> heap_of t p = None \<and>
      heap_of t' = (heap_of t)(p \<mapsto> info_table (map snd xs) @ bs) \<and> concat ks' = rest' \<and>
      socks t' = (socks t)(sockfd c' \<mapsto> k'\<lparr>sk_in := ks', sk_out := sk_out k' @ info_request\<rparr>)"
    if "connected conn' c' k' t" "\<not> sk_reset k'" "concat (sk_in k') = listing (map snd xs) @ rest'" "mem_ok t"
      "stocked [8, 4, 4 + 24 * length xs] t"
    for t :: "'b net_scheme" and conn' c' k' rest'
    using dic_get_nodes_info_receives [OF that(1-4)] that(5) assms(6) by simp blast
  with s' show ?thesis by blast
qed

definition asked_server :: main_server where
  "asked_server = example_server (two_chunks info_request) [(3000, replicate 8 0), (3100, replicate 76 0), (3200, replicate 4 0)]"

definition asking_client :: net where
  "asking_client = example_net [] [listing (map snd ms_nodes)]
     [(3000, replicate 8 0), (3100, replicate 4 0), (3200, replicate 76 0)]"

theorem nodes_listed_witness:
  "\<exists>s' p t' bs. connection_pass 1000 None asked_server = Some (Inr (Some None, s')) \<and> registry s' ms_nodes \<and>
    map_option sk_out (socks s' 5) = Some (listing (map snd ms_nodes)) \<and>
    dic_get_nodes_info 1000 asking_client = Inr (p, t') \<and>
    heap_of t' p = Some (info_table [ms_info 4, ms_info 8, ms_info 2] @ bs)"
proof -
  let ?k = "example_sock (two_chunks info_request)" and ?k' = "example_sock [listing (map snd ms_nodes)]"
  have s: "registry asked_server ms_nodes" "connected 1000 example_conn ?k asked_server" "\<not> sk_reset ?k"
    "concat (sk_in ?k) = info_request @ []" "stocked [8, 4 + 24 * length ms_nodes, 4] asked_server"
    "4 + 24 * length ms_nodes < 2 ^ 31"
    unfolding asked_server_def by (rule example_server_facts) (simp_all add: length_announcement ms_nodes_def)
  have "listing (map snd ms_nodes) \<noteq> []" by (simp add: listing_framed)
  then have t: "connected 1000 example_conn ?k' asking_client" "\<not> sk_reset ?k'"
    "concat (sk_in ?k') = listing (map snd ms_nodes) @ []" "mem_ok asking_client"
    "stocked [8, 4, 4 + 24 * length ms_nodes] asking_client" by (simp_all add: asking_client_def ms_nodes_def)
  from t nodes_listed [where ci = None and 'b = unit, OF s] obtain s' ks p t' bs where
    "connection_pass 1000 None asked_server = Some (Inr (Some None, s'))" "registry s' ms_nodes"
    "socks s' = (socks asked_server)(sockfd example_conn \<mapsto> ?k\<lparr>sk_in := ks, sk_out := sk_out ?k @ listing (map snd ms_nodes)\<rparr>)"
    "dic_get_nodes_info 1000 asking_client = Inr (p, t')"
    "heap_of t' = (heap_of asking_client)(p \<mapsto> info_table (map snd ms_nodes) @ bs)" by blast
  then show ?thesis by (simp add: ms_nodes_def)
qed

section \<open>Nodes leave\<close>

text \<open>C16. When the stream of a node's connection ends, its thread takes the node from the list, which keeps
  the other nodes in their order, releases the connection and ends; this holds for every node but the
  first of several.\<close>

theorem node_leaves:
  fixes s :: "'a main_server_scheme"
  assumes r: "registry s (us @ (a, i) # vs)" "us \<noteq> [] \<or> vs = []" "conn \<notin> fst ` set (us @ (a, i) # vs)"
    and con: "connected conn c k s" "sk_eof k" "length (concat (sk_in k)) < 8" "stocked [8] s" "heap_of s conn \<noteq> None"
  shows "\<exists>s'. connection_handler_loop conn (Some a) s = Some (Inr s') \<and> registry s' (us @ vs) \<and>
    heap_of s' = (heap_of s)(a := None, conn := None) \<and> conns s' = (conns s)(conn := None) \<and>
    socks s' (sockfd c) = None"
  using r(3) remove_info_registry [OF _ r(2)] by (intro connection_thread_ends [OF r(1) con]) force+

theorem node_leaves_witness:
  "\<exists>s'. connection_handler_loop 1000 (Some 2100) (example_server [] [(3000, replicate 8 0)]) = Some (Inr s') \<and>
    registry s' [(2000, ms_info 4), (2200, ms_info 2)]"
proof -
  have "registry (example_server [] [(3000, replicate 8 0)]) ([(2000, ms_info 4)] @ (2100, ms_info 8) # [(2200, ms_info 2)])"
    using example_server_facts(2) by (simp add: ms_nodes_def)
  from node_leaves [OF this, of 1000 example_conn "example_sock []"] show ?thesis by auto
qed

text \<open>C21. The first of several nodes takes the whole list with it: its thread ends in the same way, but
  then the list is empty while the other nodes are still connected and their entries still allocated.\<close>

theorem first_node_leaves:
  fixes s :: "'a main_server_scheme"
  assumes r: "registry s ((a, i) # vs)" "conn \<notin> fst ` set ((a, i) # vs)"
    and con: "connected conn c k s" "sk_eof k" "length (concat (sk_in k)) < 8" "stocked [8] s" "heap_of s conn \<noteq> None"
  shows "\<exists>s'. connection_handler_loop conn (Some a) s = Some (Inr s') \<and> registry s' [] \<and> NODES_INFO s' = 0 \<and>
    (\<forall>x \<in> set vs. heap_of s' (fst x) \<noteq> None)"
proof -
  have rm: "\<exists>t'. remove_info a t = Inr t' \<and> registry t' [] \<and> heap_of t' = (heap_of t)(a := None)"
    if "registry t ((a, i) # vs)" for t :: "'a main_server_scheme"
    using remove_info_first [OF that] by blast
  have "a \<noteq> conn" using r(2) by auto
  from connection_thread_ends [OF r(1) con this rm] obtain s' where
    s': "connection_handler_loop conn (Some a) s = Some (Inr s')" "registry s' []"
      "heap_of s' = (heap_of s)(a := None, conn := None)" by auto
  moreover have "NODES_INFO s' = 0" using s'(2) by (simp add: registry_def)
  moreover have "heap_of s' (fst x) \<noteq> None" if "x \<in> set vs" for x
  proof -
    have "fst x \<noteq> a" "fst x \<noteq> conn" "heap_of s (fst x) \<noteq> None" using that r by (force simp: registry_def)+
    then show ?thesis using s'(3) by simp
  qed
  ultimately show ?thesis by blast
qed


theorem first_node_leaves_witness:
  "\<exists>s'. connection_handler_loop 1000 (Some 2000) (example_server [] [(3000, replicate 8 0)]) = Some (Inr s') \<and>
    registry s' [] \<and> heap_of s' 2100 \<noteq> None"
proof -
  have "registry (example_server [] [(3000, replicate 8 0)]) ((2000, ms_info 4) # [(2100, ms_info 8), (2200, ms_info 2)])"
    using example_server_facts(2) by (simp add: ms_nodes_def)
  from first_node_leaves [OF this, of 1000 example_conn "example_sock []"] show ?thesis by auto
qed

section \<open>A run of the server process\<close>

text \<open>The server starts and accepts one connection, on which the bytes \<open>cs\<close> have arrived; \<open>e\<close> says whether the peer has ended its stream.\<close>

definition boot_server :: "(int \<times> sock) option list \<Rightarrow> main_server" where
  "boot_server as = \<lparr>blocks = [],
     choices = [(1000, replicate 200 0), (2000, replicate 200 0), (3000, replicate 8 0), (4000, replicate 8 0),
       (5000, replicate 4 0)],
     conns = Map.empty, socks = Map.empty, fd_answers = [3], connect_answers = [], bind_answers = [True],
     listen_answers = [True], accept_answers = as, uninit_destroyed = 0, hung_up = [], NODES_INFO = 0, infos = Map.empty\<rparr>"

definition listening_server :: "(int \<times> sock) option list \<Rightarrow> main_server" where
  "listening_server as = (boot_server as)\<lparr>blocks := [(1000, replicate 200 0)],
     choices := [(2000, replicate 200 0), (3000, replicate 8 0), (4000, replicate 8 0), (5000, replicate 4 0)],
     conns := [1000 \<mapsto> \<lparr>sockfd = 3, queue_len = None, queue_cond_init = False, queue_mut_init = False,
       recv_mut_init = True, send_mut_init = True, port = 4225, ip = NONE_IP_ADDR\<rparr>],
     socks := [3 \<mapsto> fresh_sock], fd_answers := [], bind_answers := [], listen_answers := []\<rparr>"

definition first_conn :: dic_conn where
  "first_conn = \<lparr>sockfd = 5, queue_len = None, queue_cond_init = False, queue_mut_init = False,
     recv_mut_init = True, send_mut_init = True, port = 0, ip = \<lparr>family = 2, ipv4 = 0, ip_hi = 0\<rparr>\<rparr>"

definition incoming :: "byte list list \<Rightarrow> bool \<Rightarrow> sock" where
  "incoming cs e = (example_sock cs)\<lparr>sk_eof := e\<rparr>"

definition accepting_server :: "sock \<Rightarrow> main_server" where
  "accepting_server k = (listening_server [])\<lparr>blocks := [(2000, replicate 200 0), (1000, replicate 200 0)],
     choices := [(3000, replicate 8 0), (4000, replicate 8 0), (5000, replicate 4 0)],
     conns := (conns (listening_server []))(2000 \<mapsto> first_conn), socks := [3 \<mapsto> fresh_sock, 5 \<mapsto> k]\<rparr>"

lemmas boot_defs = boot_server_def listening_server_def accepting_server_def

lemma server_boots: "server_main argv (boot_server as) = Inr (1000, listening_server as)" if "argv = []"
  using that by (simp add: boot_defs server_main_def dic_conn_new_listening_def c_socket_def c_bind_def c_listen_def c_malloc_def
      sizeof_dic_conn_def put_conn_def DIC_MAIN_SERVER_PORT_def)

lemma le_value_zeros: "le_value (replicate n 0) = 0"
  by (induction n) simp_all

lemma server_accepts: "dic_conn_accept 1000 (listening_server [Some (5, incoming cs e)]) = Inr (2000, accepting_server (incoming cs e))"
  by (simp add: boot_defs dic_conn_accept_def get_conn_def c_accept_def c_malloc_def sizeof_dic_conn_def load_def put_conn_def
      first_conn_def incoming_def example_sock_def dec_word_def le_value_zeros)

lemma accepting_server_facts:
  "mem_ok (accepting_server k)" "registry (accepting_server k) []"
  "[] \<notin> set cs \<Longrightarrow> connected 2000 first_conn (incoming cs e) (accepting_server (incoming cs e))"
  "grants sizeof_connection_handler_args (3000, replicate 8 0) (accepting_server k)"
  "stocked [8, 4] (add_block (3000, replicate 8 0) (accepting_server k))"
proof -
  show "mem_ok (accepting_server k)" by (simp add: boot_defs mem_ok_def)
  show "registry (accepting_server k) []" by (simp add: boot_defs mem_ok_def registry_def)
  show "[] \<notin> set cs \<Longrightarrow> connected 2000 first_conn (incoming cs e) (accepting_server (incoming cs e))"
    by (simp add: boot_defs connected_def first_conn_def incoming_def example_sock_def)
  show "grants sizeof_connection_handler_args (3000, replicate 8 0) (accepting_server k)"
    by (simp add: boot_defs grants_def sizeof_connection_handler_args_def)
  show "stocked [8, 4] (add_block (3000, replicate 8 0) (accepting_server k))"
    by (simp add: boot_defs stocked_def add_block_def)
qed

text \<open>The process before and after a connection is accepted on which the bytes \<open>cs\<close> have arrived.\<close>

definition booted_server :: "byte list list \<Rightarrow> bool \<Rightarrow> main_server" where
  "booted_server cs e = listening_server [Some (5, incoming cs e)]"

lemma booted_server_starts:
  "server_main [] (boot_server [Some (5, incoming cs e)]) = Inr (1000, booted_server cs e)"
  "blocks (boot_server as) = []" "conns (boot_server as) = Map.empty" "infos (boot_server as) = Map.empty" "NODES_INFO (boot_server as) = 0"
  using server_boots [OF refl] by (simp_all add: booted_server_def boot_server_def)

lemma booted_server_accepts:
  assumes "[] \<notin> set cs"
  obtains t where "listen_pass 1000 (booted_server cs e) = Inr (3000, t)" "args_conn 3000 t = Inr 2000"
    "connected 2000 first_conn (incoming cs e) t" "registry t []" "stocked [8, 4] t"
proof -
  note A = accepting_server_facts
  let ?a = "accepting_server (incoming cs e)"
  have p: "(2000 :: nat) < 2 ^ 64" by simp
  obtain t where t: "store_word 8 3000 (word_of_nat 2000 :: u64) (add_block (3000, replicate 8 0) ?a) = Inr t"
    "args_conn 3000 t = Inr 2000" "\<forall>ns. stocked ns t = stocked ns (add_block (3000, replicate 8 0) ?a)"
    "mem.more t = mem.more ?a" by (rule args_hold_conn [OF A(4,1) p, unfolded fst_conv])
  have ok: "mem_ok t" using store_mem_ok [OF t(1) [unfolded store_word_def]] grants_mem_ok [OF A(4,1)] by simp
  have "listen_pass 1000 (booted_server cs e) = Inr (3000, t)"
    using server_accepts t(1) c_malloc_grants [OF A(4)] by (simp add: listen_pass_def booted_server_def)
  moreover have "connected 2000 first_conn (incoming cs e) t" using A(3) [OF assms] more_net [OF t(4)] by (simp add: connected_def)
  moreover have "registry t []" using A(2) ok more_ms [OF net_more_of_mem [OF t(4)]] by (simp add: registry_def)
  moreover have "stocked [8, 4] t" using t(3) A(5) by simp
  ultimately show ?thesis using that t(2) by blast
qed

text \<open>The process once the thread of the connection runs.\<close>

lemma server_with_thread:
  assumes "[] \<notin> set cs"
  obtains y where "srv_reachable y" "threads y = [2000 \<mapsto> None]" "listener y = 1000" "registry (srv y) []"
    "connected 2000 first_conn (incoming cs e) (srv y)" "stocked [8, 4] (srv y)"
proof -
  let ?y = "\<lparr>srv = booted_server cs e, listener = 1000, threads = Map.empty\<rparr>"
  have start: "srv_reachable ?y" by (rule srv_reachable.started [OF booted_server_starts(2-5,1)])
  obtain t where t: "listen_pass 1000 (booted_server cs e) = Inr (3000, t)" "args_conn 3000 t = Inr 2000"
    "connected 2000 first_conn (incoming cs e) t" "registry t []" "stocked [8, 4] t" by (rule booted_server_accepts [OF assms])
  then have "listen_pass (listener ?y) (srv ?y) = Inr (3000, t)" by simp
  from srv_reachable.onward [OF start srv_step.accept [OF this t(2)]]
  have "srv_reachable (?y\<lparr>srv := t, threads := [2000 \<mapsto> None]\<rparr>)" by simp
  with that t(3-5) show ?thesis by simp
qed

theorem server_state_sound_witness:
  "\<exists>y :: server_process. threads y = [2000 \<mapsto> None] \<and> (\<exists>xs. registry (srv y) xs) \<and> dom (conns (srv y)) = {1000, 2000} \<and>
    dom (conns (srv y)) \<subseteq> dom (heap_of (srv y))"
proof -
  obtain y where y: "srv_reachable y" "threads y = [2000 \<mapsto> None]" "listener y = 1000" by (rule server_with_thread [of "[]"]) simp_all
  have "insert (listener y) (dom (threads y) - {0}) = {1000, 2000}" using y(2,3) by auto
  with server_state_sound [OF y(1)] y(2) show ?thesis by metis
qed

theorem server_threads_end_witness:
  "\<exists>(y :: server_process) s s'. connection_pass 2000 None (srv y) = Some (Inr (None, s)) \<and> connection_end 2000 None s = Inr s' \<and> conns s' 2000 = None"
proof -
  obtain y where y: "srv_reachable y" "threads y = [2000 \<mapsto> None]" "listener y = 1000" "registry (srv y) []"
    "connected 2000 first_conn (incoming [] True) (srv y)" "stocked [8, 4] (srv y)" by (rule server_with_thread [of "[]" True]) simp_all
  from y(6) have mem: "stocked [8] (srv y)" using stocked_prefix [of "[8]" "[4]" "srv y"] by simp
  from connection_pass_closed [OF y(4,5) _ _ mem, of None] have "\<exists>s. connection_pass 2000 None (srv y) = Some (Inr (None, s))"
    by (auto simp: incoming_def example_sock_def)
  then obtain s where s: "connection_pass 2000 None (srv y) = Some (Inr (None, s))" by blast
  from server_threads_end [OF y(1) _ s] y(2) s show ?thesis by auto
qed


theorem failed_accept_crashes_witness:
  "\<exists>args s1. listen_pass 1000 (listening_server [None]) = Inr (args, s1) \<and>
    connection_handler_thread 0 s1 = Some (Inl NullDeref)"
proof -
  let ?s = "listening_server [None]"
  have "get_conn 1000 ?s = Inr (the (conns ?s 1000))" "accept_answers ?s = None # []" "mem_ok ?s"
    "stocked [sizeof_connection_handler_args, sizeof_dic_main_server_req_head_generic] ?s"
    by (simp_all add: boot_defs get_conn_def mem_ok_def stocked_def sizeof_connection_handler_args_def
        sizeof_dic_main_server_req_head_generic_def)
  from failed_accept_crashes [OF this] show ?thesis by blast
qed

section \<open>Connecting to the nodes\<close>

theorem dic_nodes_connect_all_links_witness:
  "\<exists>q s' ps arr. dic_nodes_connect_all 2000 (example_net [(2000, info_table [ms_info 4])] []
      [(3000, replicate 8 0), (4000, replicate sizeof_dic_conn 0)]) = Inr (q, s') \<and> length ps = 1 \<and>
    heap_of s' q = Some arr \<and> linked_up [ms_info 4] 0 ps arr s'"
proof -
  let ?s = "example_net [(2000, info_table [ms_info 4])] [] [(3000, replicate 8 0), (4000, replicate sizeof_dic_conn 0)]"
  have "heap_of ?s 2000 = Some (info_table [ms_info 4] @ [])" "mem_ok ?s" "length [ms_info 4] < 2 ^ 32"
    "stocked (8 * length [ms_info 4] # replicate (length [ms_info 4]) sizeof_dic_conn) ?s"
    by (simp_all add: length_info_table sizeof_dic_conn_def)
  from dic_nodes_connect_all_links [OF this] show ?thesis by auto
qed

end
