(* ===== verification/Main_Mutex.thy ===== *)
theory Main_Mutex
  imports Main_Properties
begin

text \<open>
  The mutex \<open>NODES_INFO_MUT\<close> of \<open>main-server/src/main.c\<close>. In the process of theory Main_Process a pass is one
  step; the mutex is what makes this right, as long as a thread that holds it comes back. Here the holder is part of the state: a
  thread takes the mutex when the head of an announcement or of a query has arrived and releases it after the
  handler, and a thread that has registered a node takes it at its end. \<open>handle_push_info\<close> receives the body of the
  announcement while it holds the mutex, so a peer that sends the head only makes the thread wait with the mutex.
  Every step is one of Main_Process or leaves the process as it was, so what is proved there holds here.
\<close>

section \<open>The process with its mutex\<close>

text \<open>The operation of the request whose head a pass receives first, outside the mutex; \<open>None\<close> when the connection is
  closed.\<close>

definition request_of :: "nat \<Rightarrow> 'a main_server_scheme \<Rightarrow> u16 option res" where
  "request_of conn s =
     bindR (c_alloca sizeof_dic_main_server_req_head_generic s) (\<lambda>(head, s1).
     bindR (dic_conn_recv conn head (word_of_nat sizeof_dic_main_server_req_head_generic) False s1) (\<lambda>(res, s2).
       if res = 1 then Inr None
       else bindR (load_word 2 head s2) (\<lambda>operation. Inr (Some operation))))"

definition takes_mutex :: "nat \<Rightarrow> 'a main_server_scheme \<Rightarrow> bool" where
  "takes_mutex conn s \<longleftrightarrow> request_of conn s = Inr (Some (main_op_code DIC_ANNOUNCE_INFO)) \<or>
     request_of conn s = Inr (Some (main_op_code DIC_GET_INFO))"

record mutex_process = server_process +
  holder :: "nat option"

text \<open>Bytes arrive, streams end or are reset.\<close>

definition arrivals :: "(int \<rightharpoonup> sock) \<Rightarrow> (int \<rightharpoonup> sock) \<Rightarrow> bool" where
  "arrivals f g \<longleftrightarrow> dom g = dom f \<and> (\<forall>fd k. f fd = Some k \<longrightarrow> (\<exists>more e r. [] \<notin> set more \<and> (sk_eof k \<longrightarrow> more = []) \<and>
     g fd = Some (k\<lparr>sk_in := sk_in k @ more, sk_eof := sk_eof k \<or> e, sk_reset := sk_reset k \<or> r\<rparr>)))"

inductive mutex_step :: "mutex_process \<Rightarrow> mutex_process \<Rightarrow> bool" where
  accept: "listen_pass (listener y) (srv y) = Inr (args, s) \<Longrightarrow> args_conn args s = Inr c \<Longrightarrow>
    mutex_step y (y\<lparr>srv := s, threads := (threads y)(c \<mapsto> None)\<rparr>)"
| serve: "threads y c = Some i \<Longrightarrow> connection_pass c i (srv y) = Some (Inr (Some j, s)) \<Longrightarrow>
    \<not> takes_mutex c (srv y) \<or> holder y = None \<or> holder y = Some c \<Longrightarrow>
    mutex_step y (y\<lparr>srv := s, threads := (threads y)(c \<mapsto> j), holder := if holder y = Some c then None else holder y\<rparr>)"
| hang: "threads y c = Some i \<Longrightarrow> connection_pass c i (srv y) = Some (Inl Blocked) \<Longrightarrow> takes_mutex c (srv y) \<Longrightarrow>
    holder y = None \<Longrightarrow> mutex_step y (y\<lparr>holder := Some c\<rparr>)"
| finish: "threads y c = Some i \<Longrightarrow> connection_pass c i (srv y) = Some (Inr (None, s)) \<Longrightarrow>
    connection_end c i s = Inr s' \<Longrightarrow> i = None \<or> holder y = None \<Longrightarrow>
    mutex_step y (y\<lparr>srv := s', threads := (threads y)(c := None)\<rparr>)"
| outside: "arrivals (socks (srv y)) f \<Longrightarrow>
    mutex_step y (y\<lparr>srv := (srv y)\<lparr>socks := f, accept_answers := as, choices := cs\<rparr>\<rparr>)"

inductive mutex_reachable :: "mutex_process \<Rightarrow> bool" where
  started: "blocks s = [] \<Longrightarrow> conns s = Map.empty \<Longrightarrow> infos s = Map.empty \<Longrightarrow> NODES_INFO s = 0 \<Longrightarrow>
    server_main argv s = Inr (l, s') \<Longrightarrow>
    mutex_reachable \<lparr>srv = s', listener = l, threads = Map.empty, holder = None\<rparr>"
| onward: "mutex_reachable y \<Longrightarrow> mutex_step y y' \<Longrightarrow> mutex_reachable y'"

section \<open>Its steps are those of the process\<close>

lemma truncated [simp]:
  "srv (server_process.truncate y) = srv y" "listener (server_process.truncate y) = listener y"
  "threads (server_process.truncate y) = threads y"
  by (simp_all add: server_process.truncate_def)

lemma mutex_step_srv:
  "mutex_step y z \<Longrightarrow> srv_step (server_process.truncate y) (server_process.truncate z) \<or>
    server_process.truncate z = server_process.truncate y"
proof (induction rule: mutex_step.induct)
  case (accept y args s c)
  with srv_step.accept [of "server_process.truncate y" args s c] show ?case by (simp add: server_process.truncate_def)
next
  case (serve y c i j s)
  with srv_step.serve [of "server_process.truncate y" c i j s] show ?case by (simp add: server_process.truncate_def)
next
  case (hang y c i)
  then show ?case by (simp add: server_process.truncate_def)
next
  case (finish y c i s s')
  with srv_step.finish [of "server_process.truncate y" c i s s'] show ?case by (simp add: server_process.truncate_def)
next
  case (outside y f as cs)
  then have "dom f = dom (socks (srv (server_process.truncate y)))" by (simp add: arrivals_def)
  from srv_step.outside [OF this, of as cs] show ?case by (simp add: server_process.truncate_def)
qed

lemma mutex_reachable_srv: "mutex_reachable y \<Longrightarrow> srv_reachable (server_process.truncate y)"
proof (induction rule: mutex_reachable.induct)
  case (started s argv l s')
  with srv_reachable.started show ?case by (simp add: server_process.truncate_def)
next
  case (onward y y')
  with mutex_step_srv [OF onward(2)] show ?case by (auto intro: srv_reachable.onward)
qed

lemma mutex_reachable_sound: "mutex_reachable y \<Longrightarrow> sound (srv y)"
  using srv_invD(1) [OF srv_reachable_inv [OF mutex_reachable_srv]] by simp

section \<open>Passes that do not need the mutex\<close>

definition mute :: "'a net_scheme \<Rightarrow> 'a net_scheme \<Rightarrow> bool" where
  "mute s t \<longleftrightarrow> (\<forall>fd. socks t fd = None \<or> map_option sk_out (socks t fd) = map_option sk_out (socks s fd))"

lemma mute_trans: "mute s t \<Longrightarrow> mute t u \<Longrightarrow> mute s u"
  unfolding mute_def by (metis option.map_disc_iff)

lemma mute_same: "socks t = socks s \<Longrightarrow> mute s t"
  by (simp add: mute_def)

lemma mute_more: "mem.more t = mem.more s \<Longrightarrow> mute s t" for s t :: "'a net_scheme"
  by (rule mute_same) (rule more_net(2))

lemma c_recv_mute:
  assumes "c_recv fd p n s = Inr (b, t)"
  shows "mute s t"
proof -
  from assms consider "t = s" | cs u v where "store p v s = Inr u" "t = set_in fd cs u"
    by (auto simp: c_recv_def res_simps split: option.splits list.splits if_splits)
  then show ?thesis
  proof cases
    case (2 cs u v)
    have "mute u t" unfolding 2(2) by (simp add: mute_def option.map_comp o_def)
    with mute_more [OF store_more [OF 2(1)]] show ?thesis by (rule mute_trans)
  qed (simp add: mute_same)
qed

lemma tcp_recv_loop_mute: "tcp_recv_loop fd buf n k s = Inr (b, t) \<Longrightarrow> mute s t"
proof (induction fd buf n k s rule: tcp_recv_loop.induct)
  case (1 fd buf n k s)
  show ?case
  proof (cases "k < n")
    case True
    with "1.prems" obtain x u where x: "c_recv fd (buf + k) (n - k) s = Inr (x, u)"
      and r: "(if x \<le> 0 then Inr (- 1, u) else tcp_recv_loop fd buf n (k + nat x) u) = Inr (b, t)"
      by (subst (asm) tcp_recv_loop.simps) (auto elim!: bindR_InrE)
    from r "1.IH" [OF True x refl] have "t = u \<or> mute u t" by (simp split: if_splits)
    with c_recv_mute [OF x] mute_trans show ?thesis by blast
  qed (use "1.prems" in \<open>subst (asm) tcp_recv_loop.simps, simp add: mute_same\<close>)
qed

lemma dic_conn_recv_mute:
  assumes "dic_conn_recv p buf n False s = Inr (r, t)"
  shows "mute s t"
proof -
  from assms obtain c err u where c: "tcp_recv_loop (sockfd c) buf (size_of_int n) 0 s = Inr (err, u)"
    and t: "t = put_conn p (c\<lparr>sockfd := - 1\<rparr>) (c_close (sockfd c) u) \<or> t = u"
    by (auto simp: dic_conn_recv_def get_conn_def tcp_recv_n_def res_simps split: if_splits option.splits)
  have "mute u t" using t by (auto simp: mute_def put_conn_def c_close_def)
  with tcp_recv_loop_mute [OF c] show ?thesis by (rule mute_trans)
qed

lemma dic_conn_destroy_mute:
  assumes "dic_conn_destroy p s = Inr t"
  shows "mute s t"
  using assms by (auto simp: dic_conn_destroy_def dic_conn_disconnect_def c_free_def c_close_def put_conn_def mute_def Let_def res_simps
      split: if_splits option.splits)

text \<open>What such a pass does: it receives a head, or finds the connection closed.\<close>

lemma pass_without_mutex:
  fixes s :: "'a main_server_scheme"
  assumes "connection_pass c i s = Some (Inr (r, t))" "\<not> takes_mutex c s \<or> r = None" "mem_ok s"
  shows "mute s t" "keeps s t" "r = None \<or> r = Some i"
proof -
  from assms(1,2) obtain h s1 q s2 where
    s1: "c_alloca sizeof_dic_main_server_req_head_generic s = Inr (h, s1)"
    and s2: "dic_conn_recv c h (word_of_nat sizeof_dic_main_server_req_head_generic) False s1 = Inr (q, s2)"
    and t: "t = del_block h s2" "r = None \<or> r = Some i"
    unfolding connection_pass_def by (fastforce simp: bindO_Inr_iff takes_mutex_def request_of_def split: if_splits)
  note a = c_alloca_keeps [OF s1 assms(3)]
  show "keeps s t" unfolding t(1)
    by (rule keeps_del_block [OF keeps_trans [OF a(1) dic_conn_recv_keeps(1) [OF s2 keeps_mem_ok [OF a(1)]]] a(2)])
  have "s1 = snd (c_malloc sizeof_dic_main_server_req_head_generic s)"
    using s1 by (auto simp: c_alloca_def Let_def split: prod.splits if_splits)
  then have "mem.more s1 = mem.more s" by simp
  then have "mute s s1" by (rule mute_more)
  moreover have "mute s2 t" unfolding t(1) by (rule mute_same) (simp add: del_block_def)
  ultimately show "mute s t" using dic_conn_recv_mute [OF s2] mute_trans by blast
  show "r = None \<or> r = Some i" by (rule t(2))
qed

section \<open>A thread that waits with the mutex\<close>

definition stalled :: "nat \<Rightarrow> mutex_process \<Rightarrow> bool" where
  "stalled c y \<longleftrightarrow> (\<exists>i. threads y c = Some i \<and> connection_pass c i (srv y) = Some (Inl Blocked))"

lemma c_malloc_socks [simp]: "socks (snd (c_malloc n s)) = socks s" for s :: "'a net_scheme"
  by (rule more_net(2)) simp

lemma listen_pass_socks:
  fixes s :: "'a main_server_scheme"
  assumes "listen_pass l s = Inr (args, t)" "socks s fd = Some k"
  shows "socks t fd = Some k"
proof -
  from assms(1) obtain p s1 v where p: "dic_conn_accept l s = Inr (p, s1)"
    and t: "store args v (snd (c_malloc sizeof_connection_handler_args s1)) = Inr t"
    by (auto simp: listen_pass_def store_word_def res_simps Let_def case_prod_unfold split: if_splits)
  from p obtain lc r s2 where lc: "get_conn l s = Inr lc" "c_accept (sockfd lc) s = Inr (r, s2)"
    by (auto simp: dic_conn_accept_def res_simps)
  have s1: "s1 = s2 \<or> (\<exists>q v n. s1 = put_conn q v (snd (c_malloc n s2)))"
  proof (cases r)
    case (Some a)
    with p lc show ?thesis
      by (cases a) (auto simp: dic_conn_accept_def res_simps Let_def case_prod_unfold split: if_splits)
  qed (use p lc in \<open>auto simp: dic_conn_accept_def res_simps\<close>)
  have "socks s2 fd = Some k"
    using lc(2) assms(2) by (auto simp: c_accept_def split: if_splits list.splits option.splits)
  then have "socks s1 fd = Some k" using s1 by (auto simp: put_conn_def)
  then show ?thesis using more_net(2) [OF store_more [OF t]] by simp
qed

lemma mute_output: "mute s t \<Longrightarrow> socks s fd = Some k \<Longrightarrow> socks t fd = Some k' \<Longrightarrow> sk_out k' = sk_out k"
  by (auto simp: mute_def dest: spec [of _ fd])

lemma stalled_step:
  assumes y: "mutex_reachable y" "holder y = Some c" "stalled c y" and step: "mutex_step y z"
  shows "holder z = Some c \<and> infos (srv z) = infos (srv y) \<and> NODES_INFO (srv z) = NODES_INFO (srv y) \<and>
    (\<forall>fd k k'. socks (srv y) fd = Some k \<longrightarrow> socks (srv z) fd = Some k' \<longrightarrow> sk_out k' = sk_out k)"
  using step
proof cases
  case (accept args s d)
  note ok = sound_mem_ok [OF mutex_reachable_sound [OF y(1)]]
  obtain s1 where s1: "dic_conn_accept (listener y) (srv y) = Inr (d, s1)" "keeps s1 s"
    by (rule listen_pass_effect [OF accept(2,3) ok])
  then show ?thesis using accept y(2) dic_conn_accept_effect(2,3) [OF s1(1) ok] listen_pass_socks [OF accept(2)]
    by (auto simp: keeps_def)
next
  case (serve d i j s)
  note ok = sound_mem_ok [OF mutex_reachable_sound [OF y(1)]]
  have d: "d \<noteq> c" using y(3) serve by (auto simp: stalled_def)
  then have "\<not> takes_mutex d (srv y)" using serve(4) y(2) by simp
  from pass_without_mutex [OF serve(3) disjI1 [OF this] ok] show ?thesis
    using serve(1) d y(2) mute_output by (auto simp: keeps_def)
next
  case (hang d i)
  then show ?thesis using y(2) by simp
next
  case (finish d i s s')
  note ok = sound_mem_ok [OF mutex_reachable_sound [OF y(1)]]
  from pass_without_mutex [OF finish(3) disjI2 [OF refl] ok] have s: "mute (srv y) s" "keeps (srv y) s" by simp_all
  have "dic_conn_destroy d s = Inr s'" using finish(4,5) y(2) by (simp add: connection_end_def)
  from mute_trans [OF s(1) dic_conn_destroy_mute [OF this]] dic_conn_destroy_ms [OF this] s(2) show ?thesis
    using finish(1) y(2) mute_output by (auto simp: keeps_def)
next
  case (outside f as cs)
  have "sk_out k' = sk_out k" if "socks (srv y) fd = Some k" "f fd = Some k'" for fd k k'
    using outside(2) that by (fastforce simp: arrivals_def)
  then show ?thesis using outside(1) y(2) by auto
qed

text \<open>C24. A node, or anything else that connects to the main server, can stop the whole service with eight bytes: it sends the
  head of an announcement and not the body. Its thread then waits in \<open>recv\<close> inside \<open>handle_push_info\<close> and holds the mutex.
  As long as the rest does not arrive, whatever the other peers send and however the other threads run, the thread keeps the
  mutex, no node joins or leaves the list, and no byte is sent to anyone: no other announcement is
  confirmed and no query is answered.\<close>

theorem half_announcement_blocks_server:
  assumes "mutex_reachable y" "holder y = Some c" "stalled c y"
    and "(\<lambda>x z. mutex_step x z \<and> stalled c z)\<^sup>*\<^sup>* y y'"
  shows "holder y' = Some c \<and> infos (srv y') = infos (srv y) \<and> NODES_INFO (srv y') = NODES_INFO (srv y) \<and>
    (\<forall>z fd k k'. mutex_step y' z \<longrightarrow> socks (srv y') fd = Some k \<longrightarrow> socks (srv z) fd = Some k' \<longrightarrow> sk_out k' = sk_out k)"
proof -
  from assms(4) have "mutex_reachable y' \<and> stalled c y' \<and> holder y' = Some c \<and> infos (srv y') = infos (srv y) \<and>
      NODES_INFO (srv y') = NODES_INFO (srv y)"
  proof (induction rule: rtranclp_induct)
    case (step x z)
    then show ?case using stalled_step [of x c z] mutex_reachable.onward [of x z] by auto
  qed (use assms(1-3) in simp)
  then show ?thesis using stalled_step [of y' c] by blast
qed

text \<open>A server with one connection, on which the head and two bytes of the body have arrived.\<close>

theorem half_announcement_blocks_server_witness:
  "\<exists>y :: mutex_process. mutex_reachable y \<and> map_option sk_in (socks (srv y) 5) = Some [take 10 (announcement 4)] \<and>
    holder y = Some 2000 \<and>
    (\<forall>z fd k k'. mutex_step y z \<longrightarrow> socks (srv y) fd = Some k \<longrightarrow> socks (srv z) fd = Some k' \<longrightarrow> sk_out k' = sk_out k)"
proof -
  let ?in = "incoming [take 10 (announcement 4)] False"
  let ?boot = "\<lparr>srv = booted_server [take 10 (announcement 4)] False, listener = 1000, threads = Map.empty, holder = None\<rparr>"
  have len: "length (announcement 4) = 12"
    by (simp add: announcement_def ms_req_head_codec.enc_length sizeof_dic_main_server_req_head_generic_def enc_dic_req_announce_info_def)
  then have ne: "[] \<notin> set [take 10 (announcement 4)]" by auto
  have start: "mutex_reachable ?boot" by (rule mutex_reachable.started [OF booted_server_starts(2-5,1)])
  obtain t where t: "listen_pass 1000 (booted_server [take 10 (announcement 4)] False) = Inr (3000, t)" "args_conn 3000 t = Inr 2000"
    "connected 2000 first_conn ?in t" "registry t []" "stocked [8, 4] t" by (rule booted_server_accepts [OF ne])
  let ?y = "?boot\<lparr>srv := t, threads := [2000 \<mapsto> None]\<rparr>"
  have "listen_pass (listener ?boot) (srv ?boot) = Inr (3000, t)" using t(1) by simp
  from mutex_reachable.onward [OF start mutex_step.accept [OF this t(2)]] have y: "mutex_reachable ?y" by simp
  have cs: "concat (sk_in ?in) = enc_dic_main_server_req_head_generic \<lparr>ms_req_head_operation = main_op_code DIC_ANNOUNCE_INFO,
      ms_req_head_version = 1, ms_req_head_body_size = 4\<rparr> @ take 2 (enc_dic_req_announce_info \<lparr>req_announce_info_core_count = 4\<rparr>)"
    by (simp add: incoming_def example_sock_def announcement_def ms_req_head_codec.enc_length sizeof_dic_main_server_req_head_generic_def)
  have ok: "mem_ok t" using t(4) by (simp add: registry_def)
  obtain h s1 s2 hb ks where run: "c_alloca 8 t = Inr (h, s1)" "dic_conn_recv 2000 h 8 False s1 = Inr (0, s2)"
    "load_word 2 h s2 = Inr (main_op_code DIC_ANNOUNCE_INFO)" "load_word 4 (h + 4) s2 = Inr (4 :: u32)"
    "connected 2000 first_conn (?in\<lparr>sk_in := ks\<rparr>) s2" "concat ks = take 2 (enc_dic_req_announce_info \<lparr>req_announce_info_core_count = 4\<rparr>)"
    "mem_ok s2" "stocked [4] s2" by (rule pass_head [OF t(3) cs ok t(5)])
  have "takes_mutex 2000 t" using run by (simp add: takes_mutex_def request_of_def pass_sizes)
  moreover have blocked: "connection_pass 2000 None t = Some (Inl Blocked)"
  proof -
    from run(8) obtain b where b: "grants 4 b s2" by (rule stocked_Cons)
    have con: "connected 2000 first_conn (?in\<lparr>sk_in := ks\<rparr>) (add_block b s2)"
      using run(5) more_net [OF more_blocks(1) [of b s2]] by (simp add: connected_def)
    have "length (concat ks) < 4" unfolding run(6) by simp
    then have "dic_conn_recv 2000 (fst b) 4 False (add_block b s2) = Inl Blocked"
      using dic_conn_recv_spec [OF con grants_mem_ok [OF b run(7)] _ size_of_int_4_8(1), of "fst b" "snd b" 0] grants_length [OF b]
      by (simp add: Let_def incoming_def)
    then have "handle_push_info 2000 4 s2 = Some (Inl Blocked)"
      using c_alloca_grants [OF b] by (simp add: handle_push_info_def sizeof_dic_req_announce_info_def)
    then show ?thesis using run by (simp add: connection_pass_def pass_sizes)
  qed
  ultimately have "mutex_step ?y (?y\<lparr>holder := Some 2000\<rparr>)" by (intro mutex_step.hang) simp_all
  with y have z: "mutex_reachable (?y\<lparr>holder := Some 2000\<rparr>)" by (rule mutex_reachable.onward)
  have "stalled 2000 (?y\<lparr>holder := Some 2000\<rparr>)" using blocked by (simp add: stalled_def)
  from half_announcement_blocks_server [OF z _ this rtranclp.rtrancl_refl] t(3) z show ?thesis
    by (intro exI [of _ "?y\<lparr>holder := Some 2000\<rparr>"]) (simp add: connected_def first_conn_def incoming_def example_sock_def)
qed

end
