(* ===== verification/Work_Split.thy ===== *)
theory Work_Split
  imports Dicon_Prelude "HOL-Library.Signed_Division"
begin

text \<open>
  How the demo programs divide a range of numbers among the cores of all nodes
  (\<open>demo/find-primes/main.c\<close> and \<open>demo/hash-cracker/main.c\<close>, the part before the results are collected):
  every core gets one thread, and the last thread gets what the division leaves over. The two programs
  differ in the range and in whether the end belongs to a thread's part. \<open>None\<close> is the division by zero
  when no node has a core.
\<close>

section \<open>The code\<close>

fun total_cores :: "c_int list \<Rightarrow> c_int" where
  "total_cores [] = 0"
| "total_cores (n # ns) = n + total_cores ns"

definition thread_range :: "c_int \<Rightarrow> c_int \<Rightarrow> c_int \<Rightarrow> c_int \<Rightarrow> c_int \<Rightarrow> c_int \<times> c_int" where
  "thread_range RANGE_START RANGE_END total_cores_count range_size thread_i =
     (let start = RANGE_START + thread_i * range_size in
      (start, if thread_i = total_cores_count - 1 then RANGE_END else start + range_size - 1))"

fun core_loop :: "nat \<Rightarrow> nat \<Rightarrow> c_int \<Rightarrow> (nat \<times> c_int) list" where
  "core_loop node_i 0 thread_i = []"
| "core_loop node_i (Suc n) thread_i = (node_i, thread_i) # core_loop node_i n (thread_i + 1)"

fun node_loop :: "nat \<Rightarrow> c_int list \<Rightarrow> c_int \<Rightarrow> (nat \<times> c_int) list" where
  "node_loop node_i [] thread_i = []"
| "node_loop node_i (n # ns) thread_i =
     core_loop node_i (unat n) thread_i @
     node_loop (node_i + 1) ns (thread_i + word_of_nat (unat n))"

text \<open>The threads in the order in which they are started: the node, the start and the end.\<close>

definition assign_work :: "c_int \<Rightarrow> c_int \<Rightarrow> c_int list \<Rightarrow> (nat \<times> c_int \<times> c_int) list option" where
  "assign_work RANGE_START RANGE_END cores =
     (let total_cores_count = total_cores cores in
      if total_cores_count = 0 then None
      else
        let range_size = word_of_int (sint (RANGE_END - RANGE_START) sdiv sint total_cores_count) in
        Some (map (\<lambda>(node_i, thread_i).
          (node_i, thread_range RANGE_START RANGE_END total_cores_count range_size thread_i)) (node_loop 0 cores 0)))"

section \<open>Every core gets one thread\<close>

definition plain_total :: "c_int list \<Rightarrow> nat" where
  "plain_total cores = sum_list (map unat cores)"

lemma total_cores_plain: "total_cores cores = word_of_nat (plain_total cores)"
  by (induction cores) (simp_all add: plain_total_def)

lemma core_loop_map: "core_loop k n t = map (\<lambda>i. (k, t + word_of_nat i)) [0..<n]"
proof (induction n arbitrary: t)
  case (Suc n)
  have "[0..<Suc n] = 0 # map Suc [0..<n]" by (simp add: map_Suc_upt upt_conv_Cons del: upt_Suc)
  with Suc show ?case by (simp add: add.assoc del: upt_Suc)
qed simp

lemma node_loop_threads:
  "map snd (node_loop k cores t) = map (\<lambda>i. t + word_of_nat i) [0..<plain_total cores]"
proof (induction cores arbitrary: k t)
  case (Cons n ns)
  have "[0..<plain_total (n # ns)] = [0..<unat n] @ map (\<lambda>i. i + unat n) [0..<plain_total ns]"
    using upt_add_eq_append [of 0 "unat n" "plain_total ns"] map_add_upt [of "unat n" "plain_total ns"]
    by (simp add: plain_total_def add.commute)
  with Cons show ?case by (simp add: core_loop_map add.assoc)
qed (simp add: plain_total_def)

text \<open>The threads of node \<open>k\<close> are as many as it has cores.\<close>

lemma core_loop_node: "map fst (core_loop k n t) = replicate n k"
  by (induction n arbitrary: t) simp_all

lemma node_loop_nodes:
  "map fst (node_loop k cores t) = concat (map (\<lambda>(i, n). replicate (unat n) (k + i)) (zip [0..<length cores] cores))"
proof (induction cores arbitrary: k t)
  case (Cons n ns)
  have "zip [0..<length (n # ns)] (n # ns) = (0, n) # map (\<lambda>(i, m). (Suc i, m)) (zip [0..<length ns] ns)"
  proof -
    have "[0..<length (n # ns)] = 0 # map Suc [0..<length ns]" by (simp add: upt_conv_Cons map_Suc_upt del: upt_Suc)
    then show ?thesis by (simp add: zip_map1 case_prod_unfold del: upt_Suc)
  qed
  with Cons show ?case by (simp add: core_loop_node o_def case_prod_unfold del: upt_Suc)
qed simp

section \<open>The parts make up the range\<close>

lemma sint_c_int: "- (2 ^ 31) \<le> x \<Longrightarrow> x < 2 ^ 31 \<Longrightarrow> sint (word_of_int x :: c_int) = x"
  by (simp add: signed_of_int signed_take_bit_int_eq_self)

lemma of_int_sint_c: "word_of_int (sint n) = (n :: c_int)"
  by simp

lemma widened_part: "0 \<le> sint x \<Longrightarrow> unat (scast x :: u64) = nat (sint x)" "unat (scast x :: u64) < 2 ^ 31 \<or> sint x < 0" for x :: c_int
proof -
  have b: "sint x < 2 ^ 31" using sint_lt [of x] by simp
  show u: "0 \<le> sint x \<Longrightarrow> unat (scast x :: u64) = nat (sint x)"
    using b unfolding unat_eq_nat_uint scast_eq uint_word_of_int by (simp add: mod_pos_pos_trivial)
  show "unat (scast x :: u64) < 2 ^ 31 \<or> sint x < 0" using u b by (cases "0 \<le> sint x") auto
qed

definition part_size :: "c_int \<Rightarrow> c_int \<Rightarrow> nat \<Rightarrow> int" where
  "part_size a b T = (sint b - sint a) div int T"

lemma part_size_bounds:
  assumes "sint a \<le> sint b" "0 < T" "i \<le> T"
  shows "0 \<le> part_size a b T" "int i * part_size a b T \<le> sint b - sint a"
proof -
  show "0 \<le> part_size a b T" using assms(1,2) by (simp add: part_size_def pos_imp_zdiv_nonneg_iff)
  then have "int i * part_size a b T \<le> int T * part_size a b T" using assms(3) by (intro mult_right_mono) simp_all
  also have "\<dots> \<le> sint b - sint a"
    using assms(2) by (simp add: part_size_def mult.commute [of "int T"] minus_mod_eq_div_mult [symmetric])
  finally show "int i * part_size a b T \<le> sint b - sint a" .
qed

lemma thread_range_value:
  assumes "0 \<le> sint a" "sint a \<le> sint b" "i < T" "T < 2 ^ 31"
  shows "thread_range a b (word_of_nat T) (word_of_int (part_size a b T)) (word_of_nat i) =
    (word_of_int (sint a + int i * part_size a b T),
     if i = T - 1 then b else word_of_int (sint a + int (i + 1) * part_size a b T - 1))"
proof -
  have "(word_of_nat i = (word_of_nat T - 1 :: c_int)) = (i = T - 1)"
  proof -
    have "word_of_nat T - 1 = (word_of_nat (T - 1) :: c_int)" using assms(3) by (simp add: of_nat_diff)
    moreover have "take_bit 32 i = i" "take_bit 32 (T - 1) = T - 1" using assms(3,4) by (simp_all add: take_bit_nat_eq_self)
    ultimately show ?thesis by (simp only: word_of_nat_eq_iff) simp
  qed
  then show ?thesis by (simp add: thread_range_def Let_def algebra_simps)
qed

lemma assign_work_parts:
  assumes w: "assign_work a b cores = Some work" and ab: "0 \<le> sint a" "sint a \<le> sint b" and T: "plain_total cores < 2 ^ 31"
  shows "0 < plain_total cores" "map snd work = map (\<lambda>i. (word_of_int (sint a + int i * part_size a b (plain_total cores)),
     if i = plain_total cores - 1 then b
     else word_of_int (sint a + int (i + 1) * part_size a b (plain_total cores) - 1))) [0..<plain_total cores]"
proof -
  let ?T = "plain_total cores"
  show pos: "0 < ?T" using w by (cases "?T = 0") (auto simp: assign_work_def total_cores_plain Let_def)
  have "sint b < 2 ^ 31" using sint_lt [of b] by simp
  then have "sint (b - a) = sint b - sint a"
    using ab sint_c_int [of "sint b - sint a"] by simp
  moreover have "sint (word_of_nat ?T :: c_int) = int ?T" using T by (simp add: sint_small unat_of_nat take_bit_nat_eq_self)
  ultimately have size: "sint (b - a) sdiv sint (word_of_nat ?T :: c_int) = part_size a b ?T"
    using ab pos by (cases "sint a = sint b") (simp_all add: part_size_def signed_divide_int_def)
  have "word_of_nat ?T \<noteq> (0 :: c_int)" using w by (auto simp: assign_work_def total_cores_plain Let_def split: if_splits)
  then have "map snd work = map (thread_range a b (word_of_nat ?T) (word_of_int (part_size a b ?T)) \<circ> snd) (node_loop 0 cores 0)"
    using w by (auto simp: assign_work_def total_cores_plain size Let_def)
  also have "\<dots> = map (thread_range a b (word_of_nat ?T) (word_of_int (part_size a b ?T)) \<circ> word_of_nat) [0..<?T]"
    using node_loop_threads [of 0 cores 0] by (simp flip: map_map)
  finally show "map snd work = map (\<lambda>i. (word_of_int (sint a + int i * part_size a b ?T),
     if i = ?T - 1 then b else word_of_int (sint a + int (i + 1) * part_size a b ?T - 1))) [0..<?T]"
    using thread_range_value [OF ab _ T] by simp
qed

lemma upto_join: "i \<le> j \<Longrightarrow> j \<le> k + 1 \<Longrightarrow> [i..j - 1] @ [j..k] = [i..k]"
  by (cases "j = k + 1") (simp_all flip: upto_split1)

lemma equal_parts:
  assumes "0 \<le> r"
  shows "concat (map (\<lambda>i. [a + int i * r..a + int (i + 1) * r - 1]) [0..<k]) = [a..a + int k * r - 1]"
proof (induction k)
  case (Suc k)
  have "0 \<le> int k * r" using assms by simp
  with Suc assms show ?case using upto_join [of a "a + int k * r" "a + int (Suc k) * r - 1"] by (simp add: algebra_simps)
qed simp

text \<open>The parts as pairs of integers.\<close>

lemma assign_work_ints:
  assumes w: "assign_work a b cores = Some work" and ab: "0 \<le> sint a" "sint a \<le> sint b" and T: "plain_total cores < 2 ^ 31"
  obtains n where "plain_total cores = Suc n"
    "map (\<lambda>(node, first, stop). (sint first, sint stop)) work =
      map (\<lambda>i. (sint a + int i * part_size a b (plain_total cores), if i = n then sint b
        else sint a + int (i + 1) * part_size a b (plain_total cores) - 1)) [0..<Suc n]"
proof -
  define n where "n = plain_total cores - 1"
  let ?r = "part_size a b (plain_total cores)"
  note p = assign_work_parts [OF w ab T]
  have n: "plain_total cores = Suc n" using p(1) by (simp add: n_def)
  have b: "sint b < 2 ^ 31" using sint_lt [of b] by simp
  have v: "sint (word_of_int (sint a + int i * ?r) :: c_int) = sint a + int i * ?r"
    "sint (word_of_int (sint a + int i * ?r - 1) :: c_int) = sint a + int i * ?r - 1" if "i \<le> Suc n" for i
  proof -
    have "0 \<le> int i * ?r" "int i * ?r \<le> sint b - sint a"
      using part_size_bounds [OF ab(2) p(1), of i] that n by simp_all
    then show "sint (word_of_int (sint a + int i * ?r) :: c_int) = sint a + int i * ?r"
      "sint (word_of_int (sint a + int i * ?r - 1) :: c_int) = sint a + int i * ?r - 1"
      using ab b by (intro sint_c_int; linarith)+
  qed
  have "map (\<lambda>(node, first, stop). (sint first, sint stop)) work = map (\<lambda>(first, stop). (sint first, sint stop)) (map snd work)"
    by (simp add: case_prod_unfold)
  also have "\<dots> = map (\<lambda>i. (sint a + int i * ?r, if i = n then sint b else sint a + int (i + 1) * ?r - 1)) [0..<Suc n]"
    unfolding p(2) map_map o_def n prod.case
  proof (rule map_cong [OF refl])
    fix i
    assume "i \<in> set [0..<Suc n]"
    then have "i \<le> Suc n" "i + 1 \<le> Suc n" by auto
    from v(1) [OF this(1)] v(2) [OF this(2)]
    show "(sint (word_of_int (sint a + int i * part_size a b (Suc n)) :: c_int),
        sint (if i = Suc n - 1 then b else word_of_int (sint a + int (i + 1) * part_size a b (Suc n) - 1))) =
      (sint a + int i * part_size a b (Suc n), if i = n then sint b else sint a + int (i + 1) * part_size a b (Suc n) - 1)"
      unfolding n by (simp only: diff_Suc_1 split: if_split) simp
  qed
  finally show ?thesis using that n by blast
qed

lemma parts_join:
  assumes w: "assign_work a b cores = Some work" and ab: "0 \<le> sint a" "sint a \<le> sint b" and T: "plain_total cores < 2 ^ 31"
  shows "concat (map (\<lambda>(node, first, stop). [sint first..sint stop]) work) = [sint a..sint b]"
proof -
  let ?r = "part_size a b (plain_total cores)"
  from assign_work_ints [OF assms] obtain n where n: "plain_total cores = Suc n"
    and p: "map (\<lambda>(node, first, stop). (sint first, sint stop)) work =
      map (\<lambda>i. (sint a + int i * ?r, if i = n then sint b else sint a + int (i + 1) * ?r - 1)) [0..<Suc n]" by blast
  have r: "0 \<le> ?r" "int n * ?r \<le> sint b - sint a"
    using part_size_bounds [OF ab(2), of "plain_total cores" n] n by simp_all
  have "concat (map (\<lambda>(node, first, stop). [sint first..sint stop]) work) =
      concat (map (\<lambda>(x, y). [x..y]) (map (\<lambda>(node, first, stop). (sint first, sint stop)) work))"
    by (simp add: case_prod_unfold o_def)
  also have "\<dots> = concat (map (\<lambda>i. [sint a + int i * ?r..sint a + int (i + 1) * ?r - 1]) [0..<n]) @ [sint a + int n * ?r..sint b]"
    unfolding p by (auto simp: o_def add.commute intro!: arg_cong [where f = concat] map_cong)
  also have "\<dots> = [sint a..sint a + int n * ?r - 1] @ [sint a + int n * ?r..sint b]"
    by (simp only: equal_parts [OF r(1)])
  also have "\<dots> = [sint a..sint b]" using r by (intro upto_join) auto
  finally show ?thesis .
qed

lemma assign_work_bounds:
  assumes w: "assign_work a b cores = Some work" and ab: "0 \<le> sint a" "sint a \<le> sint b" and T: "plain_total cores < 2 ^ 31"
    and x: "(node, first, stop) \<in> set work"
  shows "sint a \<le> sint first" "sint first \<le> sint stop + 1" "sint stop \<le> sint b"
proof -
  let ?r = "part_size a b (plain_total cores)"
  from assign_work_ints [OF w ab T] obtain n where n: "plain_total cores = Suc n"
    and p: "map (\<lambda>(node, first, stop). (sint first, sint stop)) work =
      map (\<lambda>i. (sint a + int i * ?r, if i = n then sint b else sint a + int (i + 1) * ?r - 1)) [0..<Suc n]" by blast
  have "(sint first, sint stop) \<in> set (map (\<lambda>(node, first, stop). (sint first, sint stop)) work)" using x by force
  then obtain i where "i \<in> set [0..<Suc n]"
    "(sint first, sint stop) = (sint a + int i * ?r, if i = n then sint b else sint a + int (i + 1) * ?r - 1)"
    unfolding p set_map by blast
  then have i: "i < Suc n" "sint first = sint a + int i * ?r"
    "sint stop = (if i = n then sint b else sint a + int (i + 1) * ?r - 1)" by (simp_all only: prod.inject set_upt atLeastLessThan_iff)
  have pos: "0 < plain_total cores" using n by simp
  have "0 \<le> ?r" "int i * ?r \<le> sint b - sint a" "int (i + 1) * ?r \<le> sint b - sint a"
    using part_size_bounds [OF ab(2) pos, of i] part_size_bounds(2) [OF ab(2) pos, of "i + 1"] i(1) n by simp_all
  moreover have "0 \<le> int i * ?r" using calculation(1) by simp
  moreover have "int (i + 1) * ?r = int i * ?r + ?r" by (simp add: algebra_simps)
  ultimately show "sint a \<le> sint first" "sint first \<le> sint stop + 1" "sint stop \<le> sint b"
    using i(2,3) by (simp_all split: if_splits)
qed

text \<open>C33. When the end belongs to a thread's part, as in the prime search, the parts of all threads in the
  order in which they are started make up exactly the range: no number is left out and none is done
  twice, whatever cores the nodes have. Every node gets as many threads as it has cores.\<close>

theorem work_covers_range:
  assumes "assign_work a b cores = Some work" "0 \<le> sint a" "sint a \<le> sint b" "plain_total cores < 2 ^ 31"
  shows "concat (map (\<lambda>(node, first, stop). [sint first..sint stop]) work) = [sint a..sint b] \<and>
    map fst work = concat (map (\<lambda>(i, n). replicate (unat n) i) (zip [0..<length cores] cores))"
proof -
  have "map fst work = map fst (node_loop 0 cores 0)"
    using assms(1) by (auto simp: assign_work_def Let_def o_def case_prod_unfold split: if_splits)
  with parts_join [OF assms] node_loop_nodes [of 0 cores 0] show ?thesis by simp
qed

theorem work_covers_range_witness:
  "concat (map (\<lambda>(node, first, stop). [sint first..sint stop])
     [(0, 10 :: c_int, 12 :: c_int), (1, 13, 15), (1, 16, 20 :: c_int)]) = [10..20 :: int]"
proof -
  have "assign_work 10 20 [1, 2] = Some [(0, 10, 12), (1, 13, 15), (1, 16, 20)]" by code_simp
  from work_covers_range [OF this] show ?thesis by (simp add: plain_total_def)
qed

text \<open>When the end does not belong to a thread's part, as in the hash cracker, whose loop stops before
  \<open>end_index\<close>, numbers are left out: the last number of every part but the last one is in no part.\<close>

lemma work_misses_ends:
  assumes w: "assign_work a b cores = Some work" and ab: "0 \<le> sint a" "sint a \<le> sint b" and T: "plain_total cores < 2 ^ 31"
    and k: "k + 1 < plain_total cores" "0 < part_size a b (plain_total cores)"
  shows "sint a + int (k + 1) * part_size a b (plain_total cores) - 1 \<in> {sint a..sint b} \<and>
    sint a + int (k + 1) * part_size a b (plain_total cores) - 1
      \<notin> (\<Union>(node, first, stop) \<in> set work. {sint first..<sint stop})"
proof -
  let ?r = "part_size a b (plain_total cores)"
  let ?x = "sint a + int (k + 1) * ?r - 1"
  from assign_work_ints [OF w ab T] obtain n where n: "plain_total cores = Suc n"
    and p: "map (\<lambda>(node, first, stop). (sint first, sint stop)) work =
      map (\<lambda>i. (sint a + int i * ?r, if i = n then sint b else sint a + int (i + 1) * ?r - 1)) [0..<Suc n]" by blast
  have "1 * ?r \<le> int (k + 1) * ?r" using k(2) by (intro mult_right_mono) auto
  then have "?x \<in> {sint a..sint b}" using part_size_bounds [OF ab(2), of "plain_total cores" "k + 1"] k by simp
  moreover have "?x \<notin> {sint first..<sint stop}" if "(node, first, stop) \<in> set work" for node first stop
  proof
    assume x: "?x \<in> {sint first..<sint stop}"
    have "(sint first, sint stop) \<in> set (map (\<lambda>(node, first, stop). (sint first, sint stop)) work)" using that by force
    then obtain i where "i \<in> set [0..<Suc n]"
      "(sint first, sint stop) = (sint a + int i * ?r, if i = n then sint b else sint a + int (i + 1) * ?r - 1)"
      unfolding p set_map by blast
    then have i: "i \<le> n" "sint first = sint a + int i * ?r"
      "sint stop = (if i = n then sint b else sint a + int (i + 1) * ?r - 1)" by auto
    have "int i * ?r < int (k + 1) * ?r" using x i(2) by simp
    then have "i \<le> k" using k(2) by simp
    then have "sint stop = sint a + int (i + 1) * ?r - 1" using i(3) k(1) n by simp
    with x have "int (k + 1) * ?r < int (i + 1) * ?r" by simp
    with k(2) \<open>i \<le> k\<close> show False by simp
  qed
  ultimately show ?thesis by auto
qed

end
