(* ===== verification/Find_Primes.thy ===== *)
theory Find_Primes
  imports Node Work_Split
begin

text \<open>
  The prime search of \<open>demo/find-primes/main.c\<close>: the code a compute node runs (\<open>is_prime\<close> and
  \<open>find_primes\<close>, which grows its result array with \<open>realloc\<close>), and the split of the range over the cores
  of all nodes. The test \<open>i <= sqrt(n)\<close> is the exact one, \<open>i * i \<le> n\<close>: for 32-bit \<open>n\<close> the rounding of
  \<open>sqrt\<close> to a double does not change the comparison with an integer.
\<close>

section \<open>The test\<close>

function no_odd_divisor :: "int \<Rightarrow> int \<Rightarrow> bool" where
  "no_odd_divisor n i =
     (if i * i \<le> n then (if n mod i = 0 then False else no_odd_divisor n (i + 2)) else True)"
  by pat_completeness auto
termination
proof (relation "measure (\<lambda>(n, i). nat (n + 1 - i))")
  fix n i :: int
  assume "i * i \<le> n"
  moreover have "i \<le> i * i" by (cases "i \<le> 0") (auto intro: order_trans)
  ultimately show "((n, i + 2), n, i) \<in> measure (\<lambda>(n, i). nat (n + 1 - i))" by simp
qed simp

declare no_odd_divisor.simps [simp del]

definition is_prime :: "c_int \<Rightarrow> bool" where
  "is_prime n =
     (if sint n < 2 then False
      else if sint n = 2 then True
      else if sint n mod 2 = 0 then False
      else no_odd_divisor (sint n) 3)"

definition prime_number :: "int \<Rightarrow> bool" where
  "prime_number n \<longleftrightarrow> 1 < n \<and> (\<forall>d. 1 < d \<and> d < n \<longrightarrow> \<not> d dvd n)"

lemma no_odd_divisor_iff:
  "0 < i \<Longrightarrow> odd i \<Longrightarrow> no_odd_divisor n i \<longleftrightarrow> (\<forall>d. i \<le> d \<and> odd d \<and> d * d \<le> n \<longrightarrow> \<not> d dvd n)"
proof (induction n i rule: no_odd_divisor.induct)
  case (1 n i)
  have next_odd: "i + 2 \<le> d \<longleftrightarrow> i \<noteq> d" if "i \<le> d" "odd d" for d
    using that 1(3) by (cases "d = i + 1") auto
  show ?case
  proof (cases "i * i \<le> n")
    case True
    show ?thesis
    proof (cases "i dvd n")
      case dv: True
      then have "\<not> no_odd_divisor n i" using True by (subst no_odd_divisor.simps) (simp add: dvd_eq_mod_eq_0)
      with dv True 1(3) show ?thesis by blast
    next
      case nd: False
      then have "no_odd_divisor n i \<longleftrightarrow> no_odd_divisor n (i + 2)"
        using True by (subst no_odd_divisor.simps) (simp add: dvd_eq_mod_eq_0)
      also have "\<dots> \<longleftrightarrow> (\<forall>d. i + 2 \<le> d \<and> odd d \<and> d * d \<le> n \<longrightarrow> \<not> d dvd n)"
        using 1 True nd by (simp add: dvd_eq_mod_eq_0)
      also have "\<dots> \<longleftrightarrow> (\<forall>d. i \<le> d \<and> odd d \<and> d * d \<le> n \<longrightarrow> \<not> d dvd n)"
      proof -
        have "i \<le> d" if "i + 2 \<le> d" for d using that by simp
        with next_odd nd show ?thesis by metis
      qed
      finally show ?thesis .
    qed
  next
    case False
    have "\<not> d * d \<le> n" if "i \<le> d" for d
      using mult_mono [OF that that] False 1(2) that by linarith
    with False show ?thesis by (subst no_odd_divisor.simps) auto
  qed
qed

text \<open>A composite number has a divisor up to its square root.\<close>

lemma small_divisor:
  fixes n :: int
  assumes "1 < d" "d < n" "d dvd n"
  obtains e where "1 < e" "e * e \<le> n" "e dvd n"
proof (cases "d * d \<le> n")
  case True
  with assms that show ?thesis by blast
next
  case False
  from assms(3) obtain e where n: "n = d * e" by blast
  have "1 < e"
  proof (rule ccontr)
    assume "\<not> 1 < e"
    then have "d * e \<le> d * 1" using assms(1) by (intro mult_left_mono) auto
    with n assms(2) show False by simp
  qed
  moreover have "e < d" using False n assms(1) by (simp add: not_le)
  then have "e * e \<le> d * e" using \<open>1 < e\<close> by (intro mult_right_mono) auto
  ultimately show ?thesis using that n by simp
qed

text \<open>\<open>is_prime\<close> decides primality for every 32-bit integer, negative ones included.\<close>

lemma is_prime_iff: "is_prime n \<longleftrightarrow> prime_number (sint n)"
proof -
  let ?n = "sint n"
  consider "?n < 2" | "?n = 2" | "2 < ?n" "even ?n" | "2 < ?n" "odd ?n" by linarith
  then show ?thesis
  proof cases
    case 4
    have "no_odd_divisor ?n 3 \<longleftrightarrow> prime_number ?n"
    proof
      assume nd: "no_odd_divisor ?n 3"
      have "\<not> d dvd ?n" if "1 < d" "d < ?n" for d
      proof
        assume "d dvd ?n"
        with that obtain e where e: "1 < e" "e * e \<le> ?n" "e dvd ?n" by (rule small_divisor)
        have "odd e" using e(3) 4(2) by (meson dvd_trans)
        with e(1) have "3 \<le> e" by (cases "e = 2") auto
        with nd e \<open>odd e\<close> show False by (simp add: no_odd_divisor_iff)
      qed
      with 4 show "prime_number ?n" by (simp add: prime_number_def)
    next
      assume p: "prime_number ?n"
      have "\<not> d dvd ?n" if "3 \<le> d" "d * d \<le> ?n" for d
      proof -
        have "d * 1 < d * d" using that(1) by (intro mult_strict_left_mono) auto
        with that have "1 < d" "d < ?n" by linarith+
        with p show ?thesis by (simp add: prime_number_def)
      qed
      then show "no_odd_divisor ?n 3" by (simp add: no_odd_divisor_iff)
    qed
    with 4 show ?thesis by (simp add: is_prime_def even_iff_mod_2_eq_zero)
  next
    case 2
    then show ?thesis by (auto simp: is_prime_def prime_number_def)
  next
    case 3
    then show ?thesis by (auto simp: is_prime_def prime_number_def even_iff_mod_2_eq_zero intro!: exI [of _ 2])
  qed (simp add: is_prime_def prime_number_def)
qed

section \<open>The remote function\<close>

record find_primes_args =
  range_start :: u64
  range_end :: u64

definition enc_find_primes_args :: "find_primes_args \<Rightarrow> byte list" where
  "enc_find_primes_args a = enc_word 8 (range_start a) @ enc_word 8 (range_end a)"

text \<open>The body of the \<open>if\<close> in the loop of \<open>find_primes\<close>: \<open>count\<close> and \<open>found_primes\<close> point into the object at
  \<open>allocated\<close>, which may move when it grows. The sizes are computed in \<open>int\<close> and widened.\<close>

definition record_prime :: "u32 \<Rightarrow> nat \<Rightarrow> c_int \<Rightarrow> mem \<Rightarrow> ((nat \<times> c_int) \<times> mem) res" where
  "record_prime i allocated allocated_len s =
     bindR (load_word 8 allocated s) (\<lambda>count :: u64.
     bindR (store_word 8 allocated (count + 1) s) (\<lambda>s1.
     bindR (if scast allocated_len \<le> count + 1
            then bindR (c_realloc allocated (8 * size_of_int (allocated_len + 16 + 1)) s1) (\<lambda>(p, s2).
                   Inr ((p, allocated_len + 16), s2))
            else Inr ((allocated, allocated_len), s1)) (\<lambda>((p, len), s2).
     bindR (load_word 8 p s2) (\<lambda>count1 :: u64.
     bindR (store_word 8 (p + 8 + 8 * unat (count1 - 1)) (ucast i :: u64) s2) (\<lambda>s3.
       Inr ((p, len), s3))))))"

text \<open>With \<open>end\<close> the largest \<open>unsigned int\<close> the loop does not end.\<close>

partial_function (option) primes_loop :: "u32 \<Rightarrow> u32 \<Rightarrow> nat \<Rightarrow> c_int \<Rightarrow> mem \<Rightarrow> (nat \<times> mem) res option" where
  "primes_loop i stop allocated allocated_len s =
     (if i \<le> stop then
        (if is_prime i then
           (case record_prime i allocated allocated_len s of
              Inl e \<Rightarrow> Some (Inl e)
            | Inr ((p, len), s1) \<Rightarrow> primes_loop (i + 1) stop p len s1)
         else primes_loop (i + 1) stop allocated allocated_len s)
      else Some (Inr (allocated, s)))"

definition find_primes :: "nat \<Rightarrow> mem \<Rightarrow> (nat \<times> mem) res option" where
  "find_primes args s =
     bindO (Some (load_word 8 args s)) (\<lambda>first :: u64.
     bindO (Some (load_word 8 (args + 8) s)) (\<lambda>stop :: u64.
     let (allocated, s1) = c_malloc (8 * size_of_int (16 + 1)) s in
     bindO (Some (store_word 8 allocated (0 :: u64) s1)) (\<lambda>s2.
     bindO (primes_loop (ucast first) (ucast stop) allocated 16 s2) (\<lambda>(p, s3).
     bindO (Some (load_word 8 p s3)) (\<lambda>count :: u64.
       Some (c_realloc p (8 * size_of_int (ucast count + 1)) s3))))))"

section \<open>What it returns\<close>

definition prime_array :: "u64 list \<Rightarrow> byte list" where
  "prime_array ps = enc_word 8 (word_of_nat (length ps) :: u64) @ concat (map (enc_word 8) ps)"

lemma length_prime_array [simp]: "length (prime_array ps) = 8 + 8 * length ps"
  by (induction ps) (simp_all add: prime_array_def)

definition primes_between :: "nat \<Rightarrow> nat \<Rightarrow> u64 list" where
  "primes_between i j = map word_of_nat (filter (\<lambda>n. prime_number (int n)) [i..<j + 1])"

lemma primes_between_step:
  "i \<le> j \<Longrightarrow> primes_between i j = (if prime_number (int i) then [word_of_nat i] else []) @ primes_between (Suc i) j"
  by (simp add: primes_between_def upt_conv_Cons del: upt_Suc)

lemma primes_between_empty: "j < i \<Longrightarrow> primes_between i j = []"
  by (simp add: primes_between_def)

text \<open>The result array while it grows: \<open>ps\<close> recorded, room for \<open>L\<close>.\<close>

definition filling :: "mem \<Rightarrow> nat \<Rightarrow> u64 list \<Rightarrow> nat \<Rightarrow> bool" where
  "filling s p ps L \<longleftrightarrow> mem_ok s \<and> L = 16 * (length ps div 16) + 16 \<and>
     (\<exists>sl. heap_of s p = Some (prime_array ps @ sl) \<and> 8 * (L + 1) \<le> length (prime_array ps @ sl))"

definition others_kept :: "mem \<Rightarrow> nat \<Rightarrow> mem \<Rightarrow> nat \<Rightarrow> bool" where
  "others_kept s p s' p' \<longleftrightarrow> (\<forall>a bs. a \<noteq> p \<longrightarrow> heap_of s a = Some bs \<longrightarrow> a \<noteq> p' \<and> heap_of s' a = Some bs)"

lemma others_kept_trans: "others_kept s p t q \<Longrightarrow> others_kept t q u r \<Longrightarrow> others_kept s p u r"
  by (simp add: others_kept_def)

lemma others_kept_refl: "others_kept s p s p"
  by (simp add: others_kept_def)

text \<open>The requests for memory: the object at \<open>p\<close> is resized to each of the sizes in turn (the first one is the
  \<open>malloc\<close>, with null). \<open>regrows\<close> says that the allocator serves all of them.\<close>

fun regrows :: "(nat \<times> byte list) list \<Rightarrow> nat \<Rightarrow> nat list \<Rightarrow> (nat \<times> byte list) list \<Rightarrow> bool" where
  "regrows B p [] cs \<longleftrightarrow> True"
| "regrows B p (n # ns) [] \<longleftrightarrow> False"
| "regrows B p (n # ns) (c # cs) \<longleftrightarrow> usable (drop_block p B) n c \<and> regrows (c # drop_block p B) (fst c) ns cs"

lemma drop_block_extent:
  "map extent B = map extent B' \<Longrightarrow> map extent (drop_block p B) = map extent (drop_block p B')"
proof (induction B arbitrary: B')
  case (Cons c B)
  then obtain c' B'' where "B' = c' # B''" "extent c = extent c'" "map extent B = map extent B''" by (cases B') auto
  with Cons.IH show ?case by (simp add: drop_block_def)
qed (simp add: drop_block_def)

lemma regrows_extent: "map extent B = map extent B' \<Longrightarrow> regrows B p ns cs \<longleftrightarrow> regrows B' p ns cs"
proof (induction B p ns cs arbitrary: B' rule: regrows.induct)
  case (3 B p n ns c cs)
  note d = drop_block_extent [OF "3.prems", of p]
  from "3.IH" [of "c # drop_block p B'"] d usable_extent [OF d] show ?case by simp
qed simp_all

definition served :: "nat list \<Rightarrow> nat \<Rightarrow> mem \<Rightarrow> bool" where
  "served ns p s \<longleftrightarrow> regrows (blocks s) p ns (choices s)"

lemma served_store:
  assumes "store q v s = Inr t"
  shows "served ns p t \<longleftrightarrow> served ns p s"
proof -
  from assms have "map extent (blocks t) = map extent (blocks s)" "choices t = choices s"
    by (auto simp: store_def dest: wr_extent split: if_splits option.splits)
  from regrows_extent [OF this(1)] this(2) show ?thesis by (simp add: served_def)
qed

lemma served_realloc:
  assumes "c_realloc p n s = Inr (a, t)" "0 < n" "heap_of s p \<noteq> None" "p \<noteq> 0"
  shows "a = 0 \<Longrightarrow> \<not> served (n # ns) p s" "a \<noteq> 0 \<Longrightarrow> served (n # ns) p s \<longleftrightarrow> served ns a t"
proof -
  from assms(3) obtain old where old: "map_of (blocks s) p = Some old" by (auto simp: heap_of_def)
  have x: "length (patch bs 0 (take n old)) = length bs" if "n \<le> length bs" for bs using that by (simp add: patch_def)
  show "\<not> served (n # ns) p s" if "a = 0"
    using assms(1,2,4) old that by (auto simp: c_realloc_def served_def split: list.splits if_splits)
  show "served (n # ns) p s \<longleftrightarrow> served ns a t" if a: "a \<noteq> 0"
  proof -
    from assms(1,2,4) old a obtain bs cs where c: "choices s = (a, bs) # cs" "usable (drop_block p (blocks s)) n (a, bs)"
      "t = s\<lparr>blocks := (a, patch bs 0 (take n old)) # drop_block p (blocks s), choices := cs\<rparr>"
      by (auto simp: c_realloc_def split: list.splits if_splits)
    have "map extent ((a, patch bs 0 (take n old)) # drop_block p (blocks s)) = map extent ((a, bs) # drop_block p (blocks s))"
    proof -
      have "n \<le> length bs" using c(2) by simp
      from x [OF this] show ?thesis by simp
    qed
    from regrows_extent [OF this] show ?thesis using c by (simp add: served_def)
  qed
qed

text \<open>The sizes that \<open>find_primes\<close> asks for when \<open>m\<close> of \<open>N\<close> primes have been recorded: the array has room for sixteen
  numbers at first, for sixteen more each time the count reaches its length, and is cut to size at the end.\<close>

definition array_sizes :: "nat \<Rightarrow> nat \<Rightarrow> nat list" where
  "array_sizes m N = map (\<lambda>k. 8 * (16 * k + 17)) [m div 16 + 1..<N div 16 + 1] @ [8 * (N + 1)]"

definition find_primes_sizes :: "nat \<Rightarrow> nat list" where
  "find_primes_sizes N = 136 # array_sizes 0 N"

lemma array_sizes_full: "array_sizes N N = [8 * (N + 1)]"
  by (simp add: array_sizes_def)

text \<open>The room for \<open>n\<close> recorded primes.\<close>

lemma room_bounds: "n < 16 * (n div 16) + 16" "16 * (n div 16) + 16 \<le> n + 16" for n :: nat
  using div_mult_mod_eq [of n 16] mod_less_divisor [of 16 n] by linarith+

lemma room_full:
  fixes n :: nat
  shows "Suc n mod 16 = 0 \<longleftrightarrow> 16 * (n div 16) + 16 = Suc n"
    "Suc n mod 16 = 0 \<Longrightarrow> Suc n div 16 = n div 16 + 1" "Suc n mod 16 \<noteq> 0 \<Longrightarrow> Suc n div 16 = n div 16"
proof -
  show full: "Suc n mod 16 = 0 \<Longrightarrow> Suc n div 16 = n div 16 + 1" by (simp add: div_Suc)
  show "Suc n mod 16 \<noteq> 0 \<Longrightarrow> Suc n div 16 = n div 16" by (simp add: div_Suc)
  show "Suc n mod 16 = 0 \<longleftrightarrow> 16 * (n div 16) + 16 = Suc n"
  proof
    assume "Suc n mod 16 = 0"
    with full div_mult_mod_eq [of "Suc n" 16] show "16 * (n div 16) + 16 = Suc n" by simp
  next
    assume "16 * (n div 16) + 16 = Suc n"
    then have "Suc n = 16 * (n div 16 + 1)" by simp
    then show "Suc n mod 16 = 0" by (metis mod_mult_self1_is_0)
  qed
qed

lemma array_sizes_step:
  assumes "m < N"
  shows "array_sizes m N = (if Suc m mod 16 = 0 then [8 * (Suc m + 17)] else []) @ array_sizes (Suc m) N"
proof (cases "Suc m mod 16 = 0")
  case True
  then have k: "Suc m div 16 = m div 16 + 1" "16 * (m div 16 + 1) = Suc m"
    using room_full(1,2) [of m] by simp_all
  have "m div 16 + 1 < N div 16 + 1" using assms k(1) div_le_mono [of "Suc m" N 16] by simp
  then have "[m div 16 + 1..<N div 16 + 1] = (m div 16 + 1) # [Suc m div 16 + 1..<N div 16 + 1]"
    using k(1) by (simp add: upt_conv_Cons del: upt_Suc)
  with True k show ?thesis by (simp add: array_sizes_def)
next
  case False
  then have "Suc m div 16 = m div 16" by (rule room_full(3))
  with False show ?thesis by (simp add: array_sizes_def)
qed

lemma nat_u64: "n < 2 ^ 32 \<Longrightarrow> unat (word_of_nat n :: u64) = n"
  by (simp add: unat_of_nat take_bit_nat_eq_self)

lemma narrow_nat:
  assumes "n < 2 ^ 31"
  shows "(ucast (word_of_nat n :: u64) :: c_int) = word_of_nat n"
proof -
  have "(ucast (word_of_nat n :: u64) :: c_int) = word_of_nat (unat (word_of_nat n :: u64))" by (rule of_nat_unat [symmetric])
  also have "unat (word_of_nat n :: u64) = n" using assms by (intro nat_u64) simp
  finally show ?thesis .
qed

lemma compare_len: "L < 2 ^ 31 \<Longrightarrow> n < 2 ^ 32 \<Longrightarrow> (scast (word_of_nat L :: c_int) :: u64) \<le> word_of_nat n \<longleftrightarrow> L \<le> n"
  using size_of_int_nat [of L] by (simp add: word_le_nat_alt nat_u64 size_of_int_def)

text \<open>The count is written before, the number is stored last.\<close>

lemma store_prime:
  assumes ok: "mem_ok s" and p: "heap_of s p = Some (enc_word 8 (word_of_nat (length ps + 1) :: u64) @ concat (map (enc_word 8) ps) @ sl)"
    and room: "8 * (L + 1) \<le> 8 + 8 * length ps + length sl" "L = 16 * ((length ps + 1) div 16) + 16"
    and small: "length ps + 1 < 2 ^ 31"
  shows "\<exists>s'. bindR (load_word 8 p s) (\<lambda>n :: u64. bindR (store_word 8 (p + 8 + 8 * unat (n - 1)) (x :: u64) s) (\<lambda>s3. Inr (r, s3))) =
      Inr (r, s') \<and> filling s' p (ps @ [x]) L \<and> others_kept s p s' p \<and> (\<forall>ns q. served ns q s' = served ns q s)"
proof -
  have inside: "length ps + 1 < L" unfolding room(2) by (rule room_bounds)
  let ?n = "word_of_nat (length ps + 1) :: u64" and ?pre = "enc_word 8 (word_of_nat (length ps + 1) :: u64) @ concat (map (enc_word 8) ps)"
  have pre: "length ?pre = 8 + 8 * length ps" by (induction ps) simp_all
  have at: "heap_of s p = Some (?pre @ sl)" using p by simp
  have "load_word 8 p s = Inr ?n" by (simp add: load_word_at0 [OF ok at])
  moreover have "unat (?n - 1) = length ps" using small by (simp add: nat_u64)
  moreover have st: "store (p + (8 + 8 * length ps)) (enc_word 8 x) s = Inr (set_block p (patch (?pre @ sl) (8 + 8 * length ps) (enc_word 8 x)) s)"
    using room(1) inside pre by (intro store_block [OF ok at]) auto
  moreover have new: "patch (?pre @ sl) (8 + 8 * length ps) (enc_word 8 x) = prime_array (ps @ [x]) @ drop 8 sl"
    using pre by (simp add: patch_def prime_array_def)
  ultimately have run: "bindR (load_word 8 p s) (\<lambda>n :: u64. bindR (store_word 8 (p + 8 + 8 * unat (n - 1)) x s) (\<lambda>s3. Inr (r, s3))) =
      Inr (r, set_block p (prime_array (ps @ [x]) @ drop 8 sl) s)" by (simp add: store_word_def add.assoc)
  have len: "length (prime_array (ps @ [x]) @ drop 8 sl) = length (?pre @ sl)" using room(1) inside pre by simp
  have "filling (set_block p (prime_array (ps @ [x]) @ drop 8 sl) s) p (ps @ [x]) L"
    using at room inside set_block_mem_ok [OF ok at len] by (auto simp: filling_def)
  moreover have "\<forall>ns q. served ns q (set_block p (prime_array (ps @ [x]) @ drop 8 sl) s) = served ns q s"
    using served_store [OF st] new by simp
  ultimately show ?thesis using run by (auto simp: others_kept_def)
qed

text \<open>A moved object starts with the bytes of the old one.\<close>

lemma moved_prefix:
  assumes "\<forall>i < min n (length (v @ old)). bs ! i = (v @ old) ! i" "length v \<le> n" "n \<le> length bs"
  obtains sl where "bs = v @ sl" "length sl = length bs - length v"
proof -
  have "take (length v) bs = v"
    using assms by (intro nth_equalityI) (auto simp: nth_append)
  then have "bs = v @ drop (length v) bs" by (metis append_take_drop_id)
  then show ?thesis using that by (metis length_drop)
qed

text \<open>The array with the count already raised and the last number still to come.\<close>

definition counted :: "mem \<Rightarrow> nat \<Rightarrow> u64 list \<Rightarrow> byte list \<Rightarrow> bool" where
  "counted s p ps sl \<longleftrightarrow> mem_ok s \<and>
     heap_of s p = Some (enc_word 8 (word_of_nat (length ps + 1) :: u64) @ concat (map (enc_word 8) ps) @ sl)"

lemma raise_count:
  assumes f: "filling s p ps L"
  obtains sl s1 where "load_word 8 p s = Inr (word_of_nat (length ps) :: u64)"
    "store_word 8 p (word_of_nat (length ps) + 1 :: u64) s = Inr s1" "counted s1 p ps sl" "others_kept s p s1 p"
    "8 * (L + 1) \<le> 8 + 8 * length ps + length sl" "\<forall>ns q. served ns q s1 = served ns q s"
proof -
  let ?n = "word_of_nat (length ps + 1) :: u64" and ?ps = "concat (map (enc_word 8) ps)"
  from f obtain sl where ok: "mem_ok s" and p: "heap_of s p = Some (prime_array ps @ sl)"
    and room: "8 * (L + 1) \<le> length (prime_array ps @ sl)" by (auto simp: filling_def)
  let ?s1 = "set_block p (enc_word 8 ?n @ ?ps @ sl) s"
  have load: "load_word 8 p s = Inr (word_of_nat (length ps) :: u64)"
    by (simp add: load_word_at0 [OF ok p]) (simp add: prime_array_def)
  have "store (p + 0) (enc_word 8 ?n) s = Inr (set_block p (patch (prime_array ps @ sl) 0 (enc_word 8 ?n)) s)"
    by (rule store_block [OF ok p]) simp_all
  then have store: "store_word 8 p (word_of_nat (length ps) + 1 :: u64) s = Inr ?s1"
    by (simp add: store_word_def patch_def prime_array_def add.commute)
  have len: "length (enc_word 8 ?n @ ?ps @ sl) = length (prime_array ps @ sl)" by (simp add: prime_array_def)
  have "counted ?s1 p ps sl" using set_block_mem_ok [OF ok p len] p by (simp add: counted_def)
  moreover have "others_kept s p ?s1 p" by (simp add: others_kept_def)
  moreover have "\<forall>ns q. served ns q ?s1 = served ns q s" using served_store [OF store [unfolded store_word_def]] by simp
  ultimately show ?thesis using room by (intro that [OF load store]) simp_all
qed

lemma grow_array:
  assumes s: "counted s p ps sl" and L: "length ps < L" "L + 17 < 2 ^ 31"
  obtains (null) m where "c_realloc p (8 * size_of_int (word_of_nat L + 16 + 1)) s = Inr (0, m)"
    "\<forall>ns. \<not> served (8 * (L + 17) # ns) p s"
  | (moved) a m sl' where "c_realloc p (8 * size_of_int (word_of_nat L + 16 + 1)) s = Inr (a, m)" "counted m a ps sl'"
    "others_kept s p m a" "8 * (L + 17) \<le> 8 + 8 * length ps + length sl'"
    "\<forall>ns. served (8 * (L + 17) # ns) p s = served ns a m"
proof -
  let ?n = "word_of_nat (length ps + 1) :: u64" and ?ps = "concat (map (enc_word 8) ps)"
  let ?N = "8 * size_of_int (word_of_nat L + 16 + 1)"
  have "(word_of_nat L + 16 + 1 :: c_int) = word_of_nat (L + 17)" by simp
  with L have N: "?N = 8 * (L + 17)" by (simp only: size_of_int_nat)
  then have pos: "0 < ?N" by simp
  have ok: "mem_ok s" "heap_of s p = Some (enc_word 8 ?n @ ?ps @ sl)" using s by (simp_all add: counted_def)
  from heap_of_pos [OF this] have p: "p \<noteq> 0" by simp
  show ?thesis
  proof (cases rule: c_realloc_cases [OF ok pos])
    case (1 m)
    from null [OF 1(1)] served_realloc(1) [OF 1(1) pos _ p] ok(2) N show ?thesis by simp
  next
    case (2 a bs m)
    have "\<forall>i < min ?N (length ((enc_word 8 ?n @ ?ps) @ sl)). bs ! i = ((enc_word 8 ?n @ ?ps) @ sl) ! i" using 2(9) by simp
    moreover have pre: "length (enc_word 8 ?n @ ?ps) = 8 + 8 * length ps" by (induction ps) simp_all
    moreover have "length (enc_word 8 ?n @ ?ps) \<le> ?N" unfolding pre N using L by simp
    ultimately obtain sl' where sl': "bs = (enc_word 8 ?n @ ?ps) @ sl'" "length sl' = length bs - (8 + 8 * length ps)"
      using moved_prefix [OF _ _ 2(8)] by metis
    have "counted m a ps sl'" using 2(2,4) sl'(1) by (simp add: counted_def)
    moreover have "others_kept s p m a" using 2(4,5) by (auto simp: others_kept_def)
    moreover have "8 * (L + 17) \<le> 8 + 8 * length ps + length sl'" using 2(8) N sl'(2) L by linarith
    moreover have "\<forall>ns. served (8 * (L + 17) # ns) p s = served ns a m"
      using served_realloc(2) [OF 2(1) pos _ p] ok(2) 2(6) N by simp
    ultimately show ?thesis by (rule moved [OF 2(1)])
  qed
qed

lemma record_prime_outcome:
  assumes f: "filling s p ps L" and small: "length ps + 40 < 2 ^ 31"
  shows "record_prime i p (word_of_nat L) s = Inl NullDeref \<and>
      (\<forall>N > length ps. \<not> served (array_sizes (length ps) N) p s) \<or>
    (\<exists>q L' s'. record_prime i p (word_of_nat L) s = Inr ((q, word_of_nat L'), s') \<and>
       filling s' q (ps @ [ucast i]) L' \<and> others_kept s p s' q \<and>
       (\<forall>N > length ps. served (array_sizes (length ps + 1) N) q s' = served (array_sizes (length ps) N) p s))"
proof -
  from f have Leq: "L = 16 * (length ps div 16) + 16" by (simp add: filling_def)
  then have L: "length ps < L" "L \<le> length ps + 16" using room_bounds [of "length ps"] by simp_all
  obtain sl s1 where s1: "load_word 8 p s = Inr (word_of_nat (length ps) :: u64)"
    "store_word 8 p (word_of_nat (length ps) + 1 :: u64) s = Inr s1" "counted s1 p ps sl" "others_kept s p s1 p"
    "8 * (L + 1) \<le> 8 + 8 * length ps + length sl" "\<forall>ns q. served ns q s1 = served ns q s" by (rule raise_count [OF f])
  have cmp: "scast (word_of_nat L :: c_int) \<le> (word_of_nat (length ps) + 1 :: u64) \<longleftrightarrow> L \<le> length ps + 1"
    using compare_len [of L "length ps + 1"] L small by (simp add: add.commute)
  have ok1: "mem_ok s1" "heap_of s1 p = Some (enc_word 8 (word_of_nat (length ps + 1) :: u64) @ concat (map (enc_word 8) ps) @ sl)"
    using s1(3) by (simp_all add: counted_def)
  show ?thesis
  proof (cases "L \<le> length ps + 1")
    case False
    then have "Suc (length ps) mod 16 \<noteq> 0" using Leq room_full(1) [of "length ps"] by simp
    then have m: "Suc (length ps) mod 16 \<noteq> 0" "L = 16 * ((length ps + 1) div 16) + 16"
      using Leq room_full(3) [of "length ps"] by simp_all
    have sizes: "array_sizes (length ps) N = array_sizes (length ps + 1) N" if "length ps < N" for N
      using array_sizes_step [OF that] m(1) by simp
    have "length ps + 1 < 2 ^ 31" using small by simp
    from store_prime [OF ok1 s1(5) m(2) this, of "ucast i" "(p, word_of_nat L :: c_int)"] obtain s' where
      s': "bindR (load_word 8 p s1) (\<lambda>n :: u64. bindR (store_word 8 (p + 8 + 8 * unat (n - 1)) (ucast i :: u64) s1)
        (\<lambda>s3. Inr ((p, word_of_nat L :: c_int), s3))) = Inr ((p, word_of_nat L), s')"
      "filling s' p (ps @ [ucast i]) L" "others_kept s1 p s' p" "\<forall>ns q. served ns q s' = served ns q s1" by blast
    have "record_prime i p (word_of_nat L) s = Inr ((p, word_of_nat L), s')"
      using s1(1,2) cmp False s'(1) by (simp add: record_prime_def)
    moreover have "\<forall>N > length ps. served (array_sizes (length ps + 1) N) p s' = served (array_sizes (length ps) N) p s"
      using sizes s'(4) s1(6) by simp
    ultimately show ?thesis using s'(2) others_kept_trans [OF s1(4) s'(3)] by blast
  next
    case True
    with L have len: "length ps + 1 = L" by simp
    then have "Suc (length ps) mod 16 = 0" using Leq room_full(1) [of "length ps"] by simp
    then have m: "Suc (length ps) mod 16 = 0" "L + 16 = 16 * ((length ps + 1) div 16) + 16" "length ps + 1 = L"
      using Leq len room_full(2) [of "length ps"] by simp_all
    have sizes: "array_sizes (length ps) N = 8 * (L + 17) # array_sizes (length ps + 1) N" if "length ps < N" for N
      using array_sizes_step [OF that] m(1,3) by simp
    have len16: "word_of_nat L + 16 = (word_of_nat (L + 16) :: c_int)" by simp
    have small': "L + 17 < 2 ^ 31" using L small by simp
    show ?thesis
    proof (cases rule: grow_array [OF s1(3) L(1) small'])
      case (1 m)
      have "\<forall>N > length ps. \<not> served (array_sizes (length ps) N) p s" using sizes 1(2) s1(6) by simp
      then show ?thesis using s1(1,2) cmp True 1(1) by (simp add: record_prime_def load_word_def load_def)
    next
      case (2 a mm sl')
      have okm: "mem_ok mm" "heap_of mm a = Some (enc_word 8 (word_of_nat (length ps + 1) :: u64) @ concat (map (enc_word 8) ps) @ sl')"
        using 2(2) by (simp_all add: counted_def)
      have "8 * (L + 16 + 1) \<le> 8 + 8 * length ps + length sl'" "length ps + 1 < 2 ^ 31" using 2(4) small by simp_all
      from store_prime [OF okm this(1) m(2) this(2), of "ucast i" "(a, word_of_nat L + 16 :: c_int)"] obtain s' where
        tail: "bindR (load_word 8 a mm) (\<lambda>n :: u64. bindR (store_word 8 (a + 8 + 8 * unat (n - 1)) (ucast i :: u64) mm)
          (\<lambda>s3. Inr ((a, word_of_nat L + 16 :: c_int), s3))) = Inr ((a, word_of_nat L + 16), s')"
        and s': "filling s' a (ps @ [ucast i]) (L + 16)" "others_kept mm a s' a" "\<forall>ns q. served ns q s' = served ns q mm" by blast
      have "record_prime i p (word_of_nat L) s = Inr ((a, word_of_nat L + 16), s')"
        unfolding record_prime_def s1(1,2) bindR.simps if_P [OF True [folded cmp]] 2(1) prod.case by (rule tail)
      moreover have "\<forall>N > length ps. served (array_sizes (length ps + 1) N) a s' = served (array_sizes (length ps) N) p s"
        using sizes s'(3) 2(5) s1(6) by simp
      moreover from others_kept_trans [OF others_kept_trans [OF s1(4) 2(3)] s'(2)] have "others_kept s p s' a" .
      ultimately show ?thesis using s'(1) unfolding len16 by blast
    qed
  qed
qed

lemma primes_loop_outcome:
  assumes "filling s p ps L" "unat stop < 2 ^ 31" "length ps + (unat stop + 1 - unat i) + 40 < 2 ^ 31"
    and "N = length (ps @ primes_between (unat i) (unat stop))"
  shows "primes_loop i stop p (word_of_nat L) s = Some (Inl NullDeref) \<and> \<not> served (array_sizes (length ps) N) p s \<or>
    (\<exists>q L' s'. primes_loop i stop p (word_of_nat L) s = Some (Inr (q, s')) \<and>
       filling s' q (ps @ primes_between (unat i) (unat stop)) L' \<and> others_kept s p s' q \<and>
       served [8 * (N + 1)] q s' = served (array_sizes (length ps) N) p s)"
  using assms
proof (induction "unat stop + 1 - unat i" arbitrary: i s p ps L)
  case 0
  then have "unat stop < unat i" by simp
  with 0 have run: "primes_loop i stop p (word_of_nat L) s = Some (Inr (p, s))" "primes_between (unat i) (unat stop) = []"
    by (subst primes_loop.simps, simp_all add: word_le_nat_alt primes_between_empty)
  have N: "N = length ps" using 0(5) run(2) by simp
  show ?case
    by (rule disjI2, rule exI [of _ p], rule exI [of _ L], rule exI [of _ s])
      (use 0(2) run N in \<open>simp add: array_sizes_full others_kept_refl\<close>)
next
  case (Suc n)
  have le: "unat i \<le> unat stop" using Suc(2) by simp
  have i1: "unat (i + 1) = Suc (unat i)" using le Suc(4) by (simp add: unat_plus_if')
  have si: "sint i = int (unat i)" using le Suc(4) by (intro sint_small) simp
  have pr: "is_prime i \<longleftrightarrow> prime_number (int (unat i))" by (simp add: is_prime_iff si)
  have ui: "(word_of_nat (unat i) :: u64) = ucast i" by simp
  have hyp: "n = unat stop + 1 - unat (i + 1)" using Suc(2) i1 by simp
  have unfold: "primes_loop i stop p (word_of_nat L) s = (if is_prime i then
      (case record_prime i p (word_of_nat L) s of Inl e \<Rightarrow> Some (Inl e)
       | Inr ((p, len), s1) \<Rightarrow> primes_loop (i + 1) stop p len s1)
      else primes_loop (i + 1) stop p (word_of_nat L) s)"
    using le by (subst primes_loop.simps) (simp add: word_le_nat_alt)
  show ?case
  proof (cases "is_prime i")
    case False
    then have "primes_between (unat i) (unat stop) = primes_between (unat (i + 1)) (unat stop)"
      using primes_between_step [OF le] pr i1 by simp
    moreover have "length ps + (unat stop + 1 - unat (i + 1)) + 40 < 2 ^ 31" using Suc(5) i1 by simp
    ultimately show ?thesis using Suc(1) [OF hyp Suc(3,4)] Suc(6) False unfold by simp
  next
    case True
    have pb: "ps @ primes_between (unat i) (unat stop) = (ps @ [ucast i]) @ primes_between (unat (i + 1)) (unat stop)"
      using primes_between_step [OF le] pr True i1 ui by simp
    have N: "N = length ((ps @ [ucast i]) @ primes_between (unat (i + 1)) (unat stop))" "length ps < N"
      using Suc(6) unfolding pb by simp_all
    have "length ps + 40 < 2 ^ 31" using Suc(5) by simp
    from record_prime_outcome [OF Suc(3) this, of i] show ?thesis
    proof (elim disjE exE conjE)
      assume "record_prime i p (word_of_nat L) s = Inl NullDeref" "\<forall>N > length ps. \<not> served (array_sizes (length ps) N) p s"
      then show ?thesis using unfold True N(2) by simp
    next
      fix q L' s'
      assume rec: "record_prime i p (word_of_nat L) s = Inr ((q, word_of_nat L'), s')"
        and s': "filling s' q (ps @ [ucast i]) L'" "others_kept s p s' q"
        and "\<forall>N > length ps. served (array_sizes (length ps + 1) N) q s' = served (array_sizes (length ps) N) p s"
      then have alloc: "served (array_sizes (length (ps @ [ucast i])) N) q s' = served (array_sizes (length ps) N) p s"
        using N(2) by simp
      have run: "primes_loop i stop p (word_of_nat L) s = primes_loop (i + 1) stop q (word_of_nat L') s'"
        using unfold True rec by simp
      have "length (ps @ [ucast i]) + (unat stop + 1 - unat (i + 1)) + 40 < 2 ^ 31" using Suc(5) i1 le by simp
      from Suc(1) [OF hyp s'(1) Suc(4) this N(1)] show ?thesis
        unfolding run pb alloc using others_kept_trans [OF s'(2)] by blast
    qed
  qed
qed

text \<open>The array is cut to size at the end.\<close>

lemma shrink_outcome:
  assumes f: "filling s q ps L" and few: "length ps < 2 ^ 31 - 1"
  shows "\<exists>r s'. c_realloc q (8 * size_of_int (ucast (word_of_nat (length ps) :: u64) + 1)) s = Inr (r, s') \<and>
    (if served [8 * (length ps + 1)] q s
     then r \<noteq> 0 \<and> mem_ok s' \<and> (\<exists>sl. heap_of s' r = Some (prime_array ps @ sl)) \<and> others_kept s q s' r
     else r = 0)"
proof -
  let ?n = "8 * size_of_int (ucast (word_of_nat (length ps) :: u64) + 1)"
  from f obtain sl where s: "mem_ok s" "heap_of s q = Some (prime_array ps @ sl)" by (auto simp: filling_def)
  have "(ucast (word_of_nat (length ps) :: u64) + 1 :: c_int) = word_of_nat (length ps + 1)"
    using few by (simp add: narrow_nat)
  then have n: "?n = 8 * (length ps + 1)" using few by (simp only: size_of_int_nat)
  have pos: "0 < ?n" using n by simp
  have q: "heap_of s q \<noteq> None" "q \<noteq> 0" using s(2) heap_of_pos [OF s] by simp_all
  show ?thesis
  proof (cases rule: c_realloc_cases [OF s pos])
    case (1 m')
    with served_realloc(1) [OF 1(1) pos q, of "[]"] n show ?thesis by simp
  next
    case (2 r bs m')
    have "length (prime_array ps) \<le> ?n" unfolding n by simp
    from moved_prefix [OF 2(9) this 2(8)] obtain sl' where bs: "bs = prime_array ps @ sl'" by blast
    have "served [8 * (length ps + 1)] q s"
      using served_realloc(2) [OF 2(1) pos q, of "[]"] 2(6) n by (simp add: served_def)
    moreover have "others_kept s q m' r" using 2(4,5) by (auto simp: others_kept_def)
    moreover have "heap_of m' r = Some (prime_array ps @ sl')" using 2(4) bs by simp
    ultimately show ?thesis using 2(1,2,6) by auto
  qed
qed

text \<open>The new array, with count zero.\<close>

lemma start_array:
  assumes c: "grants 136 c s" and ok: "mem_ok s"
  defines "s2 \<equiv> set_block (fst c) (enc_word 8 (0 :: u64) @ drop 8 (snd c)) (add_block c s)"
  shows "store_word 8 (fst c) (0 :: u64) (add_block c s) = Inr s2" "filling s2 (fst c) [] 16"
    and "heap_of s p = Some bs \<Longrightarrow> p \<noteq> fst c \<and> heap_of s2 p = Some bs"
proof -
  have len: "136 \<le> length (snd c)" by (rule grants_length [OF c])
  have ok2: "mem_ok (add_block c s)" "heap_of (add_block c s) (fst c) = Some (snd c)"
    using grants_mem_ok [OF c ok] by simp_all
  show "store_word 8 (fst c) (0 :: u64) (add_block c s) = Inr s2"
    using store_block0 [OF ok2, of "enc_word 8 (0 :: u64)"] len by (simp add: s2_def store_word_def patch_def)
  have "length (enc_word 8 (0 :: u64) @ drop 8 (snd c)) = length (snd c)" using len by simp
  then show "filling s2 (fst c) [] 16"
    using set_block_mem_ok [OF ok2] len ok2(2) by (simp add: s2_def filling_def prime_array_def)
  show "heap_of s p = Some bs \<Longrightarrow> p \<noteq> fst c \<and> heap_of s2 p = Some bs"
    using grants_fresh [OF c ok] by (auto simp: s2_def)
qed

lemma length_primes_between: "length (primes_between i j) \<le> j + 1 - i"
proof -
  have "length (primes_between i j) \<le> length [i..<j + 1]" unfolding primes_between_def length_map by (rule length_filter_le)
  then show ?thesis by (simp only: length_upt)
qed

lemma drop_null: "apart_all B \<Longrightarrow> drop_block 0 B = B"
  by (induction B) (simp_all add: drop_block_def)

definition prime_search :: "nat \<Rightarrow> u64 \<Rightarrow> u64 \<Rightarrow> mem \<Rightarrow> bool" where
  "prime_search args a b s \<longleftrightarrow> (let ps = primes_between (unat a) (unat b) in
     if served (find_primes_sizes (length ps)) 0 s
     then \<exists>q s'. find_primes args s = Some (Inr (q, s')) \<and> q \<noteq> 0 \<and> mem_ok s' \<and>
       (\<exists>sl'. heap_of s' q = Some (prime_array ps @ sl')) \<and>
       (\<forall>p bs. heap_of s p = Some bs \<longrightarrow> p \<noteq> q \<and> heap_of s' p = Some bs)
     else find_primes args s = Some (Inl NullDeref) \<or> (\<exists>s'. find_primes args s = Some (Inr (0, s'))))"

lemma prime_search_result:
  assumes "prime_search args a b s" "find_primes args s = Some (Inr (q, s'))" "q \<noteq> 0"
  shows "mem_ok s' \<and> (\<exists>sl'. heap_of s' q = Some (prime_array (primes_between (unat a) (unat b)) @ sl')) \<and>
    (\<forall>p bs. heap_of s p = Some bs \<longrightarrow> p \<noteq> q \<and> heap_of s' p = Some bs)"
  using assms(1) unfolding prime_search_def Let_def assms(2) option.inject sum.inject prod.inject
  using assms(3) by (cases "served (find_primes_sizes (length (primes_between (unat a) (unat b)))) 0 s") auto

lemma find_primes_outcome:
  assumes "mem_ok s" "heap_of s args = Some (enc_find_primes_args \<lparr>range_start = a, range_end = b\<rparr> @ sl)"
    and "unat a < 2 ^ 31" "unat b < 2 ^ 31" "unat b < unat a + 2 ^ 30"
  shows "prime_search args a b s"
proof -
  define ps where "ps = primes_between (unat a) (unat b)"
  define N where "N = length ps"
  have args: "load_word 8 args s = Inr a" "load_word 8 (args + 8) s = Inr b"
    by (simp_all add: load_word_at0 [OF assms(1,2)] load_word_at [OF assms(1,2)] enc_find_primes_args_def)
  have ab: "unat (ucast a :: u32) = unat a" "unat (ucast b :: u32) = unat b"
    using assms(3,4) by (simp_all add: unsigned_ucast_eq take_bit_nat_eq_self)
  have sz: "8 * size_of_int (16 + 1) = 136" using size_of_int_nat [of 17] by simp
  have few: "length ps < 2 ^ 31 - 1" using length_primes_between [of "unat a" "unat b"] assms(5) by (simp add: ps_def)
  have no0: "drop_block 0 (blocks s) = blocks s" using assms(1) by (simp add: mem_ok_def drop_null)
  note goal = prime_search_def Let_def ps_def [symmetric] N_def [symmetric] find_primes_sizes_def
  show ?thesis
  proof (cases rule: c_malloc_cases [of 136 s])
    case null
    then have "\<not> served (136 # array_sizes 0 N) 0 s"
      using no0 by (auto simp: served_def c_malloc_def split: list.splits if_splits)
    moreover from null have "find_primes args s = Some (Inl NullDeref)"
      by (cases "c_malloc 136 s") (simp add: find_primes_def args sz [simplified] store_word_def store_def)
    ultimately show ?thesis by (simp add: goal)
  next
    case (grant c)
    let ?s2 = "set_block (fst c) (enc_word 8 (0 :: u64) @ drop 8 (snd c)) (add_block c s)"
    note start = start_array [OF grant(1) assms(1)]
    have alloc: "served (array_sizes 0 N) (fst c) ?s2 = served (136 # array_sizes 0 N) 0 s"
      using served_store [OF start(1) [unfolded store_word_def]] grant(1) no0
      by (auto simp: served_def grants_def add_block_def)
    have "length ([] :: u64 list) + (unat (ucast b :: u32) + 1 - unat (ucast a :: u32)) + 40 < 2 ^ 31" "unat (ucast b :: u32) < 2 ^ 31"
      "N = length ([] @ primes_between (unat (ucast a :: u32)) (unat (ucast b :: u32)))"
      using assms(4,5) ab by (simp_all add: N_def ps_def)
    from primes_loop_outcome [OF start(2) this(2,1,3)] ab
    consider "primes_loop (ucast a) (ucast b) (fst c) 16 ?s2 = Some (Inl NullDeref)" "\<not> served (array_sizes 0 N) (fst c) ?s2"
      | q L s3 where "primes_loop (ucast a) (ucast b) (fst c) 16 ?s2 = Some (Inr (q, s3))"
        "filling s3 q ps L" "others_kept ?s2 (fst c) s3 q" "served [8 * (N + 1)] q s3 = served (array_sizes 0 N) (fst c) ?s2"
      by (auto simp: ps_def)
    then show ?thesis
    proof cases
      case 1
      then show ?thesis using grant(2) start(1) alloc by (simp add: find_primes_def args sz [simplified] goal)
    next
      case (2 q L s3)
      from 2(2) obtain sl3 where s3: "mem_ok s3" "heap_of s3 q = Some (prime_array ps @ sl3)" by (auto simp: filling_def)
      have count: "load_word 8 q s3 = Inr (word_of_nat (length ps) :: u64)"
        by (simp add: load_word_at0 [OF s3]) (simp add: prime_array_def)
      have run: "find_primes args s = Some (c_realloc q (8 * size_of_int (ucast (word_of_nat (length ps) :: u64) + 1)) s3)"
        using grant(2) start(1) 2(1) count by (simp add: find_primes_def args sz [simplified])
      from shrink_outcome [OF 2(2) few, folded N_def, unfolded 2(4) alloc] obtain r s' where
        r: "find_primes args s = Some (Inr (r, s'))" "if served (136 # array_sizes 0 N) 0 s
          then r \<noteq> 0 \<and> mem_ok s' \<and> (\<exists>sl. heap_of s' r = Some (prime_array ps @ sl)) \<and> others_kept s3 q s' r else r = 0"
        unfolding run option.inject by (auto simp: N_def)
      have "p \<noteq> r \<and> heap_of s' p = Some bs" if "heap_of s p = Some bs" "others_kept s3 q s' r" for p bs
        using start(3) [OF that(1)] others_kept_trans [OF 2(3) that(2)] unfolding others_kept_def by blast
      with r show ?thesis unfolding goal by (auto split: if_splits)
    qed
  qed
qed

text \<open>C31. \<open>find_primes\<close> returns, for every allocator, and unless an allocation fails it returns the right array: when the
  allocator serves the \<open>malloc\<close> and every \<open>realloc\<close> (of 136 bytes, of the sizes the array grows to each time sixteen
  more primes have been found, and of the final size), the result is a fresh object that
  holds the number of primes in the range and then exactly these primes in ascending order, no other
  object has changed and the memory is well formed; exactly when it does not, the function dereferences a null pointer, or returns one.\<close>

theorem find_primes_correct:
  assumes "mem_ok s" "heap_of s args = Some (enc_find_primes_args \<lparr>range_start = a, range_end = b\<rparr> @ sl)"
    and "unat a < 2 ^ 31" "unat b < 2 ^ 31" "unat b < unat a + 2 ^ 30"
  shows "if served (find_primes_sizes (length (primes_between (unat a) (unat b)))) 0 s
    then \<exists>q s'. find_primes args s = Some (Inr (q, s')) \<and> q \<noteq> 0 \<and> mem_ok s' \<and>
       (\<exists>sl'. heap_of s' q = Some (prime_array (primes_between (unat a) (unat b)) @ sl')) \<and>
       (\<forall>p bs. heap_of s p = Some bs \<longrightarrow> p \<noteq> q \<and> heap_of s' p = Some bs)
    else find_primes args s = Some (Inl NullDeref) \<or> (\<exists>s'. find_primes args s = Some (Inr (0, s')))"
  using find_primes_outcome [OF assms] by (simp only: prime_search_def Let_def)

text \<open>A search that finds 17 primes, so that the array has to grow.\<close>

definition search_memory :: mem where
  "search_memory = \<lparr>blocks = [(2000, enc_find_primes_args \<lparr>range_start = 2, range_end = 60\<rparr>)],
     choices = [(3000, replicate 136 0), (4000, replicate 264 0), (5000, replicate 144 0)]\<rparr>"

lemma small_primes: "is_prime 2" "is_prime 3" "\<not> is_prime 4" "is_prime 5"
  by code_simp+

lemma primes_between_is_prime:
  assumes "j < 2 ^ 31"
  shows "primes_between i j = map word_of_nat (filter (\<lambda>n. is_prime (word_of_nat n)) [i..<j + 1])"
proof -
  have "prime_number (int n) = is_prime (word_of_nat n)" if "n < j + 1" for n
  proof -
    have "unat (word_of_nat n :: c_int) = n" using that assms by (simp add: unat_of_nat take_bit_nat_eq_self)
    then have "sint (word_of_nat n :: c_int) = int n" using that assms by (subst sint_small) simp_all
    then show ?thesis by (simp add: is_prime_iff)
  qed
  then show ?thesis unfolding primes_between_def by (auto intro!: arg_cong [where f = "map word_of_nat"] filter_cong simp del: upt_Suc)
qed

lemma seventeen_primes: "length (primes_between 2 60) = 17"
proof -
  have "length (filter (\<lambda>n. is_prime (word_of_nat n)) [2..<60 + 1]) = 17" by code_simp
  then show ?thesis by (simp add: primes_between_is_prime del: upt_Suc)
qed

theorem find_primes_correct_witness:
  "\<exists>q s' sl. find_primes 2000 search_memory = Some (Inr (q, s')) \<and> q \<noteq> 0 \<and>
    heap_of s' q = Some (prime_array (primes_between 2 60) @ sl) \<and> length (primes_between 2 60) = 17"
proof -
  have pre: "mem_ok search_memory" "heap_of search_memory 2000 = Some (enc_find_primes_args \<lparr>range_start = 2, range_end = 60\<rparr> @ [])"
    by (simp_all add: search_memory_def mem_ok_def heap_of_def enc_find_primes_args_def)
  have "find_primes_sizes 17 = [136, 264, 144]" by (simp add: find_primes_sizes_def array_sizes_def)
  then have "served (find_primes_sizes (length (primes_between (unat (2 :: u64)) (unat (60 :: u64))))) 0 search_memory"
    using seventeen_primes by (simp add: served_def search_memory_def drop_block_def enc_find_primes_args_def)
  from find_primes_correct [OF pre, unfolded if_P [OF this]] obtain q s' sl where
    "find_primes 2000 search_memory = Some (Inr (q, s'))" "q \<noteq> 0" "heap_of s' q = Some (prime_array (primes_between 2 60) @ sl)"
    by auto
  with seventeen_primes show ?thesis by blast
qed

section \<open>On the nodes\<close>

text \<open>The library the demo uploads: a fault of the function is a thread that never finishes.\<close>

definition find_primes_so :: user_code where
  "find_primes_so func arg m =
     (case find_primes arg m of Some (Inr r) \<Rightarrow> Some r | _ \<Rightarrow> None)"

lemma thread_memory:
  fixes s :: "'a node_scheme"
  shows "mem_ok \<lparr>blocks = blocks s, choices = choices s\<rparr> = mem_ok s" "heap_of \<lparr>blocks = blocks s, choices = choices s\<rparr> = heap_of s"
  by (simp_all add: mem_ok_def heap_of_def)

text \<open>A thread of the prime search that finishes on a node leaves the array of its part in the memory of
  the node, at the address the thread returns, and changes nothing else there (or returns null, when the
  last \<open>realloc\<close> has failed).\<close>

lemma search_thread_finishes:
  fixes s :: node
  assumes th: "threads s t = Some (Running f arg)" "run_thread find_primes_so t s = Some s'"
    and mem: "mem_ok s" "heap_of s arg = Some (enc_find_primes_args \<lparr>range_start = a, range_end = b\<rparr> @ sl)"
    and ab: "unat a < 2 ^ 31" "unat b < 2 ^ 31" "unat b < unat a + 2 ^ 30"
  shows "\<exists>q. threads s' = (threads s)(t \<mapsto> Finished q) \<and> conns s' = conns s \<and> socks s' = socks s \<and> (q = 0 \<or>
    mem_ok s' \<and> (\<exists>sl'. heap_of s' q = Some (prime_array (primes_between (unat a) (unat b)) @ sl')) \<and>
    (\<forall>p bs. heap_of s p = Some bs \<longrightarrow> p \<noteq> q \<and> heap_of s' p = Some bs))"
proof -
  let ?m = "\<lparr>blocks = blocks s, choices = choices s\<rparr>"
  have m: "mem_ok ?m" "heap_of ?m arg = Some (enc_find_primes_args \<lparr>range_start = a, range_end = b\<rparr> @ sl)"
    using mem thread_memory [of s] by simp_all
  from th obtain q m' where q: "find_primes arg ?m = Some (Inr (q, m'))"
    "s' = s\<lparr>blocks := blocks m', choices := choices m', threads := (threads s)(t \<mapsto> Finished q)\<rparr>"
    by (auto simp: run_thread_def find_primes_so_def split: option.splits sum.splits)
  from prime_search_result [OF find_primes_outcome [OF m ab] q(1)] have "q = 0 \<or>
    mem_ok m' \<and> (\<exists>sl'. heap_of m' q = Some (prime_array (primes_between (unat a) (unat b)) @ sl')) \<and>
    (\<forall>p bs. heap_of s p = Some bs \<longrightarrow> p \<noteq> q \<and> heap_of m' p = Some bs)"
    unfolding thread_memory(2) by blast
  moreover have "heap_of s' = heap_of m'" "mem_ok s' = mem_ok m'" "threads s' = (threads s)(t \<mapsto> Finished q)"
    "conns s' = conns s" "socks s' = socks s" using q(2) by (simp_all add: heap_of_def mem_ok_def)
  ultimately show ?thesis by (intro exI [of _ q]) simp
qed

section \<open>The whole search\<close>

definition RANGE_START :: c_int where "RANGE_START = 1000000000"
definition RANGE_END :: c_int where "RANGE_END = 1050000000"

lemma map_int_upt: "map int [m..<n] = [int m..int n - 1]"
proof (induction n)
  case (Suc n)
  show ?case
  proof (cases "m \<le> n")
    case True
    then show ?thesis using Suc upto_rec2 [of "int m" "int n"] by simp
  qed simp
qed simp

lemma primes_between_ints:
  assumes "0 \<le> i"
  shows "primes_between (nat i) (nat j) = map word_of_int (filter prime_number [i..j])"
proof (cases "0 \<le> j")
  case True
  have "primes_between (nat i) (nat j) = map word_of_int (map int (filter (prime_number \<circ> int) [nat i..<nat j + 1]))"
    by (simp add: primes_between_def o_def)
  also have "\<dots> = map word_of_int (filter prime_number (map int [nat i..<nat j + 1]))" by (simp only: filter_map)
  also have "map int [nat i..<nat j + 1] = [i..j]" using assms True map_int_upt [of "nat i" "nat j + 1"] by (simp del: upt_Suc)
  finally show ?thesis .
next
  case False
  then show ?thesis using assms by (cases "i = 0") (simp_all add: primes_between_def prime_number_def)
qed

text \<open>The primes of the parts, one after the other, are the primes of the range.\<close>

lemma parts_primes:
  assumes "assign_work a b cores = Some work" "0 \<le> sint a" "sint a \<le> sint b" "plain_total cores < 2 ^ 31"
  shows "concat (map (\<lambda>(node, first, stop). primes_between (nat (sint first)) (nat (sint stop))) work) =
    primes_between (nat (sint a)) (nat (sint b))"
proof -
  have nonneg: "0 \<le> sint first" if "(node, first, stop) \<in> set work" for node first stop
    using assign_work_bounds(1) [OF assms that] assms(2) by simp
  have "concat (map (\<lambda>(node, first, stop). primes_between (nat (sint first)) (nat (sint stop))) work) =
      concat (map (\<lambda>(node, first, stop). map word_of_int (filter prime_number [sint first..sint stop])) work)"
    using nonneg by (intro arg_cong [where f = concat] map_cong refl) (auto simp: primes_between_ints)
  also have "\<dots> = map word_of_int (filter prime_number (concat (map (\<lambda>(node, first, stop). [sint first..sint stop]) work)))"
    by (simp add: map_concat filter_concat o_def case_prod_unfold)
  also have "\<dots> = map word_of_int (filter prime_number [sint a..sint b])"
    unfolding parts_join [OF assms] by (rule refl)
  also have "\<dots> = primes_between (nat (sint a)) (nat (sint b))" using assms(2) by (rule primes_between_ints [symmetric])
  finally show ?thesis .
qed

text \<open>What the thread of a part gets, and the memory it asks for.\<close>

definition part_args :: "nat \<times> c_int \<times> c_int \<Rightarrow> find_primes_args" where
  "part_args w = \<lparr>range_start = scast (fst (snd w)), range_end = scast (snd (snd w))\<rparr>"

definition part_primes :: "nat \<times> c_int \<times> c_int \<Rightarrow> u64 list" where
  "part_primes w = primes_between (nat (sint (fst (snd w)))) (nat (sint (snd (snd w))))"

definition ready_memory :: "nat \<times> c_int \<times> c_int \<Rightarrow> nat \<Rightarrow> mem \<Rightarrow> bool" where
  "ready_memory w arg m \<longleftrightarrow> mem_ok m \<and> (\<exists>sl. heap_of m arg = Some (enc_find_primes_args (part_args w) @ sl)) \<and>
     served (find_primes_sizes (length (part_primes w))) 0 m"

lemma part_search:
  assumes work: "assign_work a b cores = Some work" "0 < sint a" "sint a \<le> sint b" "sint b < sint a + 2 ^ 30" "plain_total cores < 2 ^ 31"
    and w: "w \<in> set work" and mem: "ready_memory w arg m"
  obtains q m' sl where "find_primes arg m = Some (Inr (q, m'))" "q \<noteq> 0" "heap_of m' q = Some (prime_array (part_primes w) @ sl)"
proof -
  obtain node first stop where x: "w = (node, first, stop)" by (cases w)
  have nonneg: "0 \<le> sint a" using work(2) by simp
  note B = assign_work_bounds [OF work(1) nonneg work(3,5) w [unfolded x]]
  have pos: "0 \<le> sint first" "0 \<le> sint stop" using B work(2) by linarith+
  have lt: "sint first < 2 ^ 31" "sint stop < 2 ^ 31" using sint_lt [of first] sint_lt [of stop] by simp_all
  note u = widened_part(1) [OF pos(1)] widened_part(1) [OF pos(2)]
  obtain sl where m: "mem_ok m" "served (find_primes_sizes (length (part_primes w))) 0 m"
    "heap_of m arg = Some (enc_find_primes_args \<lparr>range_start = scast first, range_end = scast stop\<rparr> @ sl)"
    using mem unfolding ready_memory_def part_args_def x fst_conv snd_conv by blast
  have r: "unat (scast first :: u64) < 2 ^ 31" "unat (scast stop :: u64) < 2 ^ 31" "unat (scast stop :: u64) < unat (scast first :: u64) + 2 ^ 30"
    unfolding u using pos lt B work(2,4) by (simp_all add: nat_less_iff)
  have "primes_between (unat (scast first :: u64)) (unat (scast stop :: u64)) = part_primes w" by (simp add: u part_primes_def x)
  with find_primes_outcome [OF m(1,3) r] m(2) show ?thesis using that unfolding prime_search_def by auto
qed

text \<open>C32. The threads together find every prime of the range exactly once and in order: when every part of the
  division of work is given to \<open>find_primes\<close>, each in a memory of its own that holds the arguments of the part and
  serves what the function asks for, every call returns an array, and the numbers in these arrays, in the order in
  which the threads are started and collected, are exactly the primes of the whole range (for example the one of
  the demo, from \<open>RANGE_START\<close> to \<open>RANGE_END\<close>).\<close>

theorem search_complete:
  assumes work: "assign_work a b cores = Some work" "0 < sint a" "sint a \<le> sint b" "sint b < sint a + 2 ^ 30" "plain_total cores < 2 ^ 31"
    and mem: "\<forall>i < length work. ready_memory (work ! i) (arg i) (m i)"
  shows "\<exists>q m' ps. length ps = length work \<and>
    (\<forall>i < length work. find_primes (arg i) (m i) = Some (Inr (q i, m' i)) \<and> q i \<noteq> 0 \<and>
       (\<exists>sl. heap_of (m' i) (q i) = Some (prime_array (ps ! i) @ sl))) \<and>
    concat ps = primes_between (nat (sint a)) (nat (sint b))"
proof -
  have "\<forall>i. \<exists>r. i < length work \<longrightarrow> find_primes (arg i) (m i) = Some (Inr r) \<and> fst r \<noteq> 0 \<and>
      (\<exists>sl. heap_of (snd r) (fst r) = Some (prime_array (map part_primes work ! i) @ sl))"
  proof
    fix i
    show "\<exists>r. i < length work \<longrightarrow> find_primes (arg i) (m i) = Some (Inr r) \<and> fst r \<noteq> 0 \<and>
      (\<exists>sl. heap_of (snd r) (fst r) = Some (prime_array (map part_primes work ! i) @ sl))"
    proof (cases "i < length work")
      case True
      obtain q m' sl where "find_primes (arg i) (m i) = Some (Inr (q, m'))" "q \<noteq> 0"
        "heap_of m' q = Some (prime_array (part_primes (work ! i)) @ sl)"
        using part_search [OF work nth_mem [OF True]] mem True by blast
      then show ?thesis by (intro exI [of _ "(q, m')"]) (auto simp: True)
    qed simp
  qed
  from choice [OF this] obtain r where r: "\<forall>i < length work. find_primes (arg i) (m i) = Some (Inr (r i)) \<and> fst (r i) \<noteq> 0 \<and>
      (\<exists>sl. heap_of (snd (r i)) (fst (r i)) = Some (prime_array (map part_primes work ! i) @ sl))" by blast
  have "map part_primes work = map (\<lambda>(node, first, stop). primes_between (nat (sint first)) (nat (sint stop))) work"
    by (simp add: part_primes_def case_prod_unfold)
  then have "concat (map part_primes work) = primes_between (nat (sint a)) (nat (sint b))"
    using parts_primes [OF work(1) less_imp_le [OF work(2)] work(3,5)] by (simp only:)
  with r show ?thesis
    by (intro exI [of _ "fst \<circ> r"] exI [of _ "snd \<circ> r"] exI [of _ "map part_primes work"]) (simp del: nth_map)
qed

definition half_memory :: "nat \<times> c_int \<times> c_int \<Rightarrow> mem" where
  "half_memory w = \<lparr>blocks = [(2000, enc_find_primes_args (part_args w))],
     choices = [(3000, replicate 136 0), (4000, replicate 264 0), (5000, replicate 144 0)]\<rparr>"

theorem search_complete_witness:
  "\<exists>q0 m0 q1 m1 ps0 ps1 sl0 sl1. find_primes 2000 (half_memory (0, 2, 60)) = Some (Inr (q0, m0)) \<and>
    heap_of m0 q0 = Some (prime_array ps0 @ sl0) \<and> find_primes 2000 (half_memory (1, 61, 120)) = Some (Inr (q1, m1)) \<and>
    heap_of m1 q1 = Some (prime_array ps1 @ sl1) \<and> ps0 @ ps1 = primes_between 2 120"
proof -
  let ?work = "[(0, 2, 60), (1, 61, 120)] :: (nat \<times> c_int \<times> c_int) list"
  have work: "assign_work 2 120 [1, 1] = Some ?work" by code_simp
  have "length (filter (\<lambda>n. is_prime (word_of_nat n)) [61..<120 + 1]) = 13" by code_simp
  then have "length (primes_between 61 120) = 13" by (simp add: primes_between_is_prime del: upt_Suc)
  moreover have "find_primes_sizes 17 = [136, 264, 144]" "find_primes_sizes 13 = [136, 112]"
    by (simp_all add: find_primes_sizes_def array_sizes_def)
  ultimately have "ready_memory (0, 2, 60) 2000 (half_memory (0, 2, 60))" "ready_memory (1, 61, 120) 2000 (half_memory (1, 61, 120))"
    using seventeen_primes
    by (simp_all add: ready_memory_def part_primes_def half_memory_def mem_ok_def heap_of_def served_def drop_block_def
        enc_find_primes_args_def)
  then have "\<forall>i < length ?work. ready_memory (?work ! i) 2000 (half_memory (?work ! i))" by (simp add: less_Suc_eq)
  from search_complete [OF work _ _ _ _ this] obtain q m' ps where ps: "length ps = length ?work"
    "\<forall>i < length ?work. find_primes 2000 (half_memory (?work ! i)) = Some (Inr (q i, m' i)) \<and> q i \<noteq> 0 \<and>
       (\<exists>sl. heap_of (m' i) (q i) = Some (prime_array (ps ! i) @ sl))" "concat ps = primes_between (nat (sint (2 :: c_int))) (nat (sint (120 :: c_int)))"
    by (simp add: plain_total_def) blast
  from ps(1) obtain ps0 ps1 where two: "ps = [ps0, ps1]" by (auto simp: length_Suc_conv)
  from ps(2) [rule_format, of 0] obtain sl0 where r0: "find_primes 2000 (half_memory (0, 2, 60)) = Some (Inr (q 0, m' 0))"
    "heap_of (m' 0) (q 0) = Some (prime_array ps0 @ sl0)" unfolding two by auto
  from ps(2) [rule_format, of 1] obtain sl1 where r1: "find_primes 2000 (half_memory (1, 61, 120)) = Some (Inr (q 1, m' 1))"
    "heap_of (m' 1) (q 1) = Some (prime_array ps1 @ sl1)" unfolding two by auto
  have "ps0 @ ps1 = primes_between 2 120" using ps(3) unfolding two by simp
  with r0 r1 show ?thesis by blast
qed

end
