(* ===== verification/Hash_Cracker.thy ===== *)
theory Hash_Cracker
  imports Node Work_Split
begin

text \<open>
  The hash cracker of \<open>demo/hash-cracker\<close>: the enumeration of candidates and the thread that a compute node
  runs (\<open>cracker.c\<close>). MD5 is a function of OpenSSL and a parameter here. The main program divides the
  range as the prime search does (theory Work_Split), but with ends that belong to no part.
\<close>

section \<open>Candidates\<close>

definition MAX_LEN :: nat where "MAX_LEN = 6"

definition charset :: "byte list" where
  "charset = bytes_of ''abcdefghijklmnopqrstuvwxyz0123456789''"

definition charset_len :: u64 where "charset_len = word_of_nat (length charset)"

fun index_loop :: "nat \<Rightarrow> u64 \<Rightarrow> byte list \<Rightarrow> byte list" where
  "index_loop 0 index out = out"
| "index_loop (Suc i) index out =
     index_loop i (index div charset_len) (out[i := charset ! unat (index mod charset_len)])"

text \<open>The content of the buffer \<open>out\<close> afterwards.\<close>

definition index_to_string :: "u64 \<Rightarrow> byte list \<Rightarrow> nat \<Rightarrow> byte list" where
  "index_to_string index out len = (index_loop len index out)[len := 0]"

section \<open>The thread\<close>

record crack_args =
  start_index :: u64
  end_index :: u64
  target_hash :: u64

definition enc_crack_args :: "crack_args \<Rightarrow> byte list" where
  "enc_crack_args a = enc_word 8 (start_index a) @ enc_word 8 (end_index a) @ enc_word 8 (target_hash a)"

lemma unat_succ:
  fixes a b :: u64
  assumes "a < b"
  shows "unat (a + 1) = Suc (unat a)" "unat a < unat b"
proof -
  show "unat a < unat b" using assms by (simp add: word_less_nat_alt)
  moreover have "unat b < 2 ^ 64" using unsigned_less [of b] by simp
  ultimately show "unat (a + 1) = Suc (unat a)" by (simp add: unat_plus_if')
qed

function crack_loop :: "(byte list \<Rightarrow> byte list) \<Rightarrow> u64 \<Rightarrow> u64 \<Rightarrow> nat \<Rightarrow> nat \<Rightarrow> mem \<Rightarrow> mem res" where
  "crack_loop md5 idx stop target candidate s =
     (if idx < stop then
        bindR (load candidate (MAX_LEN + 1) s) (\<lambda>old.
        bindR (store candidate (index_to_string idx old MAX_LEN) s) (\<lambda>s1.
        bindR (load candidate MAX_LEN s1) (\<lambda>plain.
        bindR (load target 16 s1) (\<lambda>hash.
          if md5 plain = hash then Inr s1
          else crack_loop md5 (idx + 1) stop target candidate s1))))
      else Inr s)"
  by pat_completeness auto
termination
  by (relation "measure (\<lambda>(md5, idx, stop, _). unat stop - unat idx)") (auto simp: unat_succ intro!: diff_less_mono2)

declare crack_loop.simps [simp del]

definition crack_thread :: "(byte list \<Rightarrow> byte list) \<Rightarrow> nat \<Rightarrow> mem \<Rightarrow> (nat \<times> mem) res" where
  "crack_thread md5 args s =
     bindR (c_alloca (MAX_LEN + 1) s) (\<lambda>(candidate, s1).
     bindR (load_word 8 args s1) (\<lambda>first :: u64.
     bindR (load_word 8 (args + 8) s1) (\<lambda>stop :: u64.
     bindR (load_word 8 (args + 16) s1) (\<lambda>target :: u64.
     bindR (crack_loop md5 first stop (unat target) candidate s1) (\<lambda>s2.
     let (candidate_allocated, s3) = c_malloc (MAX_LEN + 1) s2 in
     bindR (load_str candidate s3) (\<lambda>t.
     bindR (store candidate_allocated (t @ [0]) s3) (\<lambda>s4.
       Inr (candidate_allocated, del_block candidate s4))))))))"

section \<open>The division of the work\<close>

definition crack_work :: "c_int list \<Rightarrow> (nat \<times> c_int \<times> c_int) list option" where
  "crack_work cores = assign_work 1 100000000 cores"

section \<open>The enumeration\<close>

text \<open>Position in the character set, and the number a candidate stands for.\<close>

fun position :: "byte list \<Rightarrow> byte \<Rightarrow> nat" where
  "position [] c = 0"
| "position (b # bs) c = (if b = c then 0 else Suc (position bs c))"

fun string_value :: "byte list \<Rightarrow> nat" where
  "string_value t = fold (\<lambda>c v. 36 * v + position charset c) t 0"

lemma charset_facts: "length charset = 36" "distinct charset" "0 \<notin> set charset" "charset_len = 36"
  by (simp_all add: charset_def bytes_of_def charset_len_def)

lemma position_nth: "distinct bs \<Longrightarrow> i < length bs \<Longrightarrow> position bs (bs ! i) = i"
proof (induction bs arbitrary: i)
  case (Cons b bs)
  then show ?case by (cases i) auto
qed simp

text \<open>The digits of the index, most significant first.\<close>

fun digits :: "nat \<Rightarrow> nat \<Rightarrow> byte list" where
  "digits 0 v = []"
| "digits (Suc i) v = digits i (v div 36) @ [charset ! (v mod 36)]"

lemma length_digits [simp]: "length (digits n v) = n"
  by (induction n arbitrary: v) simp_all

lemma digits_charset: "set (digits n v) \<subseteq> set charset"
  by (induction n arbitrary: v) (auto simp: charset_facts)

lemma index_loop_digits: "n \<le> length out \<Longrightarrow> index_loop n index out = digits n (unat index) @ drop n out"
proof (induction n arbitrary: index out)
  case (Suc n)
  have "unat (index div 36) = unat index div 36" "unat (index mod 36) = unat index mod 36"
    by (simp_all add: unat_div unat_mod)
  with Suc show ?case by (simp add: charset_facts drop_update_swap Cons_nth_drop_Suc [symmetric])
qed simp

lemma index_to_string_digits:
  assumes "length out = len + 1"
  shows "index_to_string index out len = digits len (unat index) @ [0]"
proof -
  from assms obtain b where "drop len out = [b]" by (cases "drop len out") (auto dest: arg_cong [where f = length])
  then show ?thesis using assms by (simp add: index_to_string_def index_loop_digits list_update_append)
qed

lemma fold_digits: "fold (\<lambda>c v. 36 * v + position charset c) (digits n v) 0 = v mod 36 ^ n"
proof (induction n arbitrary: v)
  case (Suc n)
  have "v mod 36 ^ Suc n = 36 * (v div 36 mod 36 ^ n) + v mod 36" by (simp add: mod_mult2_eq)
  with Suc position_nth [of charset "v mod 36"] show ?case by (simp add: charset_facts)
qed simp

text \<open>C35. \<open>index_to_string\<close> writes a null-terminated string over the character set, and the string determines the
  index: candidates of different indices below \<open>36 ^ len\<close> differ, and every string has an index.\<close>

theorem index_to_string_roundtrip:
  assumes "length out = len + 1"
  shows "\<exists>t. index_to_string index out len = t @ [0] \<and> length t = len \<and> set t \<subseteq> set charset \<and>
    string_value t = unat index mod 36 ^ len"
  using assms by (intro exI [of _ "digits len (unat index)"]) (simp add: index_to_string_digits digits_charset fold_digits)

theorem index_to_string_roundtrip_witness:
  "\<exists>t. index_to_string 8 (replicate 7 0) 6 = t @ [0] \<and> string_value t = 8"
  using index_to_string_roundtrip [of "replicate 7 0" 6 8] by auto

section \<open>What the thread returns\<close>

definition candidate_of :: "nat \<Rightarrow> byte list" where
  "candidate_of i = digits MAX_LEN i"

text \<open>The index at which the loop stops: the first one whose candidate has the hash, otherwise the last one.\<close>

definition stop_index :: "(byte list \<Rightarrow> byte list) \<Rightarrow> byte list \<Rightarrow> nat \<Rightarrow> nat \<Rightarrow> nat" where
  "stop_index md5 h a b = (case filter (\<lambda>i. md5 (candidate_of i) = h) [a..<b] of [] \<Rightarrow> b - 1 | i # _ \<Rightarrow> i)"

lemma stop_index_step:
  "a < b \<Longrightarrow> md5 (candidate_of a) = h \<Longrightarrow> stop_index md5 h a b = a"
  "a < b \<Longrightarrow> md5 (candidate_of a) \<noteq> h \<Longrightarrow> stop_index md5 h a b = (if Suc a < b then stop_index md5 h (Suc a) b else a)"
  by (auto simp: stop_index_def upt_conv_Cons)

lemma crack_loop_stops:
  assumes "mem_ok s" "heap_of s p = Some bs" "7 \<le> length bs" "heap_of s q = Some (h @ sl)" "length h = 16" "p \<noteq> q" "idx < stop"
  shows "crack_loop md5 idx stop q p s =
    Inr (set_block p (candidate_of (stop_index md5 h (unat idx) (unat stop)) @ 0 # drop 7 bs) s)"
  using assms
proof (induction "unat stop - unat idx" arbitrary: idx s bs)
  case 0
  then show ?case using unat_succ(2) [OF 0(8)] by simp
next
  case (Suc n)
  let ?c = "candidate_of (unat idx)"
  let ?s1 = "set_block p (?c @ 0 # drop 7 bs) s"
  note u = unat_succ [OF Suc(9)]
  have "load (p + 0) 7 s = Inr (take 7 (drop 0 bs))" by (rule load_block [OF Suc(3,4)]) (use Suc(5) in simp)
  then have l: "load p (MAX_LEN + 1) s = Inr (take 7 bs)" by (simp add: MAX_LEN_def)
  have i: "index_to_string idx (take 7 bs) MAX_LEN = ?c @ [0]"
    using Suc(5) by (simp add: index_to_string_digits candidate_of_def MAX_LEN_def)
  have c: "length ?c = 6" by (simp add: candidate_of_def MAX_LEN_def)
  have "store (p + 0) (?c @ [0]) s = Inr (set_block p (patch bs 0 (?c @ [0])) s)"
    by (rule store_block [OF Suc(3,4)]) (use Suc(5) c in simp_all)
  then have st: "store p (?c @ [0]) s = Inr ?s1" using c by (simp add: patch_def)
  have len: "length (?c @ 0 # drop 7 bs) = length bs" using c Suc(5) by simp
  have s1: "mem_ok ?s1" "heap_of ?s1 p = Some (?c @ 0 # drop 7 bs)" "heap_of ?s1 q = Some (h @ sl)"
    using set_block_mem_ok [OF Suc(3,4) len] Suc(4,6,8) by simp_all
  have l2: "load p MAX_LEN ?s1 = Inr ?c" using load_block [OF s1(1,2), of 0 6] c by (simp add: MAX_LEN_def)
  have l3: "load q 16 ?s1 = Inr h" using load_block [OF s1(1,3), of 0 16] Suc(7) by simp
  have step: "crack_loop md5 idx stop q p s = (if md5 ?c = h then Inr ?s1 else crack_loop md5 (idx + 1) stop q p ?s1)"
    using Suc(9) l i st l2 l3 by (subst crack_loop.simps) simp
  show ?case
  proof (cases "md5 ?c = h")
    case True
    then show ?thesis using step stop_index_step(1) [OF u(2), of md5 h] by simp
  next
    case False
    show ?thesis
    proof (cases "idx + 1 < stop")
      case True
      have n: "n = unat stop - unat (idx + 1)" using Suc(2) u by simp
      have len1: "7 \<le> length (?c @ 0 # drop 7 bs)" using len Suc(5) by simp
      have "drop 7 (?c @ 0 # drop 7 bs) = drop 7 bs" using c by simp
      moreover have "Suc (unat idx) < unat stop" using unat_succ(2) [OF True] u(1) by simp
      ultimately show ?thesis
        using Suc(1) [OF n s1(1,2) len1 s1(3) Suc(7,8) True] step False u stop_index_step(2) [OF u(2), of md5 h] by simp
    next
      case nl: False
      then have "crack_loop md5 (idx + 1) stop q p ?s1 = Inr ?s1" by (subst crack_loop.simps) simp
      moreover have "\<not> Suc (unat idx) < unat stop" using nl u(1) by (simp add: word_less_nat_alt)
      ultimately show ?thesis using step False u stop_index_step(2) [OF u(2), of md5 h] by simp
    qed
  qed
qed

lemma crack_thread_outcome:
  assumes mem: "mem_ok s" "heap_of s args = Some (enc_crack_args \<lparr>start_index = a, end_index = b, target_hash = target\<rparr> @ sl)"
      "heap_of s (unat target) = Some (h @ sl2)" "stocked [7, 7] s"
    and ab: "a < b" "length h = 16"
  shows "\<exists>r s' bs. crack_thread md5 args s = Inr (r, s') \<and> heap_of s r = None \<and>
    heap_of s' = (heap_of s)(r \<mapsto> candidate_of (stop_index md5 h (unat a) (unat b)) @ 0 # bs)"
proof -
  let ?c = "candidate_of (stop_index md5 h (unat a) (unat b))"
  from mem(4) obtain g where g: "grants 7 g s" "stocked [7] (add_block g s)" by (rule stocked_Cons)
  let ?s1 = "add_block g s"
  have s1: "mem_ok ?s1" "heap_of ?s1 (fst g) = Some (snd g)" "7 \<le> length (snd g)" "heap_of s (fst g) = None"
    using grants_mem_ok [OF g(1) mem(1)] grants_length [OF g(1)] grants_fresh [OF g(1) mem(1)] by simp_all
  have ne: "args \<noteq> fst g" "unat target \<noteq> fst g" using s1(4) mem(2,3) by auto
  have at: "heap_of ?s1 args = Some (enc_word 8 a @ enc_word 8 b @ enc_word 8 target @ sl)"
    using mem(2) ne(1) by (simp add: enc_crack_args_def)
  have l: "load_word 8 args ?s1 = Inr a" "load_word 8 (args + 8) ?s1 = Inr b" "load_word 8 (args + 16) ?s1 = Inr target"
    by (simp_all add: load_word_at0 [OF s1(1) at] load_word_at [OF s1(1) at])
  have q: "heap_of ?s1 (unat target) = Some (h @ sl2)" using mem(3) ne(2) by simp
  let ?v = "?c @ 0 # drop 7 (snd g)"
  let ?s2 = "set_block (fst g) ?v ?s1"
  have loop: "crack_loop md5 a b (unat target) (fst g) ?s1 = Inr ?s2"
    using ne(2) by (intro crack_loop_stops [OF s1(1-3) q ab(2) _ ab(1)]) simp
  have c: "length ?c = 6" "0 \<notin> set ?c"
    using digits_charset [of MAX_LEN] charset_facts(3) by (auto simp: candidate_of_def MAX_LEN_def)
  have len: "length ?v = length (snd g)" using c(1) s1(3) by simp
  from g(2) have "stocked [7] ?s2" by (simp add: stocked_set_block [OF s1(1,2) len])
  then obtain g2 where g2: "grants 7 g2 ?s2" by (rule stocked_Cons)
  have s2: "mem_ok ?s2" by (rule set_block_mem_ok [OF s1(1,2) len])
  let ?s3 = "add_block g2 ?s2"
  have fresh: "heap_of ?s2 (fst g2) = None" by (rule grants_fresh [OF g2 s2])
  have ne2: "fst g2 \<noteq> fst g" "heap_of s (fst g2) = None" using fresh s1(2) by (auto split: if_splits)
  have s3: "mem_ok ?s3" "heap_of ?s3 (fst g) = Some ?v" "heap_of ?s3 (fst g2) = Some (snd g2)" "7 \<le> length (snd g2)"
    using grants_mem_ok [OF g2 s2] ne2(1) s1(2) grants_length [OF g2] by simp_all
  have str: "load_str (fst g) ?s3 = Inr ?c" using c by (intro load_str_block0 [OF s3(1,2)]) simp_all
  let ?w = "?c @ 0 # drop 7 (snd g2)"
  have st: "store (fst g2) (?c @ [0]) ?s3 = Inr (set_block (fst g2) ?w ?s3)"
    using store_block0 [OF s3(1,3), of "?c @ [0]"] s3(4) c(1) by (simp add: patch_def)
  have "crack_thread md5 args s = Inr (fst g2, del_block (fst g) (set_block (fst g2) ?w ?s3))"
    using c_alloca_grants [OF g(1)] l loop c_malloc_grants [OF g2] str st by (simp add: crack_thread_def MAX_LEN_def)
  moreover have "heap_of (del_block (fst g) (set_block (fst g2) ?w ?s3)) = (heap_of s)(fst g2 \<mapsto> ?w)"
    using ne2 s1(4) by (auto simp: fun_eq_iff)
  ultimately show ?thesis using ne2(2) by blast
qed

text \<open>C36. The thread returns a new object with a candidate and leaves the rest of the memory as it was; its
  candidate is the one of the first index of the part whose hash is the target. When no candidate of the
  part has the hash, the result is the last one tried, and nothing tells the two cases apart.\<close>

theorem crack_thread_result:
  assumes mem: "mem_ok s" "heap_of s args = Some (enc_crack_args \<lparr>start_index = a, end_index = b, target_hash = target\<rparr> @ sl)"
      "heap_of s (unat target) = Some (h @ sl2)" "stocked [7, 7] s"
    and ab: "a < b" "length h = 16"
  shows "\<exists>r s' bs. crack_thread md5 args s = Inr (r, s') \<and> heap_of s r = None \<and>
    heap_of s' = (heap_of s)(r \<mapsto> candidate_of (stop_index md5 h (unat a) (unat b)) @ 0 # bs)"
  by (rule crack_thread_outcome [OF assms])

definition crack_memory :: mem where
  "crack_memory = \<lparr>blocks = [(2000, enc_crack_args \<lparr>start_index = 1, end_index = 3, target_hash = 3000\<rparr>), (3000, replicate 16 0)],
     choices = [(4000, replicate 7 0), (5000, replicate 7 0)]\<rparr>"

theorem crack_thread_result_witness:
  "\<exists>r s' bs. crack_thread (\<lambda>t. replicate 16 0) 2000 crack_memory = Inr (r, s') \<and> heap_of s' r = Some (candidate_of 1 @ 0 # bs)"
proof -
  have "mem_ok crack_memory" "heap_of crack_memory 2000 = Some (enc_crack_args \<lparr>start_index = 1, end_index = 3, target_hash = 3000\<rparr> @ [])"
    "heap_of crack_memory (unat (3000 :: u64)) = Some (replicate 16 0 @ [])" "stocked [7, 7] crack_memory"
    "(1 :: u64) < 3" "length (replicate 16 (0 :: byte)) = 16"
    by (simp_all add: crack_memory_def mem_ok_def heap_of_def stocked_def enc_crack_args_def)
  from crack_thread_result [OF this, of "\<lambda>t. replicate 16 0"]
  show ?thesis by (auto simp: stop_index_step(1))
qed

section \<open>What no thread finds\<close>

lemma candidate_of_inject:
  assumes "candidate_of i = candidate_of j" "i < 36 ^ 6" "j < 36 ^ 6"
  shows "i = j"
proof -
  have "i mod 36 ^ 6 = j mod 36 ^ 6" using assms(1) fold_digits [of 6 i] fold_digits [of 6 j] by (simp add: candidate_of_def MAX_LEN_def)
  then show ?thesis using assms(2,3) by simp
qed

lemma stop_index_range:
  assumes "a < b"
  shows "stop_index md5 h a b \<in> {a..<b}"
proof (cases "filter (\<lambda>i. md5 (candidate_of i) = h) [a..<b]")
  case (Cons i xs)
  have "set (i # xs) \<subseteq> set [a..<b]" unfolding Cons [symmetric] by (rule filter_is_subset)
  with Cons show ?thesis by (simp add: stop_index_def)
qed (use assms in \<open>auto simp: stop_index_def\<close>)

text \<open>The end of the part of thread \<open>k\<close>, when it is not the last thread, and the parts of all threads.\<close>

lemma crack_parts:
  assumes w: "crack_work cores = Some work" and T: "k + 1 < plain_total cores" "2 * plain_total cores < 100000000"
    and x: "x = sint (snd (snd (work ! k)))"
  shows "1 \<le> x" "x < 100000000" "\<forall>(node, first, stop) \<in> set work. 1 \<le> sint first \<and> sint first < sint stop \<and>
    sint stop \<le> 100000000 \<and> x \<notin> {sint first..<sint stop}"
proof -
  let ?r = "part_size 1 100000000 (plain_total cores)"
  have "2 * int (plain_total cores) div int (plain_total cores) \<le> (99999999 :: int) div int (plain_total cores)"
    using T by (intro zdiv_mono1) simp_all
  then have "2 \<le> (99999999 :: int) div int (plain_total cores)" using T(1) by simp
  then have r: "2 \<le> ?r" by (simp add: part_size_def)
  have w': "assign_work 1 100000000 cores = Some work" using w by (simp add: crack_work_def)
  have ab: "0 \<le> sint (1 :: c_int)" "sint (1 :: c_int) \<le> sint (100000000 :: c_int)" and T': "plain_total cores < 2 ^ 31"
    using T(2) by simp_all
  from assign_work_ints [OF w' ab T'] obtain n where n: "plain_total cores = Suc n"
    and p: "map (\<lambda>(node, first, stop). (sint first, sint stop)) work =
      map (\<lambda>i. (sint (1 :: c_int) + int i * ?r, if i = n then sint (100000000 :: c_int)
        else sint (1 :: c_int) + int (i + 1) * ?r - 1)) [0..<Suc n]" by blast
  have len: "length work = Suc n" using arg_cong [OF p, of length] by simp
  have at: "sint (fst (snd (work ! i))) = 1 + int i * ?r"
    "sint (snd (snd (work ! i))) = (if i = n then 100000000 else int (i + 1) * ?r)" if "i < Suc n" for i
    using arg_cong [OF p, of "\<lambda>xs. xs ! i"] that len by (auto simp del: upt_Suc simp: case_prod_unfold)
  have bound: "int i * ?r \<le> 99999999" if "i \<le> Suc n" for i
    using part_size_bounds(2) [OF ab(2), of "plain_total cores" i] that n by simp
  have xk: "x = int (k + 1) * ?r" using at(2) [of k] T(1) n x by simp
  have "1 * ?r \<le> int (k + 1) * ?r" using r by (intro mult_right_mono) auto
  then show "1 \<le> x" unfolding xk using r by linarith
  show "x < 100000000" using xk bound [of "k + 1"] T(1) n by simp
  have misses: "x \<notin> (\<Union>(node, first, stop) \<in> set work. {sint first..<sint stop})"
    using work_misses_ends [OF w' ab T' T(1)] r xk by simp
  show "\<forall>(node, first, stop) \<in> set work. 1 \<le> sint first \<and> sint first < sint stop \<and> sint stop \<le> 100000000 \<and>
      x \<notin> {sint first..<sint stop}"
  proof (clarify, intro conjI)
    fix node first stop
    assume w: "(node, first, stop) \<in> set work"
    then obtain i where i: "i < Suc n" "work ! i = (node, first, stop)" using len by (auto simp: in_set_conv_nth)
    have f: "sint first = 1 + int i * ?r" "sint stop = (if i = n then 100000000 else int (i + 1) * ?r)"
      using at [OF i(1)] i(2) by simp_all
    have "0 \<le> int i * ?r" "int (i + 1) * ?r = int i * ?r + ?r" using r by (simp_all add: algebra_simps)
    then show "1 \<le> sint first" "sint first < sint stop" "sint stop \<le> 100000000"
      using f r bound [of i] bound [of "i + 1"] i(1) by (simp_all split: if_splits)
    show "x \<notin> {sint first..<sint stop}" using misses w by blast
  qed
qed

text \<open>C34. With two or more cores the search leaves candidates out: the loop of \<open>crack_thread\<close> stops before
  \<open>end_index\<close>, but the main program gives every thread except the last one the last index of its part as \<open>end_index\<close>. When the
  only candidate of the whole range with the target hash is the one of such an index, every thread runs to its end and returns a
  candidate with another hash: the search does not find what is in its range.\<close>

theorem crack_work_misses:
  assumes w: "crack_work cores = Some work" and T: "k + 1 < plain_total cores" "2 * plain_total cores < 100000000"
    and only: "x = nat (sint (snd (snd (work ! k))))" "\<forall>i \<in> {1..100000000}. md5 (candidate_of i) = h \<longleftrightarrow> i = x"
    and thread: "(node, first, stop) \<in> set work" "mem_ok s" "length h = 16" "stocked [7, 7] s"
      "heap_of s args = Some (enc_crack_args \<lparr>start_index = scast first, end_index = scast stop, target_hash = target\<rparr> @ sl)"
      "heap_of s (unat target) = Some (h @ sl2)"
  shows "x \<in> {1..100000000} \<and> md5 (candidate_of x) = h \<and> (\<exists>r s' t bs. crack_thread md5 args s = Inr (r, s') \<and>
    heap_of s' r = Some (t @ 0 # bs) \<and> length t = MAX_LEN \<and> 0 \<notin> set t \<and> md5 t \<noteq> h)"
proof -
  note P = crack_parts [OF w T refl]
  from P(3) thread(1) have part: "1 \<le> sint first" "sint first < sint stop" "sint stop \<le> 100000000"
    "sint (snd (snd (work ! k))) \<notin> {sint first..<sint stop}" by auto
  have u: "unat (scast first :: u64) = nat (sint first)" "unat (scast stop :: u64) = nat (sint stop)"
    using part by (simp_all add: widened_part(1))
  then have lt: "(scast first :: u64) < scast stop" using part by (simp add: word_less_nat_alt)
  let ?i = "stop_index md5 h (nat (sint first)) (nat (sint stop))"
  have i: "?i \<in> {nat (sint first)..<nat (sint stop)}" using part by (intro stop_index_range) simp
  have "?i \<noteq> x"
  proof
    assume e: "?i = x"
    have "int x = sint (snd (snd (work ! k)))" unfolding only(1) using P(1) by simp
    then show False using i part unfolding e by auto
  qed
  moreover have "?i \<in> {1..100000000}" using i part by auto
  ultimately have other: "md5 (candidate_of ?i) \<noteq> h" using only(2) by blast
  have x: "x \<in> {1..100000000}" using P(1,2) only(1) by auto
  obtain r s' bs where run: "crack_thread md5 args s = Inr (r, s')"
    "heap_of s' = (heap_of s)(r \<mapsto> candidate_of ?i @ 0 # bs)"
    using crack_thread_outcome [OF thread(2,5,6,4) lt thread(3), of md5] unfolding u by blast
  have "length (candidate_of ?i) = MAX_LEN" "0 \<notin> set (candidate_of ?i)"
    using digits_charset [of MAX_LEN] charset_facts(3) by (auto simp: candidate_of_def)
  then show ?thesis using x only(2) run other by auto
qed

text \<open>Two nodes with one core each; the hash tells only the last candidate of the first part from the others.\<close>

definition rare_hash :: "byte list \<Rightarrow> byte list" where
  "rare_hash t = (if t = candidate_of 49999999 then replicate 16 1 else replicate 16 0)"

definition missed_memory :: mem where
  "missed_memory = \<lparr>blocks = [(2000, enc_crack_args \<lparr>start_index = 1, end_index = 49999999, target_hash = 3000\<rparr>), (3000, replicate 16 1)],
     choices = [(4000, replicate 7 0), (5000, replicate 7 0)]\<rparr>"

theorem crack_work_misses_witness:
  "rare_hash (candidate_of 49999999) = replicate 16 1 \<and>
    (\<exists>r s' t bs. crack_thread rare_hash 2000 missed_memory = Inr (r, s') \<and> heap_of s' r = Some (t @ 0 # bs) \<and> rare_hash t \<noteq> replicate 16 1)"
proof -
  let ?work = "[(0, 1, 49999999), (1, 50000000, 100000000)] :: (nat \<times> c_int \<times> c_int) list"
  have w: "crack_work [1, 1] = Some ?work" by code_simp
  have T: "0 + 1 < plain_total [1, 1]" "2 * plain_total [1, 1] < 100000000" by (simp_all add: plain_total_def)
  have only: "\<forall>i \<in> {1..100000000}. rare_hash (candidate_of i) = replicate 16 1 \<longleftrightarrow> i = 49999999"
  proof
    fix i :: nat
    assume "i \<in> {1..100000000}"
    then have "candidate_of i = candidate_of 49999999 \<longleftrightarrow> i = 49999999" using candidate_of_inject [of i 49999999] by auto
    then show "rare_hash (candidate_of i) = replicate 16 1 \<longleftrightarrow> i = 49999999" by (simp add: rare_hash_def)
  qed
  have x: "(49999999 :: nat) = nat (sint (snd (snd (?work ! 0))))" by simp
  have mem: "(0, 1, 49999999) \<in> set ?work" "mem_ok missed_memory" "length (replicate 16 (1 :: byte)) = 16" "stocked [7, 7] missed_memory"
    "heap_of missed_memory 2000 = Some (enc_crack_args \<lparr>start_index = scast (1 :: c_int), end_index = scast (49999999 :: c_int), target_hash = 3000\<rparr> @ [])"
    "heap_of missed_memory (unat (3000 :: u64)) = Some (replicate 16 1 @ [])"
    by (simp_all add: missed_memory_def mem_ok_def heap_of_def stocked_def enc_crack_args_def)
  from crack_work_misses [OF w T x only mem] show ?thesis by blast
qed

end
