(* ===== verification/Demo_Programs.thy ===== *)
theory Demo_Programs
  imports Client Main_Clients Find_Primes Hash_Cracker
begin

text \<open>
  The programs of \<open>demo/\<close> as users of the client library: \<open>find-primes/main.c\<close>, \<open>hash-cracker/main.c\<close>,
  \<open>hello_world/main.c\<close>, \<open>mem_manipulation/comm_tst.c\<close> and \<open>main-server-test/main.c\<close>. Their arrays and structures
  are objects of the memory; the addresses of string literals are arguments. Output is left out.
\<close>

section \<open>Arrays of remote pointers\<close>

text \<open>\<open>dic_rvoid_ptr_t\<close> and \<open>dic_rthread_t\<close> are two words of eight bytes.\<close>

definition sizeof_dic_rvoid_ptr :: nat where "sizeof_dic_rvoid_ptr = 16"

definition store_rptr :: "nat \<Rightarrow> dic_rvoid_ptr \<Rightarrow> 'a mem_scheme \<Rightarrow> 'a mem_scheme res" where
  "store_rptr p v s =
     bindR (store_word 8 p (r_ptr v) s) (\<lambda>s1. store_word 8 (p + 8) (word_of_nat (r_device v) :: u64) s1)"

definition load_rptr :: "nat \<Rightarrow> 'a mem_scheme \<Rightarrow> dic_rvoid_ptr res" where
  "load_rptr p s =
     bindR (load_word 8 p s) (\<lambda>a. bindR (load_word 8 (p + 8) s) (\<lambda>d :: u64. Inr \<lparr>r_ptr = a, r_device = unat d\<rparr>))"

definition store_rthread :: "nat \<Rightarrow> dic_rthread \<Rightarrow> 'a mem_scheme \<Rightarrow> 'a mem_scheme res" where
  "store_rthread p v s = store_rptr p \<lparr>r_ptr = rt_tid v, r_device = rt_device v\<rparr> s"

definition load_rthread :: "nat \<Rightarrow> 'a mem_scheme \<Rightarrow> dic_rthread res" where
  "load_rthread p s = bindR (load_rptr p s) (\<lambda>v. Inr \<lparr>rt_tid = r_ptr v, rt_device = r_device v\<rparr>)"

definition node_at :: "nat \<Rightarrow> nat \<Rightarrow> 'a mem_scheme \<Rightarrow> nat res" where
  "node_at nodes i s = bindR (load_word 8 (nodes + 8 * i) s) (\<lambda>w :: u64. Inr (unat w))"

definition core_count_at :: "nat \<Rightarrow> nat \<Rightarrow> 'a mem_scheme \<Rightarrow> u32 res" where
  "core_count_at nodes_info i s = load_word 4 (nodes_info + sizeof_dic_resp_get_info + sizeof_dic_node_info * i + 20) s"

section \<open>What the two searches share\<close>

text \<open>The addresses of the string literals: the local library, its name on the nodes and the function.\<close>

record literals =
  LOCAL_SO_PATH :: nat
  REMOTE_NAME :: nat
  symbol_name :: nat

text \<open>The library is uploaded to every node and loaded there.\<close>

fun load_objects :: "literals \<Rightarrow> nat \<Rightarrow> nat \<Rightarrow> nat \<Rightarrow> nat \<Rightarrow> 'a client_scheme \<Rightarrow> 'a client_scheme res" where
  "load_objects lits nodes so_handles i 0 s = Inr s"
| "load_objects lits nodes so_handles i (Suc n) s =
     bindR (node_at nodes i s) (\<lambda>device.
     bindR (dic_so_upload device (LOCAL_SO_PATH lits) (REMOTE_NAME lits) s) (\<lambda>(_, s1).
     bindR (dic_so_load device (REMOTE_NAME lits) s1) (\<lambda>(handle, s2).
     bindR (store_rptr (so_handles + sizeof_dic_rvoid_ptr * i) handle s2) (\<lambda>s3.
       load_objects lits nodes so_handles (i + 1) n s3))))"

fun load_functions :: "literals \<Rightarrow> nat \<Rightarrow> nat \<Rightarrow> nat \<Rightarrow> nat \<Rightarrow> 'a client_scheme \<Rightarrow> 'a client_scheme res" where
  "load_functions lits so_handles func_ptrs i 0 s = Inr s"
| "load_functions lits so_handles func_ptrs i (Suc n) s =
     bindR (load_rptr (so_handles + sizeof_dic_rvoid_ptr * i) s) (\<lambda>handle.
     bindR (dic_func_load handle (symbol_name lits) s) (\<lambda>(func, s1).
     bindR (store_rptr (func_ptrs + sizeof_dic_rvoid_ptr * i) func s1) (\<lambda>s2.
       load_functions lits so_handles func_ptrs (i + 1) n s2)))"

fun count_cores :: "nat \<Rightarrow> nat \<Rightarrow> nat \<Rightarrow> c_int \<Rightarrow> 'a mem_scheme \<Rightarrow> c_int res" where
  "count_cores nodes_info i 0 total_cores_count s = Inr total_cores_count"
| "count_cores nodes_info i (Suc n) total_cores_count s =
     bindR (core_count_at nodes_info i s) (\<lambda>core_count.
       count_cores nodes_info (i + 1) n (total_cores_count + core_count) s)"

text \<open>The loops over the nodes and their cores; \<open>start_one\<close> starts the thread of one core and returns it.\<close>

type_synonym 'a starter = "nat \<Rightarrow> dic_rvoid_ptr \<Rightarrow> c_int \<Rightarrow> c_int \<Rightarrow> 'a client_scheme \<Rightarrow> (dic_rthread \<times> 'a client_scheme) res"

fun start_cores ::
  "'a starter \<Rightarrow> (c_int \<Rightarrow> c_int \<times> c_int) \<Rightarrow> nat \<Rightarrow> dic_rvoid_ptr \<Rightarrow> nat \<Rightarrow> nat \<Rightarrow> c_int \<Rightarrow> 'a client_scheme \<Rightarrow>
     (c_int \<times> 'a client_scheme) res" where
  "start_cores start_one part device func rthreads 0 thread_i s = Inr (thread_i, s)"
| "start_cores start_one part device func rthreads (Suc n) thread_i s =
     bindR (start_one device func (fst (part thread_i)) (snd (part thread_i)) s) (\<lambda>(thread, s1).
     bindR (store_rthread (rthreads + sizeof_dic_rvoid_ptr * size_of_int thread_i) thread s1) (\<lambda>s2.
       start_cores start_one part device func rthreads n (thread_i + 1) s2))"

fun start_nodes ::
  "'a starter \<Rightarrow> (c_int \<Rightarrow> c_int \<times> c_int) \<Rightarrow> nat \<Rightarrow> nat \<Rightarrow> nat \<Rightarrow> nat \<Rightarrow> nat \<Rightarrow> nat \<Rightarrow> c_int \<Rightarrow> 'a client_scheme \<Rightarrow>
     'a client_scheme res" where
  "start_nodes start_one part nodes_info nodes func_ptrs rthreads i 0 thread_i s = Inr s"
| "start_nodes start_one part nodes_info nodes func_ptrs rthreads i (Suc n) thread_i s =
     bindR (core_count_at nodes_info i s) (\<lambda>core_count.
     bindR (node_at nodes i s) (\<lambda>device.
     bindR (load_rptr (func_ptrs + sizeof_dic_rvoid_ptr * i) s) (\<lambda>func.
     bindR (start_cores start_one part device func rthreads (unat core_count) thread_i s) (\<lambda>(thread_i1, s1).
       start_nodes start_one part nodes_info nodes func_ptrs rthreads (i + 1) n thread_i1 s1))))"

text \<open>One result: the thread is joined, the length of its array and the array are copied to the client, and the
  remote array is freed. The size of the second copy is computed in \<open>uint64_t\<close> and passed as an \<open>int\<close>.\<close>

definition collect_one :: "dic_rthread \<Rightarrow> c_int \<Rightarrow> 'a client_scheme \<Rightarrow> (c_int \<times> 'a client_scheme) res" where
  "collect_one rthread primes_total s =
     bindR (dic_rthread_join rthread s) (\<lambda>(ret, s1).
     bindR (c_alloca 8 s1) (\<lambda>(arr_size, s2).
     bindR (dic_memcpy arr_size ret 8 REMOTE_2_LOCAL s2) (\<lambda>(_, s3).
     bindR (load_word 8 arr_size s3) (\<lambda>size :: u64.
     let (arr, s4) = c_malloc (unat (8 * size)) s3 in
     bindR (dic_memcpy arr (ret\<lparr>r_ptr := r_ptr ret + 8\<rparr>) (ucast (size * 8)) REMOTE_2_LOCAL s4) (\<lambda>(_, s5).
     bindR (dic_rfree ret s5) (\<lambda>(_, s6).
     bindR (c_free arr s6) (\<lambda>s7.
       Inr (primes_total + ucast size, del_block arr_size s7))))))))"

fun collect_all :: "nat \<Rightarrow> nat \<Rightarrow> nat \<Rightarrow> c_int \<Rightarrow> 'a client_scheme \<Rightarrow> (c_int \<times> 'a client_scheme) res" where
  "collect_all rthreads i 0 primes_total s = Inr (primes_total, s)"
| "collect_all rthreads i (Suc n) primes_total s =
     bindR (load_rthread (rthreads + sizeof_dic_rvoid_ptr * i) s) (\<lambda>rthread.
     bindR (collect_one rthread primes_total s) (\<lambda>(primes_total1, s1).
       collect_all rthreads (i + 1) n primes_total1 s1))"

fun close_nodes :: "nat \<Rightarrow> nat \<Rightarrow> nat \<Rightarrow> nat \<Rightarrow> 'a client_scheme \<Rightarrow> 'a client_scheme res" where
  "close_nodes nodes so_handles i 0 s = Inr s"
| "close_nodes nodes so_handles i (Suc n) s =
     bindR (load_rptr (so_handles + sizeof_dic_rvoid_ptr * i) s) (\<lambda>handle.
     bindR (dic_so_unload handle s) (\<lambda>(_, s1).
     bindR (node_at nodes i s1) (\<lambda>device.
     bindR (dic_conn_destroy device s1) (\<lambda>s2.
       close_nodes nodes so_handles (i + 1) n s2))))"

text \<open>The search itself: the range is divided, every core of every node gets a thread, and the results are collected.\<close>

definition search_threads ::
  "'a starter \<Rightarrow> c_int \<Rightarrow> c_int \<Rightarrow> nat \<Rightarrow> nat \<Rightarrow> nat \<Rightarrow> 'a client_scheme \<Rightarrow> (c_int \<times> 'a client_scheme) res" where
  "search_threads start_one first_nr last_nr nodes_info nodes func_ptrs s =
     bindR (load_word 4 nodes_info s) (\<lambda>count :: u32.
     bindR (count_cores nodes_info 0 (unat count) 0 s) (\<lambda>total_cores_count.
     if total_cores_count = 0 then Inl DivisionByZero
     else
       let range_size = word_of_int (sint (last_nr - first_nr) sdiv sint total_cores_count);
           (rthreads, s1) = c_malloc (sizeof_dic_rvoid_ptr * size_of_int total_cores_count) s in
       bindR (start_nodes start_one (thread_range first_nr last_nr total_cores_count range_size) nodes_info nodes func_ptrs rthreads
                0 (unat count) 0 s1) (\<lambda>s2.
         collect_all rthreads 0 (nat (sint total_cores_count)) 0 s2)))"

text \<open>The programs once the table of nodes has arrived. The number of nodes is read again for every loop.\<close>

definition search_nodes ::
  "literals \<Rightarrow> 'a starter \<Rightarrow> c_int \<Rightarrow> c_int \<Rightarrow> nat \<Rightarrow> 'a client_scheme \<Rightarrow> (c_int \<times> 'a client_scheme) res" where
  "search_nodes lits start_one first_nr last_nr nodes_info s =
     bindR (dic_nodes_connect_all nodes_info s) (\<lambda>(nodes, s1).
     bindR (load_word 4 nodes_info s1) (\<lambda>count :: u32.
     let (so_handles, s2) = c_malloc (sizeof_dic_rvoid_ptr * unat count) s1 in
     bindR (load_objects lits nodes so_handles 0 (unat count) s2) (\<lambda>s3.
     let (func_ptrs, s4) = c_malloc (sizeof_dic_rvoid_ptr * unat count) s3 in
     bindR (load_functions lits so_handles func_ptrs 0 (unat count) s4) (\<lambda>s5.
     bindR (search_threads start_one first_nr last_nr nodes_info nodes func_ptrs s5) (\<lambda>(primes_total, s6).
     bindR (load_word 4 nodes_info s6) (\<lambda>count1 :: u32.
     bindR (close_nodes nodes so_handles 0 (unat count1) s6) (\<lambda>s7.
       Inr (primes_total, s7))))))))"

text \<open>Asking the main server for the nodes.\<close>

definition ask_nodes :: "ip_addr \<Rightarrow> 'a client_scheme \<Rightarrow> (nat \<times> 'a client_scheme) res" where
  "ask_nodes addr s =
     bindR (dic_main_connect addr s) (\<lambda>(main_server, s1).
     bindR (dic_get_nodes_info main_server s1) (\<lambda>(nodes_info, s2).
     bindR (dic_conn_destroy main_server s2) (\<lambda>s3. Inr (nodes_info, s3))))"

section \<open>The prime search\<close>

definition start_search :: "'a starter" where
  "start_search device func first_nr last_nr s =
     bindR (c_alloca 16 s) (\<lambda>(args, s1).
     bindR (store args (enc_find_primes_args \<lparr>range_start = scast first_nr, range_end = scast last_nr\<rparr>) s1) (\<lambda>s2.
     bindR (dic_rmalloc device 16 s2) (\<lambda>(r_args, s3).
     bindR (dic_memcpy args r_args 16 LOCAL_2_REMOTE s3) (\<lambda>(_, s4).
     bindR (dic_rthread_run func r_args s4) (\<lambda>(thread, s5).
       Inr (thread, del_block args s5))))))"

text \<open>The checksum of the local library is computed and not used.\<close>

definition find_primes_main :: "literals \<Rightarrow> ip_addr \<Rightarrow> 'a client_scheme \<Rightarrow> (c_int \<times> 'a client_scheme) res" where
  "find_primes_main lits addr s =
     bindR (ask_nodes addr s) (\<lambda>(nodes_info, s1).
       search_nodes lits start_search RANGE_START RANGE_END nodes_info s1)"

section \<open>The hash cracker\<close>

text \<open>\<open>hash\<close> is the address of the array with the target hash. The copy of the hash is asked for with the operation
  code \<open>DIC_MEMCPY_C2N\<close> where \<open>dic_memcpy\<close> expects one of its two modes.\<close>

definition start_crack :: "nat \<Rightarrow> 'a starter" where
  "start_crack hash device func first_nr last_nr s =
     bindR (dic_rmalloc device 16 s) (\<lambda>(remote_target_hash, s1).
     bindR (dic_memcpy hash remote_target_hash 16 (ucast (op_code DIC_MEMCPY_C2N)) s1) (\<lambda>(_, s2).
     bindR (c_alloca 24 s2) (\<lambda>(args, s3).
     bindR (store args (enc_crack_args \<lparr>start_index = scast first_nr, end_index = scast last_nr,
              target_hash = r_ptr remote_target_hash\<rparr>) s3) (\<lambda>s4.
     bindR (dic_rmalloc device 24 s4) (\<lambda>(r_args, s5).
     bindR (dic_memcpy args r_args 24 LOCAL_2_REMOTE s5) (\<lambda>(_, s6).
     bindR (dic_rthread_run func r_args s6) (\<lambda>(thread, s7).
       Inr (thread, del_block args s7))))))))"

text \<open>The results are collected as those of the prime search.\<close>

definition crack_main ::
  "(byte list \<Rightarrow> byte list) \<Rightarrow> literals \<Rightarrow> ip_addr \<Rightarrow> 'a client_scheme \<Rightarrow> (c_int \<times> 'a client_scheme) res" where
  "crack_main md5 lits addr s =
     bindR (c_alloca 16 s) (\<lambda>(hash, s1).
     bindR (store hash (md5 (bytes_of ''hello'')) s1) (\<lambda>s2.
     bindR (ask_nodes addr s2) (\<lambda>(nodes_info, s3).
     bindR (search_nodes lits (start_crack hash) 1 100000000 nodes_info s3) (\<lambda>(total, s4).
       Inr (total, del_block hash s4)))))"

section \<open>The small programs\<close>

text \<open>\<open>hello_world\<close>: the function, which runs on the node, and the program, with the addresses of its two literals.\<close>

definition MSG_SIZE :: nat where "MSG_SIZE = 32"

definition hello_dicon :: "nat \<Rightarrow> mem \<Rightarrow> (nat \<times> mem) res" where
  "hello_dicon x s =
     (let (allocated_msg, s1) = c_malloc MSG_SIZE s in
      bindR (store allocated_msg (bytes_of ''hello dicon!'' @ [0]) s1) (\<lambda>s2. Inr (allocated_msg, s2)))"

definition hello_main :: "ip_addr \<Rightarrow> nat \<Rightarrow> nat \<Rightarrow> 'a client_scheme \<Rightarrow> (byte list \<times> 'a client_scheme) res" where
  "hello_main addr so_name symbol s =
     bindR (dic_node_connect addr s) (\<lambda>(conn, s1).
     bindR (get_conn conn s1) (\<lambda>c.
     if sockfd c = - 1 then Inl (Exited EXIT_FAILURE)
     else
       bindR (dic_so_load conn so_name s1) (\<lambda>(so_handle, s2).
       bindR (dic_func_load so_handle symbol s2) (\<lambda>(func, s3).
       bindR (dic_rthread_run func \<lparr>r_ptr = 0, r_device = 0\<rparr> s3) (\<lambda>(rt_id, s4).
       bindR (dic_rthread_join rt_id s4) (\<lambda>(ret, s5).
       let (ret_local, s6) = c_malloc MSG_SIZE s5 in
       bindR (dic_memcpy ret_local ret (word_of_nat MSG_SIZE) REMOTE_2_LOCAL s6) (\<lambda>(_, s7).
       bindR (load_str ret_local s7) (\<lambda>printed.
       bindR (dic_rfree ret s7) (\<lambda>(_, s8).
       bindR (c_free ret_local s8) (\<lambda>s9.
       bindR (dic_conn_destroy conn s9) (\<lambda>s10. Inr (printed, s10))))))))))))"

text \<open>\<open>mem_manipulation\<close>: a text of 12 bytes is copied to a node and 30 bytes are copied back, after a loop that tries
  to connect until it succeeds.\<close>

definition comm_copy :: "nat \<Rightarrow> 'a client_scheme \<Rightarrow> (byte list \<times> 'a client_scheme) res" where
  "comm_copy conn s =
     bindR (c_alloca 12 s) (\<lambda>(test, s1).
     bindR (store test (bytes_of ''hello world'' @ [0]) s1) (\<lambda>s2.
     bindR (c_alloca 32 s2) (\<lambda>(test2, s3).
     bindR (dic_rmalloc conn 32 s3) (\<lambda>(rtest, s4).
     bindR (dic_memcpy test rtest 12 LOCAL_2_REMOTE s4) (\<lambda>(_, s5).
     bindR (dic_memcpy test2 rtest 30 REMOTE_2_LOCAL s5) (\<lambda>(_, s6).
     bindR (load_str test2 s6) (\<lambda>printed.
     bindR (dic_rfree rtest s6) (\<lambda>(_, s7).
     bindR (dic_conn_destroy conn s7) (\<lambda>s8.
       Inr (printed, del_block test (del_block test2 s8)))))))))))"

partial_function (option) connect_wait :: "nat \<Rightarrow> 'a client_scheme \<Rightarrow> 'a client_scheme res option" where
  "connect_wait conn s =
     (case dic_conn_tryconnect conn s of
        Inl e \<Rightarrow> Some (Inl e)
      | Inr (res, s1) \<Rightarrow> if res \<noteq> 0 then connect_wait conn s1 else Some (Inr s1))"

definition comm_tst :: "ip_addr \<Rightarrow> 'a client_scheme \<Rightarrow> (byte list \<times> 'a client_scheme) res option" where
  "comm_tst addr s =
     bindO (Some (dic_conn_new addr 12345 s)) (\<lambda>(conn, s1).
     bindO (connect_wait conn s1) (\<lambda>s2. Some (comm_copy conn s2)))"

text \<open>\<open>main-server-test\<close>: one connection for every node of the table.\<close>

fun connect_each :: "nat \<Rightarrow> nat \<Rightarrow> nat \<Rightarrow> nat \<Rightarrow> 'a client_scheme \<Rightarrow> 'a client_scheme res" where
  "connect_each nodes_info nodes i 0 s = Inr s"
| "connect_each nodes_info nodes i (Suc n) s =
     bindR (load (nodes_info + sizeof_dic_resp_get_info + sizeof_dic_node_info * i) sizeof_ip_addr s) (\<lambda>addr.
     bindR (dic_node_connect (dec_ip_addr addr) s) (\<lambda>(node, s1).
     bindR (store_word 8 (nodes + 8 * i) (word_of_nat node :: u64) s1) (\<lambda>s2.
       connect_each nodes_info nodes (i + 1) n s2)))"

definition main_server_test :: "ip_addr \<Rightarrow> 'a client_scheme \<Rightarrow> (nat \<times> 'a client_scheme) res" where
  "main_server_test addr s =
     bindR (ask_nodes addr s) (\<lambda>(nodes_info, s1).
     bindR (load_word 4 nodes_info s1) (\<lambda>count :: u32.
     let (nodes, s2) = c_malloc (8 * unat count) s1 in
     bindR (connect_each nodes_info nodes 0 (unat count) s2) (\<lambda>s3. Inr (nodes, s3))))"

section \<open>Properties\<close>

text \<open>C38. The hash the cracker is to find never reaches a node: whatever array the program has the hash in, it starts
  the same threads with the same messages; the nodes compare with memory nobody has written.\<close>

theorem crack_hash_never_sent:
  "search_nodes lits (start_crack hash) first_nr last_nr nodes_info s =
   search_nodes lits (start_crack hash') first_nr last_nr nodes_info s"
proof -
  have "dic_memcpy h p n (ucast (op_code DIC_MEMCPY_C2N)) t = Inr (1, t)" for h p n and t :: "'a client_scheme"
    by (simp add: dic_memcpy_def LOCAL_2_REMOTE_def REMOTE_2_LOCAL_def)
  then have "start_crack hash = (start_crack hash' :: 'a starter)" by (simp add: start_crack_def fun_eq_iff)
  then show ?thesis by simp
qed

lemma malloc_keeps_object:
  assumes "mem_ok s" "heap_of s a = Some bs"
  shows "mem_ok (snd (c_malloc n s))" "heap_of (snd (c_malloc n s)) a = Some bs"
proof -
  show "mem_ok (snd (c_malloc n s))" by (rule c_malloc_mem_ok [OF assms(1)])
  show "heap_of (snd (c_malloc n s)) a = Some bs"
  proof (cases rule: c_malloc_cases [of n s])
    case null
    with assms(2) show ?thesis by simp
  next
    case (grant c)
    with assms(2) grants_fresh [OF grant(1) assms(1)] show ?thesis by auto
  qed
qed

text \<open>C37. Without nodes the searches crash: when the main server answers with an empty table (as it does after the
  first node has left), they divide by the number of cores, which is zero; for every allocator.\<close>

theorem search_without_nodes:
  fixes s :: "'a client_scheme"
  assumes ok: "mem_ok s" and table: "heap_of s nodes_info = Some (enc_word 4 (0 :: u32) @ rest)"
  shows "search_nodes lits start_one first_nr last_nr nodes_info s = Inl DivisionByZero"
proof -
  have count: "load_word 4 nodes_info t = Inr (0 :: u32)"
    if "mem_ok t" "heap_of t nodes_info = Some (enc_word 4 (0 :: u32) @ rest)" for t :: "'a client_scheme"
    by (simp add: load_word_at0 [OF that])
  let ?s1 = "snd (c_malloc 0 s)"
  let ?s2 = "snd (c_malloc 0 ?s1)"
  note k1 = malloc_keeps_object [OF ok table, of 0]
  note k2 = malloc_keeps_object [OF k1, of 0]
  note k3 = malloc_keeps_object [OF k2, of 0]
  show ?thesis
    by (simp add: search_nodes_def search_threads_def dic_nodes_connect_all_def Let_def case_prod_unfold count [OF ok table] count [OF k1] count [OF k3])
qed

definition client_without_nodes :: client where
  "client_without_nodes = \<lparr>blocks = [(1000, enc_word 4 (0 :: u32))], choices = [], conns = Map.empty, socks = Map.empty,
     fd_answers = [], connect_answers = [], bind_answers = [], listen_answers = [], accept_answers = [],
     uninit_destroyed = 0, hung_up = [], local_files = Map.empty\<rparr>"

theorem search_without_nodes_witness:
  "search_nodes \<lparr>LOCAL_SO_PATH = 1, REMOTE_NAME = 2, symbol_name = 3\<rparr> start_search RANGE_START RANGE_END 1000 client_without_nodes = Inl DivisionByZero"
proof (rule search_without_nodes)
  show "mem_ok client_without_nodes" "heap_of client_without_nodes 1000 = Some (enc_word 4 (0 :: u32) @ [])"
    by (simp_all add: client_without_nodes_def mem_ok_def heap_of_def)
qed

end
