(* ===== verification/Conversation.thy ===== *)
theory Conversation
  imports Client_Stock
begin

text \<open>
  A program that talks to several nodes: every call of the client library sends one request to one node and takes
  the node's next reply, and leaves the other connections and the objects of the program alone. The calls share
  the contract of the locale \<open>client_call\<close>, inside which a call is put into the course of a conversation.
\<close>

section \<open>Conversations\<close>

text \<open>\<open>talking device c s out inp\<close>: what has been sent on the connection, and what is still to be read.\<close>

definition talking :: "nat \<Rightarrow> dic_conn \<Rightarrow> 'a net_scheme \<Rightarrow> byte list \<Rightarrow> byte list \<Rightarrow> bool" where
  "talking device c s out inp \<longleftrightarrow>
     (\<exists>k. connected device c k s \<and> \<not> sk_reset k \<and> sk_out k = out \<and> concat (sk_in k) = inp)"

text \<open>The connections of a program, each with its own socket.\<close>

type_synonym dialogue = "nat \<rightharpoonup> dic_conn \<times> byte list \<times> byte list"

definition conversation :: "dialogue \<Rightarrow> 'a net_scheme \<Rightarrow> bool" where
  "conversation D s \<longleftrightarrow>
     (\<forall>d c out inp. D d = Some (c, out, inp) \<longrightarrow> talking d c s out inp) \<and>
     inj_on (\<lambda>d. sockfd (fst (the (D d)))) (dom D)"

lemma conversation_talking: "conversation D s \<Longrightarrow> D d = Some (c, out, inp) \<Longrightarrow> talking d c s out inp"
  by (simp add: conversation_def)

lemma conversation_more:
  fixes s t :: "'a net_scheme"
  assumes "conversation D s" "mem.more t = mem.more s"
  shows "conversation D t"
  using assms(1) connected_more [OF _ assms(2)] unfolding conversation_def talking_def by blast

lemma conversation_call:
  assumes D: "conversation D s" "D d = Some (c, out, inp)" and k: "connected d c k s" "\<not> sk_reset k" "sk_out k = out"
    and t: "conns t = conns s" "socks t = (socks s)(sockfd c \<mapsto> k\<lparr>sk_in := ks, sk_out := sk_out k @ bytes\<rparr>)"
      "concat ks = rest" "[] \<notin> set ks"
  shows "conversation (D(d \<mapsto> (c, out @ bytes, rest))) t"
proof -
  have "talking d c t (out @ bytes) rest"
    using k t unfolding talking_def connected_def
    by (intro exI [of _ "k\<lparr>sk_in := ks, sk_out := sk_out k @ bytes\<rparr>"]) simp
  moreover have "talking d' c' t out' inp'" if "d' \<noteq> d" "D d' = Some (c', out', inp')" for d' c' out' inp'
  proof -
    have "sockfd c' \<noteq> sockfd c" using D that by (auto simp: conversation_def inj_on_def dom_def)
    with conversation_talking [OF D(1) that(2)] t(1,2) show ?thesis by (auto simp: talking_def connected_def)
  qed
  moreover have "(\<lambda>x. sockfd (fst (the ((D(d \<mapsto> (c, out @ bytes, rest))) x)))) = (\<lambda>x. sockfd (fst (the (D x))))"
    "dom (D(d \<mapsto> (c, out @ bytes, rest))) = dom D" using D(2) by auto
  then have "inj_on (\<lambda>x. sockfd (fst (the ((D(d \<mapsto> (c, out @ bytes, rest))) x)))) (dom (D(d \<mapsto> (c, out @ bytes, rest))))"
    using D(1) by (simp only: conversation_def)
  ultimately show ?thesis unfolding conversation_def by (auto simp del: inj_on_fun_updI)
qed

section \<open>A call in the course of a conversation\<close>

text \<open>What a call asks of the allocator.\<close>

definition call_memory :: "request \<Rightarrow> byte list \<Rightarrow> nat list" where
  "call_memory req rb = [length (request_bytes req), 4, length rb]"

text \<open>\<open>fit\<close> is what the call needs of the objects of the program, \<open>effect\<close> what it writes into them.\<close>

locale client_call =
  fixes call :: "'a net_scheme \<Rightarrow> ('r \<times> 'a net_scheme) res"
    and req :: request and device :: nat and rb :: "byte list" and result :: 'r
    and fit :: "'a net_scheme \<Rightarrow> bool" and effect :: "'a net_scheme \<Rightarrow> 'a net_scheme"
  assumes answered: "fit s \<Longrightarrow> calling req device c k rb rest s \<Longrightarrow>
      \<exists>t. call s = Inr (result, t) \<and> call_done (effect s) c k (request_bytes req) rest t"
    and takes: "yields (\<lambda>x. takes3 s (snd x)) (call s)"
    and short: "fit s \<Longrightarrow> length rb < 2 ^ 31"
    and writes: "fit s \<Longrightarrow> mem_ok s \<Longrightarrow> mem_ok (effect s) \<and> stocked ns (effect s) = stocked ns s \<and>
      mem.more (effect s) = mem.more s \<and> choices (effect s) = choices s"
begin

lemma step:
  assumes D: "conversation D s" "D device = Some (c, out, reply_bytes rb @ rest)"
    and s: "mem_ok s" "stocked (call_memory req rb @ ns) s" "fit s"
  obtains t where "call s = Inr (result, t)" "conversation (D(device \<mapsto> (c, out @ request_bytes req, rest))) t"
    "mem_ok t" "stocked ns t" "heap_of t = heap_of (effect s)" "net.more t = net.more s"
proof -
  from conversation_talking [OF D] obtain k where k: "connected device c k s" "\<not> sk_reset k" "sk_out k = out"
    "concat (sk_in k) = reply_bytes rb @ rest" by (auto simp: talking_def)
  have "stocked [length (request_bytes req), 4, length rb] s"
    using stocked_prefix [of "call_memory req rb" ns s] s(2) by (simp add: call_memory_def)
  with k s(1) short [OF s(3)] have "calling req device c k rb rest s" unfolding calling_def by blast
  from answered [OF s(3) this] obtain t where t: "call s = Inr (result, t)"
    "call_done (effect s) c k (request_bytes req) rest t" by blast
  note w = writes [OF s(3,1)]
  have tk: "takes3 (effect s) t" using takes [of s] t(1) w by (simp add: yields_def takes3_def)
  have ok: "mem_ok t" "heap_of t = heap_of (effect s)" "net.more t = net.more (effect s)" using t(2) by (simp_all add: call_done_def)
  have "stocked ns t"
    using stocked_after [OF _ call_done_extents [OF t(2)] ok(1) tk] w s(2) by (auto simp: call_memory_def)
  moreover from t(2) obtain ks where ks: "concat ks = rest" "[] \<notin> set ks" "conns t = conns (effect s)"
    "socks t = (socks (effect s))(sockfd c \<mapsto> k\<lparr>sk_in := ks, sk_out := sk_out k @ request_bytes req\<rparr>)"
    by (auto simp: call_done_def)
  have more: "mem.more (effect s) = mem.more s" using w by blast
  have "conversation (D(device \<mapsto> (c, out @ request_bytes req, rest))) t"
    using ks more_net [OF more] by (intro conversation_call [OF D k(1-3)]) simp_all
  ultimately show ?thesis using that t(1) ok net_more_of_mem [OF more] by simp
qed

end

section \<open>The calls\<close>

lemma dec_one_byte: "dec_word (Suc 0) [e] = (e :: byte)"
  by (simp add: dec_word_def)

lemma length_ptr_reply [simp]: "length (ptr_reply q) = 8"
  by (simp add: ptr_reply_def)

interpretation malloc_call: client_call "dic_rmalloc device n" "Malloc n" device "ptr_reply q"
  "\<lparr>r_ptr = word_of_nat q, r_device = device\<rparr>" "\<lambda>s. True" "\<lambda>s. s"
  for device n q
  by unfold_locales (auto dest!: dic_rmalloc_call simp: ptr_reply_def intro: calls_take)

interpretation free_call: client_call "dic_rfree p" "Free (r_ptr p)" "r_device p" "[e]" "scast e" "\<lambda>s. True" "\<lambda>s. s"
  for p e
  by unfold_locales (auto dest!: dic_rfree_call simp: dec_one_byte intro: calls_take)

interpretation c2n_call: client_call "dic_memcpy_c2n l p n" "Memcpy_c2n (r_ptr p) bs" "r_device p" "enc_word 4 e" e
  "\<lambda>s. in_object l (unat n) s \<and> client_bytes l (unat n) s = bs \<and> unat n < 2 ^ 30" "\<lambda>s. s"
  for l p n bs e
  by unfold_locales (auto dest!: dic_memcpy_c2n_call intro: calls_take)

interpretation n2c_call: client_call "dic_memcpy_n2c a p n" "Memcpy_n2c (r_ptr p) n" "r_device p" "enc_word 4 n @ v" 0
  "\<lambda>s. length v = unat n \<and> unat n < 2 ^ 30 \<and> (\<exists>bs. heap_of s a = Some bs \<and> unat n \<le> length bs)"
  "\<lambda>s. set_block a (patch (the (heap_of s a)) 0 v) s"
  for a p n v
proof
  fix s :: "'a net_scheme" and c k rest ns
  assume fit: "length v = unat n \<and> unat n < 2 ^ 30 \<and> (\<exists>bs. heap_of s a = Some bs \<and> unat n \<le> length bs)"
  then obtain bs where bs: "heap_of s a = Some bs" "unat n \<le> length bs" by blast
  show "length (enc_word 4 n @ v) < 2 ^ 31" using fit by simp
  show "\<exists>t. dic_memcpy_n2c a p n s = Inr (0, t) \<and>
      call_done (set_block a (patch (the (heap_of s a)) 0 v) s) c k (request_bytes (Memcpy_n2c (r_ptr p) n)) rest t"
    if "calling (Memcpy_n2c (r_ptr p) n) (r_device p) c k (enc_word 4 n @ v) rest s"
    using dic_memcpy_n2c_call [OF that refl, of a a 0 bs] fit bs by simp
  have len: "length (patch bs 0 v) = length bs" using fit bs by simp
  show "mem_ok (set_block a (patch (the (heap_of s a)) 0 v) s) \<and>
      stocked ns (set_block a (patch (the (heap_of s a)) 0 v) s) = stocked ns s \<and>
      mem.more (set_block a (patch (the (heap_of s a)) 0 v) s) = mem.more s \<and>
      choices (set_block a (patch (the (heap_of s a)) 0 v) s) = choices s" if "mem_ok s"
    using set_block_mem_ok [OF that bs(1) len] stocked_set_block [OF that bs(1) len] bs(1) by (simp add: set_block_def)
qed (rule calls_take)

interpretation so_load_call: client_call "dic_so_load device name" "So_load t" device "ptr_reply h"
  "\<lparr>r_ptr = word_of_nat h, r_device = device\<rparr>" "\<lambda>s. text_in name s \<and> client_text name s = t \<and> length t < 2 ^ 30" "\<lambda>s. s"
  for device name t h
  by unfold_locales (auto dest!: dic_so_load_call simp: ptr_reply_def intro: calls_take)

interpretation so_unload_call: client_call "dic_so_unload h" "So_unload (r_ptr h)" "r_device h" "enc_word 4 e" e
  "\<lambda>s. True" "\<lambda>s. s" for h e
  by unfold_locales (auto dest!: dic_so_unload_call intro: calls_take)

interpretation run_call: client_call "dic_rthread_run f a" "Run (r_ptr f) (r_ptr a)" "r_device f" "enc_word 8 tid"
  "\<lparr>rt_tid = tid, rt_device = r_device f\<rparr>" "\<lambda>s. True" "\<lambda>s. s" for f a tid
  by unfold_locales (auto dest!: dic_rthread_run_call intro: calls_take)

interpretation join_call: client_call "dic_rthread_join t" "Join (rt_tid t)" "rt_device t" "ptr_reply q"
  "\<lparr>r_ptr = word_of_nat q, r_device = rt_device t\<rparr>" "\<lambda>s. True" "\<lambda>s. s" for t q
  by unfold_locales (auto dest!: dic_rthread_join_call simp: ptr_reply_def intro: calls_take)

interpretation upload_call: client_call "dic_so_upload device path name" "So_upload t bytes" device "enc_word 4 e" e
  "\<lambda>s. text_in path s \<and> text_in name s \<and> client_text name s = t \<and> length t < 2 ^ 29 \<and>
     local_files s (client_text path s) = Some bytes \<and> length bytes < 2 ^ 29" "\<lambda>s. s" for device path name t bytes e
  by unfold_locales (auto dest!: dic_so_upload_call intro: dic_so_upload_takes)

text \<open>The steps for pointers and threads given by their parts.\<close>

lemmas malloc_step = malloc_call.step [OF _ _ _ _ TrueI]
lemmas free_step = free_call.step [where p = "\<lparr>r_ptr = q, r_device = d\<rparr>" for q d, unfolded dic_rvoid_ptr.simps, OF _ _ _ _ TrueI]
lemmas c2n_step = c2n_call.step [where p = "\<lparr>r_ptr = q, r_device = d\<rparr>" for q d, unfolded dic_rvoid_ptr.simps]
lemmas n2c_step = n2c_call.step [where p = "\<lparr>r_ptr = q, r_device = d\<rparr>" for q d, unfolded dic_rvoid_ptr.simps]
lemmas run_step = run_call.step [where f = "\<lparr>r_ptr = q, r_device = d\<rparr>" and a = "\<lparr>r_ptr = q', r_device = d'\<rparr>" for q d q' d',
    unfolded dic_rvoid_ptr.simps, OF _ _ _ _ TrueI]
lemmas join_step = join_call.step [where t = "\<lparr>rt_tid = t, rt_device = d\<rparr>" for t d, unfolded dic_rthread.simps, OF _ _ _ _ TrueI]
lemmas so_unload_step = so_unload_call.step [where h = "\<lparr>r_ptr = q, r_device = d\<rparr>" for q d, unfolded dic_rvoid_ptr.simps, OF _ _ _ _ TrueI]

end
