(* ===== verification/Demo_Properties.thy ===== *)
theory Demo_Properties
  imports Demo_Programs Conversation Client_Properties
begin

text \<open>
  The search programs as conversations with all their nodes: starting the thread of a core and collecting its
  result are four or three calls of the client library each; the loops over the nodes, the cores and the
  threads put them in order.
\<close>

section \<open>The threads of a search\<close>

text \<open>A thread: its node, the function, its part of the range, where its argument is on the node, its number, where
  its result is on the node, and the primes it found.\<close>

record search_thread =
  th_device :: nat
  th_func :: u64
  th_part :: "c_int \<times> c_int"
  th_args :: nat
  th_id :: u64
  th_result :: nat
  th_primes :: "u64 list"

definition args_bytes :: "search_thread \<Rightarrow> byte list" where
  "args_bytes x = enc_find_primes_args \<lparr>range_start = scast (fst (th_part x)), range_end = scast (snd (th_part x))\<rparr>"

definition number_bytes :: "u64 list \<Rightarrow> byte list" where
  "number_bytes ps = concat (map (enc_word 8) ps)"

lemma length_args_bytes [simp]: "length (args_bytes x) = 16"
  by (simp add: args_bytes_def enc_find_primes_args_def)

lemma length_number_bytes [simp]: "length (number_bytes ps) = 8 * length ps"
  by (induction ps) (simp_all add: number_bytes_def)

text \<open>What is said when a thread is started, and what the program's allocator is asked for.\<close>

definition start_replies :: "search_thread \<Rightarrow> byte list" where
  "start_replies x = reply_bytes (ptr_reply (th_args x)) @ reply_bytes (enc_word 4 (0 :: u32)) @ reply_bytes (enc_word 8 (th_id x))"

definition start_requests :: "search_thread \<Rightarrow> byte list" where
  "start_requests x = request_bytes (Malloc 16) @ request_bytes (Memcpy_c2n (word_of_nat (th_args x)) (args_bytes x)) @
     request_bytes (Run (th_func x) (word_of_nat (th_args x)))"

definition start_memory :: "nat list" where
  "start_memory = [16, 12, 4, 8, 36, 4, 4, 24, 4, 8]"

text \<open>What is said when its result is collected.\<close>

definition result_replies :: "search_thread \<Rightarrow> byte list" where
  "result_replies x = reply_bytes (ptr_reply (th_result x)) @
     reply_bytes (enc_word 4 (8 :: u32) @ enc_word 8 (word_of_nat (length (th_primes x)) :: u64)) @
     reply_bytes (enc_word 4 (word_of_nat (8 * length (th_primes x)) :: u32) @ number_bytes (th_primes x)) @ reply_bytes [0]"

definition result_requests :: "search_thread \<Rightarrow> byte list" where
  "result_requests x = request_bytes (Join (th_id x)) @ request_bytes (Memcpy_n2c (word_of_nat (th_result x)) 8) @
     request_bytes (Memcpy_n2c (word_of_nat (th_result x) + 8) (word_of_nat (8 * length (th_primes x)))) @
     request_bytes (Free (word_of_nat (th_result x)))"

definition result_memory :: "search_thread \<Rightarrow> nat list" where
  "result_memory x = (let n = 8 * length (th_primes x) in [16, 4, 8, 8, 20, 4, 12, n, 20, 4, 4 + n, 16, 4, 1])"

section \<open>Starting one thread\<close>

lemma stocked_del_block: "stocked ns s \<Longrightarrow> stocked ns (del_block a s)"
  unfolding stocked_def by (rule serves_fewer [where B = "blocks s"]) (force simp: del_block_def drop_block_def covers_def)+

lemma del_block_talks: "conversation D s \<Longrightarrow> conversation D (del_block a s)" for s :: "'a net_scheme"
  by (rule conversation_more) simp_all

lemma net_more_blocks [simp]: "net.more (add_block c s) = net.more s" "net.more (del_block a s) = net.more s"
  by (simp_all add: add_block_def del_block_def)

lemma request_lengths: "length (request_bytes (Malloc n)) = 12" "length (request_bytes (Memcpy_c2n q bs)) = 20 + length bs"
  "length (request_bytes (Run f a)) = 24" "length (request_bytes (Join t)) = 16" "length (request_bytes (Memcpy_n2c q n)) = 20"
  "length (request_bytes (Free q)) = 16"
  by (simp_all add: length_request_bytes layout_lengths)

lemma local_object:
  fixes s :: "'a net_scheme"
  assumes "stocked (n # ns) s" "mem_ok s" "length v = n" "conversation D s"
  obtains a s1 s2 j where "c_alloca n s = Inr (a, s1)" "store a v s1 = Inr s2" "mem_ok s2" "stocked ns s2" "heap_of s a = None"
    "heap_of s2 = (heap_of s)(a \<mapsto> v @ j)" "conversation D s2" "net.more s2 = net.more s"
proof -
  from assms(1) obtain c where c: "grants n c s" "stocked ns (add_block c s)" by (rule stocked_Cons)
  let ?m = "add_block c s" and ?v = "v @ drop n (snd c)"
  have m: "mem_ok ?m" "heap_of ?m (fst c) = Some (snd c)" "length ?v = length (snd c)"
    using grants_mem_ok [OF c(1) assms(2)] grants_length [OF c(1)] assms(3) by simp_all
  have "store (fst c) v ?m = Inr (set_block (fst c) ?v ?m)"
    using store_in_block0 [OF m(1,2), of v] m(3) assms(3) by (simp add: patch_def)
  moreover have "heap_of (set_block (fst c) ?v ?m) = (heap_of s)(fst c \<mapsto> ?v)" by (auto simp: fun_eq_iff)
  moreover have "conversation D (set_block (fst c) ?v ?m)"
    by (rule conversation_more [OF assms(4)]) (simp add: set_block_def add_block_def)
  ultimately show ?thesis
    using that [of "fst c" ?m] c_alloca_grants [OF c(1)] set_block_mem_ok [OF m] stocked_set_block [OF m] c(2)
      grants_fresh [OF c(1) assms(2)] by (simp add: set_block_def add_block_def)
qed

lemma in_object_base: "heap_of s a = Some bs \<Longrightarrow> n \<le> length bs \<Longrightarrow> in_object a n s"
  unfolding in_object_def by (intro exI [of _ a] exI [of _ 0] exI [of _ bs]) simp

lemma start_search_step:
  fixes s :: "'a client_scheme"
  assumes D: "conversation D s" "D (th_device x) = Some (c, out, start_replies x @ rest)"
    and s: "mem_ok s" "stocked (start_memory @ ns) s"
  obtains t where "start_search (th_device x) \<lparr>r_ptr = th_func x, r_device = th_device x\<rparr> (fst (th_part x)) (snd (th_part x)) s =
      Inr (\<lparr>rt_tid = th_id x, rt_device = th_device x\<rparr>, t)"
    "conversation (D(th_device x \<mapsto> (c, out @ start_requests x, rest))) t" "mem_ok t" "stocked ns t" "heap_of t = heap_of s"
proof -
  let ?d = "th_device x" and ?a = "word_of_nat (th_args x) :: u64"
  let ?p = "\<lparr>r_ptr = ?a, r_device = ?d\<rparr>" and ?f = "\<lparr>r_ptr = th_func x, r_device = ?d\<rparr>"
  have st: "stocked (16 # call_memory (Malloc 16) (ptr_reply (th_args x)) @ call_memory (Memcpy_c2n ?a (args_bytes x)) (enc_word 4 (0 :: u32)) @
      call_memory (Run (th_func x) ?a) (enc_word 8 (th_id x)) @ ns) s"
    using s(2) by (simp add: start_memory_def call_memory_def request_lengths)
  obtain l s1 s2 j where l: "c_alloca 16 s = Inr (l, s1)" "store l (args_bytes x) s1 = Inr s2" "mem_ok s2"
    "stocked (call_memory (Malloc 16) (ptr_reply (th_args x)) @ call_memory (Memcpy_c2n ?a (args_bytes x)) (enc_word 4 (0 :: u32)) @
      call_memory (Run (th_func x) ?a) (enc_word 8 (th_id x)) @ ns) s2" "heap_of s l = None"
    "heap_of s2 = (heap_of s)(l \<mapsto> args_bytes x @ j)" "conversation D s2"
    by (rule local_object [OF st s(1) length_args_bytes D(1)])
  have D1: "D ?d = Some (c, out, reply_bytes (ptr_reply (th_args x)) @ reply_bytes (enc_word 4 (0 :: u32)) @ reply_bytes (enc_word 8 (th_id x)) @ rest)"
    using D(2) by (simp add: start_replies_def)
  obtain s3 where s3: "dic_rmalloc ?d 16 s2 = Inr (?p, s3)"
    "conversation (D(?d \<mapsto> (c, out @ request_bytes (Malloc 16), reply_bytes (enc_word 4 (0 :: u32)) @ reply_bytes (enc_word 8 (th_id x)) @ rest))) s3"
    "mem_ok s3" "stocked (call_memory (Memcpy_c2n ?a (args_bytes x)) (enc_word 4 (0 :: u32)) @
      call_memory (Run (th_func x) ?a) (enc_word 8 (th_id x)) @ ns) s3" "heap_of s3 = heap_of s2"
    by (rule malloc_step [OF l(7) D1 l(3,4)])
  have fit: "in_object l (unat (16 :: c_int)) s3 \<and> client_bytes l (unat (16 :: c_int)) s3 = args_bytes x \<and> unat (16 :: c_int) < 2 ^ 30"
    using client_bytes_block [OF s3(3), of l "args_bytes x @ j" 0 16] in_object_base [of s3 l "args_bytes x @ j" 16] l(6) s3(5)
    by simp
  obtain s4 where s4: "dic_memcpy_c2n l ?p 16 s3 = Inr (0, s4)"
    "conversation (D(?d \<mapsto> (c, out @ request_bytes (Malloc 16) @ request_bytes (Memcpy_c2n ?a (args_bytes x)), reply_bytes (enc_word 8 (th_id x)) @ rest))) s4"
    "mem_ok s4" "stocked (call_memory (Run (th_func x) ?a) (enc_word 8 (th_id x)) @ ns) s4" "heap_of s4 = heap_of s3"
    by (rule c2n_step [OF s3(2) fun_upd_same s3(3,4) fit, unfolded fun_upd_upd append_assoc])
  obtain s5 where s5: "dic_rthread_run ?f ?p s4 = Inr (\<lparr>rt_tid = th_id x, rt_device = ?d\<rparr>, s5)"
    "conversation (D(?d \<mapsto> (c, out @ start_requests x, rest))) s5" "mem_ok s5" "stocked ns s5" "heap_of s5 = heap_of s4"
    by (rule run_step [OF s4(2) fun_upd_same s4(3,4), where d' = ?d, unfolded fun_upd_upd append_assoc, folded start_requests_def])
  have "heap_of (del_block l s5) = heap_of s" using s5(5) s4(5) s3(5) l(5,6) by (auto simp: fun_eq_iff)
  moreover have "start_search ?d ?f (fst (th_part x)) (snd (th_part x)) s = Inr (\<lparr>rt_tid = th_id x, rt_device = ?d\<rparr>, del_block l s5)"
    using l(1,2) s3(1) s4(1) s5(1) by (simp add: start_search_def args_bytes_def dic_memcpy_def LOCAL_2_REMOTE_def)
  ultimately show ?thesis
    using that s5(2-4) by (simp add: del_block_talks stocked_del_block)
qed

section \<open>Collecting one result\<close>

text \<open>Bytes of a node fetched into a new object.\<close>

lemma fetch_step:
  fixes s :: "'a net_scheme"
  assumes D: "conversation D s" "D d = Some (c, out, reply_bytes (enc_word 4 n @ v) @ rest)" and ok: "mem_ok s"
    and st: "stocked (m # call_memory (Memcpy_n2c q n) (enc_word 4 n @ v) @ ns) s" and v: "length v = unat n" "unat n < 2 ^ 30" "unat n \<le> m"
  obtains x t where "grants m x s" "heap_of s (fst x) = None"
    "dic_memcpy_n2c (fst x) \<lparr>r_ptr = q, r_device = d\<rparr> n (add_block x s) = Inr (0, t)"
    "conversation (D(d \<mapsto> (c, out @ request_bytes (Memcpy_n2c q n), rest))) t" "mem_ok t" "stocked ns t"
    "heap_of t = (heap_of s)(fst x \<mapsto> v @ drop (unat n) (snd x))"
proof -
  obtain x where x: "grants m x s" "stocked (call_memory (Memcpy_n2c q n) (enc_word 4 n @ v) @ ns) (add_block x s)"
    using st by (rule stocked_Cons)
  have tx: "conversation D (add_block x s)" by (rule conversation_more [OF D(1)]) simp
  have hx: "heap_of (add_block x s) (fst x) = Some (snd x)" "unat n \<le> length (snd x)"
    using grants_length [OF x(1)] v(3) by simp_all
  with v have fit: "length v = unat n \<and> unat n < 2 ^ 30 \<and> (\<exists>bs. heap_of (add_block x s) (fst x) = Some bs \<and> unat n \<le> length bs)" by simp
  let ?p = "\<lparr>r_ptr = q, r_device = d\<rparr>"
  obtain t where t: "dic_memcpy_n2c (fst x) ?p n (add_block x s) = Inr (0, t)"
    "conversation (D(d \<mapsto> (c, out @ request_bytes (Memcpy_n2c q n), rest))) t" "mem_ok t" "stocked ns t"
    "heap_of t = heap_of (set_block (fst x) (patch (the (heap_of (add_block x s) (fst x))) 0 v) (add_block x s))"
    by (rule n2c_step [OF tx D(2) grants_mem_ok [OF x(1) ok] x(2) fit])
  moreover have "heap_of t = (heap_of s)(fst x \<mapsto> v @ drop (unat n) (snd x))"
    using t(5) v(1) by (auto simp: patch_def fun_eq_iff)
  ultimately show ?thesis using that [OF x(1) grants_fresh [OF x(1) ok]] by blast
qed

lemma collected_size:
  assumes "8 * n < 2 ^ 30"
  shows "unat (word_of_nat n :: u64) = n" "unat (8 * word_of_nat n :: u64) = 8 * n" "unat (word_of_nat (8 * n) :: u32) = 8 * n"
    "ucast (word_of_nat n * 8 :: u64) = (word_of_nat (8 * n) :: u32)" "ucast (word_of_nat n :: u64) = (word_of_nat n :: u32)"
proof -
  show "unat (word_of_nat n :: u64) = n" "unat (word_of_nat (8 * n) :: u32) = 8 * n" using assms by (simp_all only: unat_of_nat) simp_all
  have "8 * word_of_nat n = (word_of_nat (8 * n) :: u64)" by simp
  then show "unat (8 * word_of_nat n :: u64) = 8 * n" using assms by (simp only: unat_of_nat) simp
  show "ucast (word_of_nat n :: u64) = (word_of_nat n :: u32)" using assms by (intro narrow_nat) simp
  have "word_of_nat n * 8 = (word_of_nat (8 * n) :: u64)" by simp
  then show "ucast (word_of_nat n * 8 :: u64) = (word_of_nat (8 * n) :: u32)" using narrow_nat [of "8 * n"] assms by (simp add: mult.commute)
qed

lemma collect_one_step:
  fixes s :: "'a client_scheme"
  assumes D: "conversation D s" "D (th_device x) = Some (c, out, result_replies x @ rest)" and ok: "mem_ok s"
    and st: "stocked (result_memory x @ ns) s" and small: "8 * length (th_primes x) < 2 ^ 30"
  obtains t where "collect_one \<lparr>rt_tid = th_id x, rt_device = th_device x\<rparr> sofar s = Inr (sofar + word_of_nat (length (th_primes x)), t)"
    "conversation (D(th_device x \<mapsto> (c, out @ result_requests x, rest))) t" "mem_ok t" "stocked ns t" "heap_of t = heap_of s"
proof -
  let ?d = "th_device x" and ?q = "word_of_nat (th_result x) :: u64" and ?ps = "th_primes x"
  let ?n = "word_of_nat (length ?ps) :: u64" and ?l = "word_of_nat (8 * length ?ps) :: u32" and ?v = "number_bytes ?ps"
  let ?p = "\<lparr>r_ptr = ?q, r_device = ?d\<rparr>" and ?t = "\<lparr>rt_tid = th_id x, rt_device = ?d\<rparr>"
  let ?r1 = "Join (th_id x)" and ?r2 = "Memcpy_n2c ?q 8" and ?r3 = "Memcpy_n2c (?q + 8) ?l" and ?r4 = "Free ?q"
  let ?b2 = "enc_word 4 (8 :: u32) @ enc_word 8 ?n" and ?b3 = "enc_word 4 ?l @ ?v"
  note n = collected_size [OF small]
  have st1: "stocked (call_memory ?r1 (ptr_reply (th_result x)) @ 8 # call_memory ?r2 ?b2 @ 8 * length ?ps # call_memory ?r3 ?b3 @
      call_memory ?r4 [0] @ ns) s"
    using st by (simp add: result_memory_def call_memory_def request_lengths Let_def)
  have D1: "D ?d = Some (c, out, reply_bytes (ptr_reply (th_result x)) @ reply_bytes ?b2 @ reply_bytes ?b3 @ reply_bytes [0] @ rest)"
    using D(2) by (simp add: result_replies_def)
  obtain s1 where s1: "dic_rthread_join ?t s = Inr (?p, s1)"
    "conversation (D(?d \<mapsto> (c, out @ request_bytes ?r1, reply_bytes ?b2 @ reply_bytes ?b3 @ reply_bytes [0] @ rest))) s1" "mem_ok s1"
    "stocked (8 # call_memory ?r2 ?b2 @ 8 * length ?ps # call_memory ?r3 ?b3 @ call_memory ?r4 [0] @ ns) s1" "heap_of s1 = heap_of s"
    by (rule join_step [OF D(1) D1 ok st1])
  let ?D2 = "D(?d \<mapsto> (c, (out @ request_bytes ?r1) @ request_bytes ?r2, reply_bytes ?b3 @ reply_bytes [0] @ rest))"
  obtain a s3 where a: "grants 8 a s1" "heap_of s1 (fst a) = None" "dic_memcpy_n2c (fst a) ?p 8 (add_block a s1) = Inr (0, s3)"
    "conversation ?D2 s3" "mem_ok s3" "stocked (8 * length ?ps # call_memory ?r3 ?b3 @ call_memory ?r4 [0] @ ns) s3"
    "heap_of s3 = (heap_of s1)(fst a \<mapsto> enc_word 8 ?n @ drop (unat (8 :: u32)) (snd a))"
    by (rule fetch_step [OF s1(2) fun_upd_same s1(3,4), unfolded fun_upd_upd]) simp_all
  let ?D3 = "D(?d \<mapsto> (c, ((out @ request_bytes ?r1) @ request_bytes ?r2) @ request_bytes ?r3, reply_bytes [0] @ rest))"
  obtain b s5 where b: "grants (8 * length ?ps) b s3" "heap_of s3 (fst b) = None"
    "dic_memcpy_n2c (fst b) (?p\<lparr>r_ptr := ?q + 8\<rparr>) ?l (add_block b s3) = Inr (0, s5)"
    "conversation ?D3 s5" "mem_ok s5" "stocked (call_memory ?r4 [0] @ ns) s5" "heap_of s5 = (heap_of s3)(fst b \<mapsto> ?v @ drop (unat ?l) (snd b))"
    by (rule fetch_step [OF a(4) fun_upd_same a(5,6), unfolded fun_upd_upd]) (use n(3) small in simp_all)
  obtain s6 where s6: "dic_rfree ?p s5 = Inr (0, s6)" "conversation (D(?d \<mapsto> (c, out @ result_requests x, rest))) s6"
    "mem_ok s6" "stocked ns s6" "heap_of s6 = heap_of s5"
    by (rule free_step [OF b(4) fun_upd_same b(5,6), unfolded fun_upd_upd append_assoc signed_0, folded result_requests_def])
  let ?u = "del_block (fst a) (del_block (fst b) s6)"
  have ld: "load_word 8 (fst a) s3 = Inr ?n" using a(7) by (simp add: load_word_at0 [OF a(5)])
  have fr: "c_free (fst b) s6 = Inr (del_block (fst b) s6)"
    using s6(5) b(7) by (intro c_free_block [OF s6(3)] grants_pos [OF b(1)]) simp_all
  have run: "collect_one ?t sofar s = Inr (sofar + word_of_nat (length ?ps), ?u)"
    using b(3) by (simp add: collect_one_def s1(1) c_alloca_grants [OF a(1)] c_malloc_grants [OF b(1)] dic_memcpy_def
        LOCAL_2_REMOTE_def REMOTE_2_LOCAL_def a(3) ld n s6(1) fr)
  have "fst b \<noteq> fst a" using a(7) b(2) by auto
  then have "heap_of ?u = heap_of s" using s6(5) b(2,7) a(2,7) s1(5) by (auto simp: fun_eq_iff)
  with that [OF run] s6(2-4) show ?thesis by (simp add: del_block_talks stocked_del_block)
qed

section \<open>All nodes at once\<close>

text \<open>What concerns the node \<open>d\<close>, and the state of all connections \<open>C\<close>.\<close>

definition on_node :: "nat \<Rightarrow> (search_thread \<Rightarrow> byte list) \<Rightarrow> search_thread list \<Rightarrow> byte list" where
  "on_node d f xs = concat (map f (filter (\<lambda>x. th_device x = d) xs))"

definition dialogues :: "(nat \<rightharpoonup> dic_conn) \<Rightarrow> (nat \<Rightarrow> byte list) \<Rightarrow> (nat \<Rightarrow> byte list) \<Rightarrow> dialogue" where
  "dialogues C out inp = (\<lambda>d. map_option (\<lambda>c. (c, out d, inp d)) (C d))"

lemma on_node_simps [simp]:
  "on_node d f [] = []" "on_node d f (x # xs) = (if th_device x = d then f x else []) @ on_node d f xs"
  "on_node d f (xs @ ys) = on_node d f xs @ on_node d f ys"
  by (simp_all add: on_node_def)

text \<open>Exchanging the messages of one thread takes it from the list of those to come to the list of those done.\<close>

lemma dialogues_advance:
  assumes "C e = Some c" "th_device x = e"
  shows "dialogues C out (\<lambda>d. on_node d rp (x # xs) @ rest d) e = Some (c, out e, rp x @ on_node e rp xs @ rest e)"
    and "(dialogues C out (\<lambda>d. on_node d rp (x # xs) @ rest d))(e \<mapsto> (c, out e @ rq x, on_node e rp xs @ rest e)) =
      dialogues C (\<lambda>d. out d @ on_node d rq [x]) (\<lambda>d. on_node d rp xs @ rest d)"
  using assms by (auto simp: dialogues_def fun_eq_iff)

section \<open>Starting all threads\<close>

definition thread_bytes :: "search_thread \<Rightarrow> byte list" where
  "thread_bytes x = enc_word 8 (th_id x) @ enc_word 8 (word_of_nat (th_device x) :: u64)"

definition threads_bytes :: "search_thread list \<Rightarrow> byte list" where
  "threads_bytes xs = concat (map thread_bytes xs)"

lemma length_thread_bytes [simp]: "length (thread_bytes x) = 16"
  by (simp add: thread_bytes_def)

lemma length_threads_bytes [simp]: "length (threads_bytes xs) = 16 * length xs"
  by (induction xs) (auto simp: threads_bytes_def)

lemma threads_bytes_simps [simp]: "threads_bytes [] = []" "threads_bytes (x # xs) = thread_bytes x @ threads_bytes xs"
  "threads_bytes (xs @ ys) = threads_bytes xs @ threads_bytes ys"
  by (simp_all add: threads_bytes_def)

lemma store_rthread_at:
  assumes "mem_ok s" "heap_of s a = Some (threads_bytes old @ sl)" "16 \<le> length sl"
  shows "store_rthread (a + sizeof_dic_rvoid_ptr * length old) \<lparr>rt_tid = th_id x, rt_device = th_device x\<rparr> s =
    Inr (set_block a (threads_bytes (old @ [x]) @ drop 16 sl) s)"
proof -
  let ?p = "threads_bytes old" and ?t = "enc_word 8 (th_id x)" and ?d = "enc_word 8 (word_of_nat (th_device x) :: u64)"
  have "patch (?p @ sl) (16 * length old) ?t = ?p @ ?t @ drop 8 sl"
    using patch_right [of ?p "16 * length old" sl 0 ?t] by (simp add: patch_def)
  then have st1: "store (a + 16 * length old) ?t s = Inr (set_block a (?p @ ?t @ drop 8 sl) s)"
    using store_in_block [OF assms(1,2), of "16 * length old" ?t] assms(3) by simp
  let ?s1 = "set_block a (?p @ ?t @ drop 8 sl) s"
  have "length (?p @ ?t @ drop 8 sl) = length (?p @ sl)" using assms(3) by simp
  note s1 = set_block_mem_ok [OF assms(1,2) this]
  have "patch (?p @ ?t @ drop 8 sl) (16 * length old + 8) ?d = ?p @ ?t @ ?d @ drop 16 sl"
    using patch_right [of "?p @ ?t" "16 * length old + 8" "drop 8 sl" 0 ?d] by (simp add: patch_def)
  moreover have "store (a + (16 * length old + 8)) ?d ?s1 =
      Inr (set_block a (patch (?p @ ?t @ drop 8 sl) (16 * length old + 8) ?d) s)"
    using assms by (intro store_set_block [OF assms(1,2)]) simp_all
  ultimately show ?thesis
    using st1 by (simp add: store_rthread_def store_rptr_def store_word_def sizeof_dic_rvoid_ptr_def thread_bytes_def add.assoc)
qed

lemma start_cores_step:
  fixes s :: "'a client_scheme"
  assumes "conversation (dialogues C out (\<lambda>d. on_node d start_replies xs @ rest d)) s" "mem_ok s"
    and "stocked (concat (replicate (length xs) start_memory) @ ns) s"
    and "heap_of s a = Some (threads_bytes old @ sl)" "16 * length xs \<le> length sl" "length old + length xs < 2 ^ 31"
    and "\<forall>x \<in> set xs. th_device x = dev \<and> th_func x = f" "C dev = Some c"
    and "map th_part xs = map (\<lambda>j. part (word_of_nat j)) [length old..<length old + length xs]"
  shows "\<exists>t. start_cores start_search part dev \<lparr>r_ptr = f, r_device = dev\<rparr> a (length xs) (word_of_nat (length old)) s =
        Inr (word_of_nat (length old + length xs), t) \<and>
      conversation (dialogues C (\<lambda>d. out d @ on_node d start_requests xs) rest) t \<and> mem_ok t \<and> stocked ns t \<and>
      heap_of t = (heap_of s)(a \<mapsto> threads_bytes (old @ xs) @ drop (16 * length xs) sl)"
  using assms
proof (induction xs arbitrary: s out old sl)
  case Nil
  then show ?case by (auto simp: fun_eq_iff)
next
  case (Cons x xs)
  let ?rest = "\<lambda>d. on_node d start_replies xs @ rest d" and ?i = "word_of_nat (length old) :: c_int"
  from Cons.prems(7) have x: "th_device x = dev" "th_func x = f" by simp_all
  have part: "part ?i = th_part x" "map th_part xs = map (\<lambda>j. part (word_of_nat j)) [length (old @ [x])..<length (old @ [x]) + length xs]"
    using Cons.prems(9) by (simp_all add: upt_conv_Cons del: upt_Suc)
  have st: "stocked (start_memory @ concat (replicate (length xs) start_memory) @ ns) s" using Cons.prems(3) by simp
  note adv = dialogues_advance(1) [of C dev c, OF Cons.prems(8) x(1)] dialogues_advance(2) [of C dev c, OF Cons.prems(8) x(1)]
  obtain s1 where s1: "start_search dev \<lparr>r_ptr = f, r_device = dev\<rparr> (fst (th_part x)) (snd (th_part x)) s =
      Inr (\<lparr>rt_tid = th_id x, rt_device = dev\<rparr>, s1)"
    "conversation (dialogues C (\<lambda>d. out d @ on_node d start_requests [x]) ?rest) s1" "mem_ok s1"
    "stocked (concat (replicate (length xs) start_memory) @ ns) s1" "heap_of s1 = heap_of s"
    by (rule start_search_step [where x = x, unfolded x(1,2), OF Cons.prems(1) adv(1) Cons.prems(2) st, unfolded adv(2)])
  have a1: "heap_of s1 a = Some (threads_bytes old @ sl)" "16 \<le> length sl" using Cons.prems(4,5) s1(5) by simp_all
  let ?v = "threads_bytes (old @ [x]) @ drop 16 sl"
  have sz: "size_of_int ?i = length old" using Cons.prems(6) by (intro size_of_int_nat) simp
  have st1: "store_rthread (a + sizeof_dic_rvoid_ptr * size_of_int ?i) \<lparr>rt_tid = th_id x, rt_device = dev\<rparr> s1 = Inr (set_block a ?v s1)"
    using store_rthread_at [OF s1(3) a1, of x] x(1) sz by simp
  have len: "length ?v = length (threads_bytes old @ sl)" using a1(2) by simp
  have "conversation (dialogues C (\<lambda>d. out d @ on_node d start_requests [x]) ?rest) (set_block a ?v s1)"
    by (rule conversation_more [OF s1(2)]) (simp add: set_block_def)
  moreover have "mem_ok (set_block a ?v s1)" "stocked (concat (replicate (length xs) start_memory) @ ns) (set_block a ?v s1)"
    using set_block_mem_ok [OF s1(3) a1(1) len] stocked_set_block [OF s1(3) a1(1) len] s1(4) by simp_all
  moreover have "heap_of (set_block a ?v s1) a = Some (threads_bytes (old @ [x]) @ drop 16 sl)" using a1(1) by simp
  moreover have "16 * length xs \<le> length (drop 16 sl)" "length (old @ [x]) + length xs < 2 ^ 31" using Cons.prems(5,6) by simp_all
  moreover have "\<forall>y \<in> set xs. th_device y = dev \<and> th_func y = f" using Cons.prems(7) by simp
  ultimately obtain t where t: "start_cores start_search part dev \<lparr>r_ptr = f, r_device = dev\<rparr> a (length xs) (word_of_nat (length (old @ [x])))
      (set_block a ?v s1) = Inr (word_of_nat (length (old @ [x]) + length xs), t)"
    "conversation (dialogues C (\<lambda>d. (out d @ on_node d start_requests [x]) @ on_node d start_requests xs) rest) t" "mem_ok t" "stocked ns t"
    "heap_of t = (heap_of (set_block a ?v s1))(a \<mapsto> threads_bytes ((old @ [x]) @ xs) @ drop (16 * length xs) (drop 16 sl))"
    using Cons.IH [OF _ _ _ _ _ _ _ Cons.prems(8) part(2)] by blast
  have "heap_of t = (heap_of s)(a \<mapsto> threads_bytes (old @ x # xs) @ drop (16 * length (x # xs)) sl)"
    using t(5) s1(5) by (auto simp: fun_eq_iff add.commute)
  moreover have "start_cores start_search part dev \<lparr>r_ptr = f, r_device = dev\<rparr> a (length (x # xs)) ?i s =
      Inr (word_of_nat (length old + length (x # xs)), t)"
    using s1(1) st1 t(1) part(1) by (simp add: add.commute add.left_commute)
  moreover have "(\<lambda>d. (out d @ on_node d start_requests [x]) @ on_node d start_requests xs) = (\<lambda>d. out d @ on_node d start_requests (x # xs))"
    by (simp add: fun_eq_iff)
  ultimately show ?case using t(2-4) by metis
qed

text \<open>The tables of the program: the answer of the main server, the connections and the loaded functions.\<close>

record search_node =
  sn_info :: dic_node_info
  sn_device :: nat
  sn_func :: u64
  sn_threads :: "search_thread list"

interpretation word64_codec: packed "enc_word 8 :: u64 \<Rightarrow> byte list" "dec_word 8" 8
  by unfold_locales simp_all

interpretation rptr_codec: packed "\<lambda>(p, d). enc_word 8 (p :: u64) @ enc_word 8 (d :: u64)" "\<lambda>bs. (dec_word 8 bs, dec_word 8 (drop 8 bs))" 16
  by unfold_locales auto

definition devices_bytes :: "search_node list \<Rightarrow> byte list" where
  "devices_bytes P = concat (map (enc_word 8) (map (\<lambda>x. word_of_nat (sn_device x) :: u64) P))"

definition funcs_bytes :: "search_node list \<Rightarrow> byte list" where
  "funcs_bytes P = concat (map (\<lambda>(p, d). enc_word 8 (p :: u64) @ enc_word 8 (d :: u64)) (map (\<lambda>x. (sn_func x, word_of_nat (sn_device x))) P))"

definition tables :: "nat \<Rightarrow> nat \<Rightarrow> nat \<Rightarrow> search_node list \<Rightarrow> 'a mem_scheme \<Rightarrow> bool" where
  "tables nodes_info nodes func_ptrs P s \<longleftrightarrow>
     (\<exists>sl. heap_of s nodes_info = Some (info_table (map sn_info P) @ sl)) \<and>
     (\<exists>sl. heap_of s nodes = Some (devices_bytes P @ sl)) \<and>
     (\<exists>sl. heap_of s func_ptrs = Some (funcs_bytes P @ sl))"

lemma tables_cong:
  "tables ni nd fp P s \<Longrightarrow> (\<And>x. heap_of s x \<noteq> None \<Longrightarrow> heap_of t x = heap_of s x) \<Longrightarrow> tables ni nd fp P t"
  by (auto simp: tables_def)

lemma tables_read:
  assumes "tables nodes_info nodes func_ptrs P s" "mem_ok s" "i < length P" "sn_device (P ! i) < 2 ^ 64"
  shows "core_count_at nodes_info i s = Inr (core_count (sn_info (P ! i)))" "node_at nodes i s = Inr (sn_device (P ! i))"
    "load_rptr (func_ptrs + sizeof_dic_rvoid_ptr * i) s = Inr \<lparr>r_ptr = sn_func (P ! i), r_device = sn_device (P ! i)\<rparr>"
proof -
  from assms(1) obtain sl1 sl2 sl3 where t: "heap_of s nodes_info = Some (info_table (map sn_info P) @ sl1)"
    "heap_of s nodes = Some (devices_bytes P @ sl2)" "heap_of s func_ptrs = Some (funcs_bytes P @ sl3)" by (auto simp: tables_def)
  let ?is = "map sn_info P"
  let ?t = "concat (map enc_dic_node_info ?is) @ sl1"
  have split: "info_table ?is @ sl1 = enc_word 4 (word_of_nat (length P) :: u32) @ ?t"
    by (simp add: info_table_def enc_dic_resp_get_info_def)
  have u: "unat (word_of_nat (sn_device (P ! i)) :: u64) = sn_device (P ! i)" using assms(4) by (simp add: unat_of_nat)
  have "load_word 4 (nodes_info + (24 + 24 * i)) s = Inr (dec_word 4 (drop (24 + 24 * i) (info_table ?is @ sl1)) :: u32)"
    using assms(3) by (intro load_word_at [OF assms(2) t(1)]) (simp add: length_info_table)
  moreover have "drop (24 + 24 * i) (info_table ?is @ sl1) = drop 20 (drop (i * 24) ?t)"
    unfolding split by (subst drop_append) (simp add: mult.commute del: drop_append)
  moreover have "dec_word 4 (drop 20 (drop (i * 24) ?t)) = core_count (sn_info (P ! i))"
    using arg_cong [OF node_info_codec.array_nth [of i ?is sl1], of core_count] assms(3) by (simp add: dec_dic_node_info_def sizeof_dic_node_info_def)
  ultimately have "load_word 4 (nodes_info + (24 + 24 * i)) s = Inr (core_count (sn_info (P ! i)))" by (simp only:)
  moreover have "nodes_info + sizeof_dic_resp_get_info + sizeof_dic_node_info * i + 20 = nodes_info + (24 + 24 * i)"
    by (simp add: sizeof_dic_resp_get_info_def sizeof_dic_node_info_def)
  ultimately show "core_count_at nodes_info i s = Inr (core_count (sn_info (P ! i)))" by (simp only: core_count_at_def)
  show "node_at nodes i s = Inr (sn_device (P ! i))"
    using word64_codec.array_nth [of i "map (\<lambda>x. word_of_nat (sn_device x)) P" sl2] assms(3) u
      word64_codec.array_length [of "map (\<lambda>x. word_of_nat (sn_device x)) P"]
    by (simp add: node_at_def load_word_at [OF assms(2) t(2)] devices_bytes_def mult.commute)
  let ?ps = "map (\<lambda>x. (sn_func x, word_of_nat (sn_device x) :: u64)) P"
  have l: "length (funcs_bytes P) = 16 * length P" using rptr_codec.array_length [of ?ps] by (simp add: funcs_bytes_def mult.commute)
  have e: "dec_word 8 (drop (16 * i) (funcs_bytes P @ sl3)) = sn_func (P ! i)"
    "dec_word 8 (drop (16 * i + 8) (funcs_bytes P @ sl3)) = (word_of_nat (sn_device (P ! i)) :: u64)"
    using rptr_codec.array_nth [of i ?ps sl3] assms(3)
    by (simp_all add: funcs_bytes_def mult.commute add.commute [of _ 8] flip: drop_drop del: drop_append map_map)
  have "load_word 8 (func_ptrs + 16 * i) s = Inr (sn_func (P ! i))"
    "load_word 8 (func_ptrs + (16 * i + 8)) s = Inr (word_of_nat (sn_device (P ! i)) :: u64)"
    using assms(3) l e by (simp_all add: load_word_at [OF assms(2) t(3)])
  with u show "load_rptr (func_ptrs + sizeof_dic_rvoid_ptr * i) s = Inr \<lparr>r_ptr = sn_func (P ! i), r_device = sn_device (P ! i)\<rparr>"
    by (simp add: load_rptr_def sizeof_dic_rvoid_ptr_def add.assoc)
qed

lemma tables_count:
  assumes "tables nodes_info nodes func_ptrs P s" "mem_ok s"
  shows "load_word 4 nodes_info s = Inr (word_of_nat (length P) :: u32)"
proof -
  from assms(1) obtain sl where t: "heap_of s nodes_info = Some (info_table (map sn_info P) @ sl)" by (auto simp: tables_def)
  show ?thesis
    by (simp add: load_word_at0 [OF assms(2) t] length_info_table) (simp add: info_table_def enc_dic_resp_get_info_def)
qed

text \<open>The nodes \<open>P\<close> fit the connections \<open>C\<close>: every core has a thread of this node.\<close>

definition node_fits :: "(nat \<rightharpoonup> dic_conn) \<Rightarrow> search_node \<Rightarrow> bool" where
  "node_fits C x \<longleftrightarrow> C (sn_device x) \<noteq> None \<and> sn_device x < 2 ^ 64 \<and> unat (core_count (sn_info x)) = length (sn_threads x) \<and>
     (\<forall>y \<in> set (sn_threads x). th_device y = sn_device x \<and> th_func y = sn_func x)"

definition plan_threads :: "search_node list \<Rightarrow> search_thread list" where
  "plan_threads P = concat (map sn_threads P)"

lemma plan_threads_simps [simp]: "plan_threads [] = []" "plan_threads (x # P) = sn_threads x @ plan_threads P"
  "plan_threads (P @ Q) = plan_threads P @ plan_threads Q"
  by (simp_all add: plan_threads_def)

lemma start_nodes_step:
  fixes s :: "'a client_scheme"
  assumes "conversation (dialogues C out (\<lambda>d. on_node d start_replies (plan_threads Q) @ rest d)) s" "mem_ok s"
    and "stocked (concat (replicate (length (plan_threads Q)) start_memory) @ ns) s"
    and "heap_of s a = Some (threads_bytes (plan_threads R) @ sl)" "16 * length (plan_threads Q) \<le> length sl"
    and "length (plan_threads (R @ Q)) < 2 ^ 31" "\<forall>x \<in> set (R @ Q). node_fits C x" "length (R @ Q) < 2 ^ 32"
    and "map th_part (plan_threads Q) = map (\<lambda>j. part (word_of_nat j)) [length (plan_threads R)..<length (plan_threads (R @ Q))]"
    and "tables ni nd fp (R @ Q) s" "a \<notin> {ni, nd, fp}"
  shows "\<exists>t. start_nodes start_search part ni nd fp a (length R) (length Q) (word_of_nat (length (plan_threads R))) s = Inr t \<and>
      conversation (dialogues C (\<lambda>d. out d @ on_node d start_requests (plan_threads Q)) rest) t \<and> mem_ok t \<and> stocked ns t \<and>
      heap_of t = (heap_of s)(a \<mapsto> threads_bytes (plan_threads (R @ Q)) @ drop (16 * length (plan_threads Q)) sl)"
  using assms
proof (induction Q arbitrary: s out R sl)
  case Nil
  then show ?case by (auto simp: fun_eq_iff)
next
  case (Cons x Q)
  let ?xs = "sn_threads x" and ?old = "plan_threads R"
  let ?rest = "\<lambda>d. on_node d start_replies (plan_threads Q) @ rest d"
  have nx: "(R @ x # Q) ! length R = x" "length R < length (R @ x # Q)" by simp_all
  from Cons.prems(7) have fits: "node_fits C x" by simp
  then obtain c where c: "C (sn_device x) = Some c" "unat (core_count (sn_info x)) = length ?xs" "sn_device x < 2 ^ 64"
    "\<forall>y \<in> set ?xs. th_device y = sn_device x \<and> th_func y = sn_func x" by (auto simp: node_fits_def)
  note rd = tables_read [OF Cons.prems(10) Cons.prems(2) nx(2), unfolded nx(1), OF c(3)]
  have D: "conversation (dialogues C out (\<lambda>d. on_node d start_replies ?xs @ ?rest d)) s" using Cons.prems(1) by simp
  have st: "stocked (concat (replicate (length ?xs) start_memory) @ concat (replicate (length (plan_threads Q)) start_memory) @ ns) s"
    using Cons.prems(3) by (simp add: replicate_add)
  have part: "map th_part ?xs = map (\<lambda>j. part (word_of_nat j)) [length ?old..<length ?old + length ?xs]"
    "map th_part (plan_threads Q) = map (\<lambda>j. part (word_of_nat j)) [length ?old + length ?xs..<length ?old + length ?xs + length (plan_threads Q)]"
  proof -
    have "map th_part ?xs @ map th_part (plan_threads Q) = map (\<lambda>j. part (word_of_nat j)) [length ?old..<length ?old + length ?xs] @
        map (\<lambda>j. part (word_of_nat j)) [length ?old + length ?xs..<length ?old + length ?xs + length (plan_threads Q)]"
      using Cons.prems(9) upt_add_eq_append [of "length ?old" "length ?old + length ?xs" "length (plan_threads Q)"]
      by (simp add: add.assoc)
    then show "map th_part ?xs = map (\<lambda>j. part (word_of_nat j)) [length ?old..<length ?old + length ?xs]"
      "map th_part (plan_threads Q) = map (\<lambda>j. part (word_of_nat j)) [length ?old + length ?xs..<length ?old + length ?xs + length (plan_threads Q)]"
      by (simp_all del: upt_Suc)
  qed
  have room: "16 * length ?xs \<le> length sl" "length ?old + length ?xs < 2 ^ 31" using Cons.prems(5,6) by simp_all
  obtain s1 where s1: "start_cores start_search part (sn_device x) \<lparr>r_ptr = sn_func x, r_device = sn_device x\<rparr> a (length ?xs) (word_of_nat (length ?old)) s =
      Inr (word_of_nat (length ?old + length ?xs), s1)"
    "conversation (dialogues C (\<lambda>d. out d @ on_node d start_requests ?xs) ?rest) s1" "mem_ok s1"
    "stocked (concat (replicate (length (plan_threads Q)) start_memory) @ ns) s1"
    "heap_of s1 = (heap_of s)(a \<mapsto> threads_bytes (?old @ ?xs) @ drop (16 * length ?xs) sl)"
    using start_cores_step [OF D Cons.prems(2) st Cons.prems(4) room c(4,1) part(1)] by blast
  let ?R = "R @ [x]" and ?sl = "drop (16 * length ?xs) sl"
  have h: "heap_of s1 a = Some (threads_bytes (plan_threads ?R) @ ?sl)" "16 * length (plan_threads Q) \<le> length ?sl"
    using s1(5) Cons.prems(5) by simp_all
  have l: "length (plan_threads (?R @ Q)) < 2 ^ 31" "\<forall>x \<in> set (?R @ Q). node_fits C x" "length (?R @ Q) < 2 ^ 32"
    using Cons.prems(6-8) by simp_all
  have p: "map th_part (plan_threads Q) = map (\<lambda>j. part (word_of_nat j)) [length (plan_threads ?R)..<length (plan_threads (?R @ Q))]"
    using part(2) by (simp add: add.assoc)
  have "tables ni nd fp (?R @ Q) s1" using Cons.prems(10,11) s1(5) by (auto simp: tables_def)
  from Cons.IH [OF s1(2,3,4) h l p this Cons.prems(11)] obtain t where
    t: "start_nodes start_search part ni nd fp a (length ?R) (length Q) (word_of_nat (length (plan_threads ?R))) s1 = Inr t"
    "conversation (dialogues C (\<lambda>d. (out d @ on_node d start_requests ?xs) @ on_node d start_requests (plan_threads Q)) rest) t" "mem_ok t" "stocked ns t"
    "heap_of t = (heap_of s1)(a \<mapsto> threads_bytes (plan_threads (?R @ Q)) @ drop (16 * length (plan_threads Q)) ?sl)" by blast
  have "heap_of t = (heap_of s)(a \<mapsto> threads_bytes (plan_threads (R @ x # Q)) @ drop (16 * length (plan_threads (x # Q))) sl)"
    using t(5) s1(5) by (auto simp: fun_eq_iff add.commute)
  moreover have "start_nodes start_search part ni nd fp a (length R) (length (x # Q)) (word_of_nat (length ?old)) s = Inr t"
    using rd(1-3) c(2) s1(1) t(1) by simp
  moreover have "(\<lambda>d. (out d @ on_node d start_requests ?xs) @ on_node d start_requests (plan_threads Q)) =
      (\<lambda>d. out d @ on_node d start_requests (plan_threads (x # Q)))"
    by (simp add: fun_eq_iff)
  ultimately show ?case using t(2-4) by metis
qed

section \<open>Collecting all results\<close>

lemma load_rthread_at:
  assumes "mem_ok s" "heap_of s a = Some (threads_bytes (old @ x # xs) @ sl)" "th_device x < 2 ^ 64"
  shows "load_rthread (a + sizeof_dic_rvoid_ptr * length old) s = Inr \<lparr>rt_tid = th_id x, rt_device = th_device x\<rparr>"
proof -
  have u: "unat (word_of_nat (th_device x) :: u64) = th_device x" using assms(3) by (simp add: unat_of_nat)
  have "load_word 8 (a + 16 * length old) s = Inr (th_id x)" "load_word 8 (a + (16 * length old + 8)) s = Inr (word_of_nat (th_device x) :: u64)"
    using assms(2) by (simp_all add: load_word_at [OF assms(1)] thread_bytes_def)
  with u show ?thesis by (simp add: load_rthread_def load_rptr_def sizeof_dic_rvoid_ptr_def add.assoc)
qed

lemma collect_all_step:
  fixes s :: "'a client_scheme"
  assumes "conversation (dialogues C out (\<lambda>d. on_node d result_replies xs @ rest d)) s" "mem_ok s"
    and "stocked (concat (map result_memory xs) @ ns) s" "heap_of s a = Some (threads_bytes (old @ xs) @ sl)"
    and "\<forall>x \<in> set xs. C (th_device x) \<noteq> None \<and> th_device x < 2 ^ 64 \<and> 8 * length (th_primes x) < 2 ^ 30"
  shows "\<exists>t. collect_all a (length old) (length xs) sofar s = Inr (sofar + word_of_nat (length (concat (map th_primes xs))), t) \<and>
    conversation (dialogues C (\<lambda>d. out d @ on_node d result_requests xs) rest) t \<and> heap_of t = heap_of s \<and> mem_ok t \<and> stocked ns t"
  using assms
proof (induction xs arbitrary: s out old sofar)
  case Nil
  then show ?case by simp
next
  case (Cons x xs)
  let ?rest = "\<lambda>d. on_node d result_replies xs @ rest d"
  from Cons.prems(5) obtain c where c: "C (th_device x) = Some c" "th_device x < 2 ^ 64" "8 * length (th_primes x) < 2 ^ 30" by auto
  note adv = dialogues_advance(1) [of C "th_device x" c, OF c(1) refl] dialogues_advance(2) [of C "th_device x" c, OF c(1) refl]
  have st: "stocked (result_memory x @ concat (map result_memory xs) @ ns) s" using Cons.prems(3) by simp
  obtain t where t: "collect_one \<lparr>rt_tid = th_id x, rt_device = th_device x\<rparr> sofar s = Inr (sofar + word_of_nat (length (th_primes x)), t)"
    "conversation (dialogues C (\<lambda>d. out d @ on_node d result_requests [x]) ?rest) t" "mem_ok t"
    "stocked (concat (map result_memory xs) @ ns) t" "heap_of t = heap_of s"
    by (rule collect_one_step [OF Cons.prems(1) adv(1) Cons.prems(2) st c(3), unfolded adv(2)])
  have h: "heap_of t a = Some (threads_bytes ((old @ [x]) @ xs) @ sl)" using Cons.prems(4) t(5) by simp
  have pre: "\<forall>x \<in> set xs. C (th_device x) \<noteq> None \<and> th_device x < 2 ^ 64 \<and> 8 * length (th_primes x) < 2 ^ 30"
    using Cons.prems(5) by simp
  from Cons.IH [OF t(2-4) h pre, of "sofar + word_of_nat (length (th_primes x))"] obtain u where
    u: "collect_all a (length (old @ [x])) (length xs) (sofar + word_of_nat (length (th_primes x))) t =
        Inr (sofar + word_of_nat (length (th_primes x)) + word_of_nat (length (concat (map th_primes xs))), u)"
      "conversation (dialogues C (\<lambda>d. (out d @ on_node d result_requests [x]) @ on_node d result_requests xs) rest) u"
      "heap_of u = heap_of t" "mem_ok u" "stocked ns u" by (elim exE conjE)
  have eq: "(\<lambda>d. (out d @ on_node d result_requests [x]) @ on_node d result_requests xs) = (\<lambda>d. out d @ on_node d result_requests (x # xs))"
    by (simp add: fun_eq_iff)
  have run: "collect_all a (length old) (length (x # xs)) sofar s = Inr (sofar + word_of_nat (length (concat (map th_primes (x # xs)))), u)"
    using load_rthread_at [OF Cons.prems(2,4) c(2)] t(1) u(1) by (simp add: add.assoc)
  show ?case
    by (intro exI [of _ u] conjI run u(2) [unfolded eq] u(4,5) trans [OF u(3) t(5)])
qed

lemma count_cores_total:
  assumes "tables ni nd fp P s" "mem_ok s" "length P < 2 ^ 32" "\<forall>x \<in> set P. sn_device x < 2 ^ 64" "i + n = length P"
  shows "count_cores ni i n sofar s = Inr (sofar + total_cores (map (core_count \<circ> sn_info) (drop i P)))"
  using assms(5)
proof (induction n arbitrary: i sofar)
  case (Suc n)
  then have i: "i < length P" by simp
  then have "drop i P = P ! i # drop (i + 1) P" by (simp add: Cons_nth_drop_Suc)
  moreover have "sn_device (P ! i) < 2 ^ 64" using assms(4) i by simp
  ultimately show ?case using tables_read(1) [OF assms(1,2) i] Suc.IH [of "i + 1"] Suc.prems by (simp add: add.assoc)
qed simp

section \<open>The whole search\<close>

text \<open>The allocator gives the array of threads and serves every thread's calls, first those that start the threads, then
  those that collect the results.\<close>

definition search_memory_needs :: "search_thread list \<Rightarrow> nat list" where
  "search_memory_needs xs = 16 * length xs # concat (replicate (length xs) start_memory) @ concat (map result_memory xs)"

definition search_replies :: "search_thread list \<Rightarrow> nat \<Rightarrow> byte list" where
  "search_replies xs d = on_node d start_replies xs @ on_node d result_replies xs"

definition search_requests :: "search_thread list \<Rightarrow> nat \<Rightarrow> byte list" where
  "search_requests xs d = on_node d start_requests xs @ on_node d result_requests xs"

lemma plan_cores: "\<forall>x \<in> set P. node_fits C x \<Longrightarrow> plain_total (map (core_count \<circ> sn_info) P) = length (plan_threads P)"
  by (induction P) (auto simp: plain_total_def node_fits_def)

lemma plan_parts:
  assumes "assign_work first_nr last_nr cores = Some work"
  shows "map snd work = map (\<lambda>j. thread_range first_nr last_nr (total_cores cores)
      (word_of_int (sint (last_nr - first_nr) sdiv sint (total_cores cores))) (word_of_nat j)) [0..<plain_total cores]"
proof -
  let ?f = "thread_range first_nr last_nr (total_cores cores) (word_of_int (sint (last_nr - first_nr) sdiv sint (total_cores cores)))"
  have "map snd work = map ?f (map snd (node_loop 0 cores 0))"
    using assms by (auto simp: assign_work_def Let_def case_prod_unfold split: if_splits)
  then show ?thesis using node_loop_threads [of 0 cores 0] by simp
qed

lemma search_threads_step:
  fixes s :: "'a client_scheme"
  assumes talk: "conversation (dialogues C out (\<lambda>d. search_replies (plan_threads P) d @ rest d)) s" and ok: "mem_ok s"
    and mem: "stocked (search_memory_needs (plan_threads P)) s"
    and tab: "tables ni nd fp P s" "\<forall>x \<in> set P. node_fits C x" "length P < 2 ^ 32" "length (plan_threads P) < 2 ^ 31"
    and work: "assign_work first_nr last_nr (map (core_count \<circ> sn_info) P) = Some work" "map th_part (plan_threads P) = map snd work"
    and small: "\<forall>x \<in> set (plan_threads P). 8 * length (th_primes x) < 2 ^ 30"
  shows "\<exists>t a bs. search_threads start_search first_nr last_nr ni nd fp s =
      Inr (word_of_nat (length (concat (map th_primes (plan_threads P)))), t) \<and>
    conversation (dialogues C (\<lambda>d. out d @ search_requests (plan_threads P) d) rest) t \<and>
    heap_of s a = None \<and> heap_of t = (heap_of s)(a \<mapsto> bs)"
proof -
  let ?xs = "plan_threads P" and ?cores = "map (core_count \<circ> sn_info) P"
  let ?N = "length ?xs"
  have total: "total_cores ?cores = word_of_nat ?N" using plan_cores [OF tab(2)] by (simp add: total_cores_plain)
  have nz: "word_of_nat ?N \<noteq> (0 :: c_int)" using work(1) total by (auto simp: assign_work_def Let_def)
  have N: "size_of_int (word_of_nat ?N) = ?N" "nat (sint (word_of_nat ?N :: c_int)) = ?N"
    using tab(4) size_of_int_nat [OF tab(4)] by (simp_all add: sint_small unat_of_nat take_bit_nat_eq_self)
  let ?part = "thread_range first_nr last_nr (word_of_nat ?N) (word_of_int (sint (last_nr - first_nr) sdiv sint (word_of_nat ?N :: c_int)))"
  have part: "map th_part ?xs = map (\<lambda>j. ?part (word_of_nat j)) [length (plan_threads [])..<length (plan_threads ([] @ P))]"
    using plan_parts [OF work(1)] work(2) plan_cores [OF tab(2)] total by simp
  from mem obtain x where x: "grants (16 * ?N) x s"
    "stocked (concat (replicate ?N start_memory) @ concat (map result_memory ?xs) @ []) (add_block x s)"
    unfolding search_memory_needs_def append_Nil2 by (rule stocked_Cons)
  have D: "conversation (dialogues C out (\<lambda>d. on_node d start_replies ?xs @ on_node d result_replies ?xs @ rest d)) (add_block x s)"
    by (rule conversation_more [OF talk [unfolded search_replies_def append_assoc]]) simp
  have h: "heap_of (add_block x s) (fst x) = Some (threads_bytes (plan_threads []) @ snd x)" "16 * ?N \<le> length (snd x)"
    using grants_length [OF x(1)] by simp_all
  have fresh: "heap_of s (fst x) = None" by (rule grants_fresh [OF x(1) ok])
  then have tab': "tables ni nd fp ([] @ P) (add_block x s)" "fst x \<notin> {ni, nd, fp}" using tab(1) by (auto simp: tables_def)
  have l: "length (plan_threads ([] @ P)) < 2 ^ 31" "\<forall>x \<in> set ([] @ P). node_fits C x" "length ([] @ P) < 2 ^ 32" using tab by simp_all
  from start_nodes_step [OF D grants_mem_ok [OF x(1) ok] x(2) h l part tab'] obtain u where
    u: "start_nodes start_search ?part ni nd fp (fst x) 0 (length P) 0 (add_block x s) = Inr u"
    "conversation (dialogues C (\<lambda>d. out d @ on_node d start_requests ?xs) (\<lambda>d. on_node d result_replies ?xs @ rest d)) u" "mem_ok u"
    "stocked (concat (map result_memory ?xs) @ []) u" "heap_of u = (heap_of (add_block x s))(fst x \<mapsto> threads_bytes ?xs @ drop (16 * ?N) (snd x))"
    by auto
  have hu: "heap_of u (fst x) = Some (threads_bytes ([] @ ?xs) @ drop (16 * ?N) (snd x))" using u(5) by simp
  have ready: "\<forall>y \<in> set ?xs. C (th_device y) \<noteq> None \<and> th_device y < 2 ^ 64 \<and> 8 * length (th_primes y) < 2 ^ 30"
    using tab(2) small by (fastforce simp: plan_threads_def node_fits_def)
  from collect_all_step [OF u(2-4) hu ready, of 0] obtain t where
    t: "collect_all (fst x) 0 ?N 0 u = Inr (word_of_nat (length (concat (map th_primes ?xs))), t)"
    "conversation (dialogues C (\<lambda>d. (out d @ on_node d start_requests ?xs) @ on_node d result_requests ?xs) rest) t" "heap_of t = heap_of u"
    by auto
  have cnt: "load_word 4 ni s = Inr (word_of_nat (length P) :: u32)" "unat (word_of_nat (length P) :: u32) = length P"
    using tables_count [OF tab(1) ok] tab(3) by (simp_all add: unat_of_nat take_bit_nat_eq_self)
  have cores: "count_cores ni 0 (length P) 0 s = Inr (word_of_nat ?N)"
    using count_cores_total [OF tab(1) ok tab(3), of 0 "length P" 0] tab(2) total by (simp add: node_fits_def)
  have "search_threads start_search first_nr last_nr ni nd fp s = Inr (word_of_nat (length (concat (map th_primes ?xs))), t)"
    using u(1) t(1) by (simp add: search_threads_def cnt cores nz N c_malloc_grants [OF x(1)] sizeof_dic_rvoid_ptr_def Let_def)
  moreover have "heap_of t = (heap_of s)(fst x \<mapsto> threads_bytes ?xs @ drop (16 * ?N) (snd x))" using t(3) u(5) by (auto simp: fun_eq_iff)
  moreover have "conversation (dialogues C (\<lambda>d. out d @ search_requests ?xs d) rest) t" using t(2) by (simp add: search_requests_def)
  ultimately show ?thesis using fresh by blast
qed

text \<open>C8. The search programs find all primes. The program has the table of the main server, a connection to every node
  and the loaded function on each, for any number of nodes and cores; its memory serves its calls. Then, with the
  answers of the nodes (every node allocates the arguments, takes them, starts a thread for each of its cores, and
  the thread with a part of the range returns the primes of this part), the program sends each node exactly the requests that
  start its threads with their parts, then those that collect their results, and counts the primes of the whole
  range; the memory it had is unchanged, and all it keeps is the array of threads.\<close>

theorem search_threads_primes:
  fixes s :: "'a client_scheme"
  assumes talk: "conversation (dialogues C out (\<lambda>d. search_replies (plan_threads P) d @ rest d)) s" and ok: "mem_ok s"
    and mem: "stocked (search_memory_needs (plan_threads P)) s"
    and tab: "tables nodes_info nodes func_ptrs P s" "\<forall>x \<in> set P. node_fits C x" "length P < 2 ^ 32" "length (plan_threads P) < 2 ^ 31"
    and work: "assign_work first_nr last_nr (map (core_count \<circ> sn_info) P) = Some work" "map th_part (plan_threads P) = map snd work"
    and range: "0 \<le> sint first_nr" "sint first_nr \<le> sint last_nr" "sint last_nr - sint first_nr < 2 ^ 26"
    and found: "\<forall>x \<in> set (plan_threads P). th_primes x = primes_between (nat (sint (fst (th_part x)))) (nat (sint (snd (th_part x))))"
  shows "\<exists>t a bs. search_threads start_search first_nr last_nr nodes_info nodes func_ptrs s =
      Inr (word_of_nat (length (primes_between (nat (sint first_nr)) (nat (sint last_nr)))), t) \<and>
    conversation (dialogues C (\<lambda>d. out d @ search_requests (plan_threads P) d) rest) t \<and>
    heap_of s a = None \<and> heap_of t = (heap_of s)(a \<mapsto> bs)"
proof -
  let ?xs = "plan_threads P" and ?f = "\<lambda>(first, stop). primes_between (nat (sint first)) (nat (sint stop))"
  have T: "plain_total (map (core_count \<circ> sn_info) P) < 2 ^ 31" using plan_cores [OF tab(2)] tab(4) by simp
  have "map th_primes ?xs = map (?f \<circ> th_part) ?xs" using found by (intro map_cong) (auto simp: case_prod_unfold)
  also have "\<dots> = map (?f \<circ> snd) work" using work(2) by (simp flip: map_map)
  finally have "concat (map th_primes ?xs) = concat (map (\<lambda>(node, first, stop). primes_between (nat (sint first)) (nat (sint stop))) work)"
    by (simp add: o_def case_prod_unfold)
  then have all: "concat (map th_primes ?xs) = primes_between (nat (sint first_nr)) (nat (sint last_nr))"
    using parts_primes [OF work(1) range(1,2) T] by simp
  have "8 * length (th_primes x) < 2 ^ 30" if "x \<in> set ?xs" for x
  proof -
    have "length (th_primes x) \<le> length (concat (map th_primes ?xs))"
      using that by (auto simp: length_concat intro: member_le_sum_list)
    also have "\<dots> \<le> nat (sint last_nr) + 1 - nat (sint first_nr)" unfolding all by (rule length_primes_between)
    also have "nat (sint last_nr) + 1 - nat (sint first_nr) \<le> 67108864"
    proof -
      have "sint last_nr - sint first_nr < 67108864" using range(3) by simp
      then show ?thesis using range(1,2) by arith
    qed
    finally show ?thesis by simp
  qed
  with search_threads_step [OF talk ok mem tab work] show ?thesis unfolding all by blast
qed

text \<open>A client of two nodes with one core each, searching the numbers from 2 to 5.\<close>

definition example_thread :: "nat \<Rightarrow> c_int \<times> c_int \<Rightarrow> u64 list \<Rightarrow> search_thread" where
  "example_thread d part ps = \<lparr>th_device = d, th_func = 77, th_part = part, th_args = 600, th_id = 5, th_result = 700, th_primes = ps\<rparr>"

definition example_node_entry :: "nat \<Rightarrow> c_int \<times> c_int \<Rightarrow> u64 list \<Rightarrow> search_node" where
  "example_node_entry d part ps = \<lparr>sn_info = \<lparr>address = NONE_IP_ADDR, core_count = 1\<rparr>, sn_device = d, sn_func = 77,
     sn_threads = [example_thread d part ps]\<rparr>"

definition example_plan :: "search_node list" where
  "example_plan = [example_node_entry 1000 (2, 2) [2], example_node_entry 1200 (3, 5) [3, 5]]"

definition searching_client :: client where
  "searching_client = \<lparr>blocks = [(2000, info_table (map sn_info example_plan)), (2100, devices_bytes example_plan), (2200, funcs_bytes example_plan)],
     choices = map (\<lambda>i. (3000 + 100 * i, replicate 40 0)) [0..<49],
     conns = [1000 \<mapsto> example_conn, 1200 \<mapsto> example_conn\<lparr>sockfd := 6\<rparr>],
     socks = [5 \<mapsto> example_sock [search_replies (plan_threads example_plan) 1000], 6 \<mapsto> example_sock [search_replies (plan_threads example_plan) 1200]],
     fd_answers = [], connect_answers = [], bind_answers = [], listen_answers = [], accept_answers = [],
     uninit_destroyed = 0, hung_up = [], local_files = Map.empty\<rparr>"

lemma searching_lengths:
  "length (info_table (map sn_info example_plan)) = 52" "length (devices_bytes example_plan) = 16" "length (funcs_bytes example_plan) = 32"
  by (simp_all add: length_info_table devices_bytes_def funcs_bytes_def example_plan_def)

lemma searching_memory: "stocked (search_memory_needs (plan_threads example_plan)) searching_client"
proof -
  have "serves [(2000, info_table (map sn_info example_plan)), (2100, devices_bytes example_plan), (2200, funcs_bytes example_plan)]
      [32, 16, 12, 4, 8, 36, 4, 4, 24, 4, 8, 16, 12, 4, 8, 36, 4, 4, 24, 4, 8,
       16, 4, 8, 8, 20, 4, 12, 8, 20, 4, 12, 16, 4, 1, 16, 4, 8, 8, 20, 4, 12, 16, 20, 4, 20, 16, 4, 1]
      (map (\<lambda>i. (3000 + 100 * i, replicate 40 0)) [0..<49])"
    by (simp add: searching_lengths upt_rec_numeral upt_rec)
  moreover have "search_memory_needs (plan_threads example_plan) = [32, 16, 12, 4, 8, 36, 4, 4, 24, 4, 8, 16, 12, 4, 8, 36, 4, 4, 24, 4, 8,
       16, 4, 8, 8, 20, 4, 12, 8, 20, 4, 12, 16, 4, 1, 16, 4, 8, 8, 20, 4, 12, 16, 20, 4, 20, 16, 4, 1]"
    by (simp add: search_memory_needs_def start_memory_def result_memory_def example_plan_def example_node_entry_def
        example_thread_def Let_def)
  ultimately show ?thesis by (simp add: stocked_def searching_client_def)
qed

lemma searching_facts:
  "mem_ok searching_client" "tables 2000 2100 2200 example_plan searching_client"
  "\<forall>x \<in> set example_plan. node_fits [1000 \<mapsto> example_conn, 1200 \<mapsto> example_conn\<lparr>sockfd := 6\<rparr>] x"
proof -
  have ne: "info_table (map sn_info example_plan) \<noteq> []" "devices_bytes example_plan \<noteq> []" "funcs_bytes example_plan \<noteq> []"
    using searching_lengths by fastforce+
  then show "mem_ok searching_client" by (simp add: searching_client_def mem_ok_def searching_lengths)
  show "tables 2000 2100 2200 example_plan searching_client"
    by (simp add: tables_def searching_client_def heap_of_def)
  show "\<forall>x \<in> set example_plan. node_fits [1000 \<mapsto> example_conn, 1200 \<mapsto> example_conn\<lparr>sockfd := 6\<rparr>] x"
    by (simp add: node_fits_def example_plan_def example_node_entry_def example_thread_def)
qed

lemma searching_talk:
  "conversation (dialogues [1000 \<mapsto> example_conn, 1200 \<mapsto> example_conn\<lparr>sockfd := 6\<rparr>] (\<lambda>d. [])
     (\<lambda>d. search_replies (plan_threads example_plan) d @ [])) searching_client"
proof -
  have ne: "search_replies (plan_threads example_plan) 1000 \<noteq> []" "search_replies (plan_threads example_plan) 1200 \<noteq> []"
    by (simp_all add: search_replies_def start_replies_def example_plan_def example_node_entry_def example_thread_def)
  have "talking d c searching_client out inp"
    if "dialogues [1000 \<mapsto> example_conn, 1200 \<mapsto> example_conn\<lparr>sockfd := 6\<rparr>] (\<lambda>d. []) (search_replies (plan_threads example_plan)) d = Some (c, out, inp)"
    for d c out inp
  proof -
    from that consider "d = 1000" "c = example_conn" "out = []" "inp = search_replies (plan_threads example_plan) 1000"
      | "d = 1200" "c = example_conn\<lparr>sockfd := 6\<rparr>" "out = []" "inp = search_replies (plan_threads example_plan) 1200"
      by (auto simp: dialogues_def split: if_splits)
    then show ?thesis
    proof cases
      case 1
      with ne(1) show ?thesis unfolding talking_def connected_def
        by (intro exI [of _ "example_sock [search_replies (plan_threads example_plan) 1000]"])
          (simp add: searching_client_def example_conn_def example_sock_def)
    next
      case 2
      with ne(2) show ?thesis unfolding talking_def connected_def
        by (intro exI [of _ "example_sock [search_replies (plan_threads example_plan) 1200]"])
          (simp add: searching_client_def example_conn_def example_sock_def)
    qed
  qed
  moreover have "inj_on (\<lambda>d. sockfd (fst (the (dialogues [1000 \<mapsto> example_conn, 1200 \<mapsto> example_conn\<lparr>sockfd := 6\<rparr>] (\<lambda>d. [])
      (search_replies (plan_threads example_plan)) d)))) {1200, 1000}"
    by (simp add: dialogues_def example_conn_def)
  moreover have "dom (dialogues [1000 \<mapsto> example_conn, 1200 \<mapsto> example_conn\<lparr>sockfd := 6\<rparr>] (\<lambda>d. []) (search_replies (plan_threads example_plan))) = {1200, 1000}"
    by (auto simp: dialogues_def dom_def)
  ultimately show ?thesis by (simp add: conversation_def)
qed

theorem search_threads_primes_witness:
  "\<exists>t. search_threads start_search 2 5 2000 2100 2200 searching_client = Inr (3, t)"
proof -
  have work: "assign_work 2 5 (map (core_count \<circ> sn_info) example_plan) = Some [(0, 2, 2), (1, 3, 5)]"
    unfolding example_plan_def example_node_entry_def by code_simp
  have "prime_number 2" "prime_number 3" "\<not> prime_number 4" "prime_number 5"
    using small_primes by (simp_all add: is_prime_iff)
  then have primes: "primes_between 2 2 = [2]" "primes_between 3 5 = [3, 5]" "primes_between 2 5 = [2, 3, 5]"
    by (simp_all add: primes_between_def upt_rec)
  have "map th_part (plan_threads example_plan) = map snd [(0, 2, 2), (1, 3, 5)]"
    by (simp add: example_plan_def example_node_entry_def example_thread_def)
  moreover have "\<forall>x \<in> set (plan_threads example_plan). th_primes x = primes_between (nat (sint (fst (th_part x)))) (nat (sint (snd (th_part x))))"
    by (simp add: example_plan_def example_node_entry_def example_thread_def primes)
  moreover have "length example_plan < 2 ^ 32" "length (plan_threads example_plan) < 2 ^ 31"
    by (simp_all add: example_plan_def example_node_entry_def)
  ultimately have "\<exists>t a bs. search_threads start_search 2 5 2000 2100 2200 searching_client =
      Inr (word_of_nat (length (primes_between (nat (sint (2 :: c_int))) (nat (sint (5 :: c_int))))), t) \<and>
    conversation (dialogues [1000 \<mapsto> example_conn, 1200 \<mapsto> example_conn\<lparr>sockfd := 6\<rparr>]
      (\<lambda>d. [] @ search_requests (plan_threads example_plan) d) (\<lambda>d. [])) t \<and>
    heap_of searching_client a = None \<and> heap_of t = (heap_of searching_client)(a \<mapsto> bs)"
    by (intro search_threads_primes [OF searching_talk searching_facts(1) searching_memory searching_facts(2,3) _ _ work]) simp_all
  then show ?thesis using primes(3) by auto
qed

end
