(* ===== verification/Node_Stock.thy ===== *)
theory Node_Stock
  imports Node_Loop
begin

text \<open>
  How much memory the node takes for a request that creates no object: three buffers, which it gives back. So a
  node can serve such requests one after the other when its allocator has memory for all of them, and the
  whole session needs no other hypothesis than that the first request of each rest may be made.
\<close>

section \<open>Quiet requests\<close>

fun quiet :: "request \<Rightarrow> bool" where
  "quiet (Free _) = True"
| "quiet (Memcpy_c2n _ _) = True"
| "quiet (Memcpy_n2c _ _) = True"
| "quiet (Run _ _) = True"
| "quiet (Join _) = True"
| "quiet _ = False"

lemma RESP_takes: "choices (snd (RESP_BUILDER_INIT_DYNAMIC n d s)) = drop 1 (choices s)" "choices (snd (RESP_BUILDER_INIT n s)) = drop 1 (choices s)"
  by (simp_all add: RESP_BUILDER_INIT_def RESP_BUILDER_INIT_DYNAMIC_def Let_def case_prod_unfold c_malloc_takes)

lemma RESP_SET_HEAD_choices:
  "choices s = L \<Longrightarrow> (\<And>t. choices t = L \<Longrightarrow> yields P (f t)) \<Longrightarrow> yields P (bindR (RESP_SET_HEAD r s) f)"
  by (rule yields_bind [where Q = "\<lambda>t. choices t = L"]) (simp_all add: RESP_SET_HEAD_def choices_kept)

lemma quiet_handlers_take:
  "yields (\<lambda>x. choices (snd x) = drop 1 (choices s)) (handle_free body s)"
  "yields (\<lambda>x. choices (snd x) = drop 1 (choices s)) (handle_memcpy_c2n body s)"
  "yields (\<lambda>x. choices (snd x) = drop 1 (choices s)) (handle_memcpy_n2c body s)"
  unfolding handle_free_def handle_memcpy_c2n_def handle_memcpy_n2c_def Let_def case_prod_unfold
  by (intro RESP_SET_HEAD_choices [OF RESP_takes(1)] RESP_SET_HEAD_choices [OF RESP_takes(2)] takes_read takes_rules yields_Inr; simp)+

lemma c_pthread_create_takes: "choices (snd (c_pthread_create f a s)) = choices s"
  by (simp add: c_pthread_create_def split: list.split prod.split)

lemma handle_run_takes: "yields (\<lambda>x. choices (snd x) = drop 1 (choices s)) (handle_run body s)"
  unfolding handle_run_def Let_def case_prod_unfold
  by (intro RESP_SET_HEAD_choices [OF RESP_takes(2)] takes_read takes_rules yields_Inr; simp add: c_pthread_create_takes)

lemma more_threads:
  fixes s t :: "'a node_scheme"
  shows "mem.more s = mem.more t \<Longrightarrow> threads s = threads t"
  by (cases s; cases t) simp

lemma handle_join_takes:
  fixes s :: "'a node_scheme"
  assumes ok: "mem_ok s" "heap_of s body = Some (body_bytes (Join tid) @ rest)" and fin: "threads s tid = Some (Finished ret)"
    and st: "stocked [12] s"
  shows "yields (\<lambda>x. choices (snd x) = drop 1 (choices s)) (handle_join user body s)"
proof -
  have "body \<in> {body}" "{body} \<subseteq> dom (heap_of s)" using ok(2) by auto
  with ok st obtain msg len mbs s1 t where ready: "resp_ready {body} s 8 msg len mbs t"
    and run: "RESP_BUILDER_INIT 8 s = ((msg, len), s1)" "RESP_SET_HEAD (msg, len) s1 = Inr t"
    and t: "mem_ok t" "heap_of t body = Some (body_bytes (Join tid) @ rest)"
    by (auto intro: handler_start [of 8 "[]" s "{body}" body])
  have "choices t = drop 1 (choices s)"
    using RESP_SET_HEAD_choices [of s1 "drop 1 (choices s)" "\<lambda>t. choices t = drop 1 (choices s)" Inr "(msg, len)"]
      RESP_takes(2) [of 8 s] run by (simp add: yields_def)
  moreover have "threads t tid = Some (Finished ret)" using fin ready more_threads [of t s] by (simp add: resp_ready_def)
  moreover have "load_word 8 body t = Inr tid" by (simp add: load_word_at0 [OF t] enc_dic_req_join_def)
  ultimately show ?thesis
    using choices_kept(2) [of "t\<lparr>threads := (threads t)(tid := None)\<rparr>" "drop 1 (choices s)" 8]
    by (auto simp: yields_def handle_join_def sizeof_dic_resp_join_def run c_pthread_join_def res_simps)
qed

section \<open>One request\<close>

lemma quiet_dispatch:
  fixes t :: node
  assumes "quiet r" "mem_ok t" "heap_of t body = Some (body_bytes r @ bb)" "stocked (needs r) t" "allowed r v" "v_threads v = threads t"
  shows "yields (\<lambda>x. choices (snd x) = drop 1 (choices t)) (dispatch user (op_code (request_op r)) body t)"
proof (cases r)
  case (Free p)
  then show ?thesis using quiet_handlers_take(1) [of t body] free_handler.selected [of r user body t] by simp
next
  case (Memcpy_c2n d bs)
  then show ?thesis using quiet_handlers_take(2) [of t body] memcpy_c2n_handler.selected [of r user body t] by simp
next
  case (Memcpy_n2c q n)
  then show ?thesis using quiet_handlers_take(3) [of t body] memcpy_n2c_handler.selected [of r user body t] by simp
next
  case (Run f a)
  then show ?thesis using handle_run_takes [of t body] run_handler.selected [of r user body t] by simp
next
  case (Join tid)
  with assms obtain ret where "threads t tid = Some (Finished ret)" "stocked [12] t" by auto
  with Join assms(2,3) show ?thesis
    using handle_join_takes [of t body tid bb ret user] join_handler.selected [of r user body t] by simp
qed (use assms(1) in simp_all)

lemma quiet_takes:
  fixes s :: node
  assumes "serving H conn c k r rest s" "quiet r"
  shows "yields (\<lambda>x. choices (snd x) = drop 3 (choices s)) (dic_node_recv_send user conn s)"
proof -
  obtain head hb body bb t ks where
    t: "mem_ok t" "stocked (needs r) t" "heap_of t = (heap_of s)(head \<mapsto> hb, body \<mapsto> body_bytes r @ bb)" "os_state t = os_state s"
    and run: "dic_node_recv_send user conn s = bindR (dispatch user (op_code (request_op r)) body t) (\<lambda>(msg, s4).
      bindR (if fst msg \<noteq> 0 then dic_conn_send conn (fst msg) (snd msg) s4 else Inr (0, s4)) (\<lambda>(_, s5).
      bindR (c_free body s5) (\<lambda>s6. bindR (c_free (fst msg) s6) (\<lambda>s7. Inr (0, del_block head s7)))))"
      "choices t = drop 2 (choices s)"
    by (rule request_received [OF serving_arriving [OF assms(1)], where user = user])
  have "threads t = threads s" using t(4) by (simp add: os_state_def)
  then have d: "yields (\<lambda>x. choices (snd x) = drop 1 (choices t)) (dispatch user (op_code (request_op r)) body t)"
    using assms t by (intro quiet_dispatch [where v = "view_of H s"]) (simp_all add: serving_def view_of_def)
  have take: "drop 1 (choices t) = drop 3 (choices s)" by (simp add: run(2) numeral_eq_Suc)
  show ?thesis unfolding run(1)
  proof (rule takes_pair [OF d], clarify)
    fix msg len and s4 :: node assume s4: "choices s4 = drop 1 (choices t)"
    have snd: "yields (\<lambda>x. choices (snd x) = drop 3 (choices s))
        (if msg \<noteq> 0 then dic_conn_send conn msg len s4 else Inr (0, s4))"
      using dic_conn_send_choices [of s4 conn msg len] s4 take by (simp add: yields_def)
    show "yields (\<lambda>x. choices (snd x) = drop 3 (choices s))
      (bindR (if fst (msg, len) \<noteq> 0 then dic_conn_send conn (fst (msg, len)) (snd (msg, len)) s4 else Inr (0, s4)) (\<lambda>(_, s5).
        bindR (c_free body s5) (\<lambda>s6. bindR (c_free (fst (msg, len)) s6) (\<lambda>s7. Inr (0, del_block head s7)))))"
      unfolding fst_conv snd_conv
      by (rule takes_pair [OF snd], simp only: prod.case, intro takes_rules(2) yields_Inr; simp add: del_block_def)
  qed
qed

lemma quiet_extents:
  assumes "quiet r" "exec r (view_of H s) rb (view_of H s')" "\<forall>a \<in> H. heap_of s' a = heap_of s a"
  shows "same_extents s s'"
proof -
  have vh: "v_heap (view_of H x) a = (if a \<in> H then None else heap_of x a)" for x :: "'a node_scheme" and a
    by (simp add: view_of_def restrict_map_def)
  have "\<exists>cs. heap_of s a = Some cs \<and> length cs = length bs" if a: "heap_of s' a = Some bs" for a bs
  proof (cases "a \<in> H")
    case False
    then have "v_heap (view_of H s') a = Some bs" using a vh [of s' a] by simp
    then have "\<exists>cs. v_heap (view_of H s) a = Some cs \<and> length cs = length bs"
      using assms(1,2) by (cases r) (auto simp: within_def spawn_heap split: if_splits)
    then show ?thesis using vh [of s a] by (auto split: if_splits)
  qed (use a assms(3) in simp)
  then show ?thesis by (simp add: same_extents_def)
qed

section \<open>A quiet session\<close>

text \<open>What the specification alone says of a sequence of requests: each may be made in every state it may be
  reached in.\<close>

fun allows :: "request list \<Rightarrow> view \<Rightarrow> bool" where
  "allows [] v \<longleftrightarrow> True"
| "allows (r # rs) v \<longleftrightarrow> allowed r v \<and> (\<forall>rb w. exec r v rb w \<longrightarrow> allows rs w)"

definition request_memory :: "request \<Rightarrow> nat list" where
  "request_memory r = 8 # length (body_bytes r) # needs r"

definition session_memory :: "request list \<Rightarrow> nat list" where
  "session_memory rs = concat (map request_memory rs) @ [8]"

lemma quiet_request_memory: "quiet r \<Longrightarrow> \<exists>n. request_memory r = [8, length (body_bytes r), n]"
  by (cases r) (simp_all add: request_memory_def)

lemma quiet_step:
  fixes s :: node
  assumes s: "serving H conn c k r rest s" "quiet r" "stocked (request_memory r @ ns) s"
    and run: "dic_node_recv_send user conn s = Inr (0, s')"
  obtains rb ks where "exec r (view_of H s) rb (view_of H s')" "mem_ok s'" "stocked ns s'" "H \<subseteq> dom (heap_of s')"
    "connected conn c (k\<lparr>sk_in := ks, sk_out := sk_out k @ reply_bytes rb\<rparr>) s'" "concat ks = rest"
proof -
  from node_serves [OF s(1), of user] run obtain rb ks where
    e: "exec r (view_of H s) rb (view_of H s')" and s': "mem_ok s'" "\<forall>a \<in> H. heap_of s' a = heap_of s a" "conns s' = conns s"
      "concat ks = rest" "[] \<notin> set ks" "socks s' = (socks s)(sockfd c \<mapsto> k\<lparr>sk_in := ks, sk_out := sk_out k @ reply_bytes rb\<rparr>)"
    unfolding served_def by auto
  obtain n where n: "request_memory r = [8, length (body_bytes r), n]" using quiet_request_memory [OF s(2)] by blast
  have "takes3 s s'" using quiet_takes [OF s(1,2), of user] run by (simp add: yields_def takes3_def)
  then have "stocked ns s'"
    using stocked_after [of 8 "length (body_bytes r)" n ns s s'] s(3) n quiet_extents [OF s(2) e s'(2)] s'(1) by simp
  moreover have "H \<subseteq> dom (heap_of s')" using s(1) s'(2) by (auto simp: serving_def dom_def subset_iff)
  moreover have "connected conn c (k\<lparr>sk_in := ks, sk_out := sk_out k @ reply_bytes rb\<rparr>) s'"
    using s(1) s'(3,5,6) by (auto simp: serving_def connected_def)
  ultimately show ?thesis using that e s'(1,4) by blast
qed

lemma quiet_session_ok:
  fixes s :: node
  assumes "list_all quiet rs" "allows rs (view_of H s)" "stocked (session_memory rs) s" "connected conn c k s" "\<not> sk_reset k"
    and "concat (sk_in k) = concat (map request_bytes rs)" "mem_ok s" "H \<subseteq> dom (heap_of s)"
  shows "session_ok user H conn rs s"
  using assms
proof (induction rs arbitrary: s k)
  case Nil
  then show ?case by (simp add: session_memory_def)
next
  case (Cons r rs)
  have st: "stocked (request_memory r @ session_memory rs) s" using Cons.prems(3) by (simp add: session_memory_def)
  then have st1: "stocked (8 # length (body_bytes r) # needs r) s"
    using stocked_prefix [OF st] by (simp add: request_memory_def)
  have sv: "serving H conn c k r (concat (map request_bytes rs)) s"
    using Cons.prems st1 by (simp add: serving_def)
  have "session_ok user H conn rs s'" if run: "dic_node_recv_send user conn s = Inr (0, s')" for s'
  proof -
    from Cons.prems(1) have "quiet r" by simp
    from quiet_step [OF sv this st run] obtain rb ks where
      s': "exec r (view_of H s) rb (view_of H s')" "mem_ok s'" "stocked (session_memory rs) s'" "H \<subseteq> dom (heap_of s')"
        "connected conn c (k\<lparr>sk_in := ks, sk_out := sk_out k @ reply_bytes rb\<rparr>) s'" "concat ks = concat (map request_bytes rs)"
      by blast
    have "allows rs (view_of H s')" using Cons.prems(2) s'(1) by auto
    from Cons.IH [OF _ this s'(3,5)] Cons.prems(1,5) s'(2,4,6) show ?thesis by simp
  qed
  then show ?case using st1 Cons.prems(2) by simp
qed

end
