(* ===== verification/Search_Node.thy ===== *)
theory Search_Node
  imports Demo_Properties Node_Stock Node_Properties
begin

text \<open>
  The other end of the prime search: a node whose threads search their parts of the range, and which then is
  asked for the results. What it answers is what the program of theory Demo_Properties waits for.
\<close>

section \<open>A thread that has found its primes\<close>

definition result_asked :: "search_thread \<Rightarrow> request list" where
  "result_asked x = [Join (th_id x), Memcpy_n2c (word_of_nat (th_result x)) 8,
     Memcpy_n2c (word_of_nat (th_result x) + 8) (word_of_nat (8 * length (th_primes x))), Free (word_of_nat (th_result x))]"

lemma result_asked_bytes: "concat (map request_bytes (result_asked x)) = result_requests x"
  by (simp add: result_asked_def result_requests_def)

lemma all_asked_bytes: "concat (map request_bytes (concat (map result_asked xs))) = concat (map result_requests xs)"
  using result_asked_bytes by (induction xs) simp_all

lemma result_asked_quiet: "list_all quiet (result_asked x)"
  by (simp add: result_asked_def)

definition has_found :: "search_thread \<Rightarrow> view \<Rightarrow> bool" where
  "has_found x v \<longleftrightarrow> v_threads v (th_id x) = Some (Finished (th_result x)) \<and> 0 < th_result x \<and> th_result x + 8 < 2 ^ 64 \<and>
     8 * length (th_primes x) < 2 ^ 30 \<and> (\<exists>sl. v_heap v (th_result x) = Some (prime_array (th_primes x) @ sl))"

definition result_taken :: "search_thread \<Rightarrow> view \<Rightarrow> view" where
  "result_taken x v = v\<lparr>v_heap := (v_heap v)(th_result x := None), v_threads := (v_threads v)(th_id x := None)\<rparr>"

lemma prime_array_bytes: "prime_array ps = enc_word 8 (word_of_nat (length ps) :: u64) @ number_bytes ps"
  by (simp add: prime_array_def number_bytes_def)

lemma has_found_within:
  assumes "has_found x v"
  obtains bs where "within v (word_of_nat (th_result x)) 8 (th_result x) 0 bs" "unat (word_of_nat (th_result x) :: u64) = th_result x"
    "within v (word_of_nat (th_result x) + 8) (8 * length (th_primes x)) (th_result x) 8 bs"
    "take 8 bs = enc_word 8 (word_of_nat (length (th_primes x)) :: u64)" "take (8 * length (th_primes x)) (drop 8 bs) = number_bytes (th_primes x)"
proof -
  from assms obtain sl where sl: "v_heap v (th_result x) = Some (prime_array (th_primes x) @ sl)" "th_result x + 8 < 2 ^ 64"
    by (auto simp: has_found_def)
  have q: "unat (word_of_nat (th_result x) :: u64) = th_result x" using sl(2) by (simp add: unat_of_nat take_bit_nat_eq_self)
  have "unat (word_of_nat (th_result x) + 8 :: u64) = th_result x + 8"
    using q sl(2) by (subst unat_add_lem [THEN iffD1]) simp_all
  with that [of "prime_array (th_primes x) @ sl"] sl(1) q show ?thesis by (simp add: within_def prime_array_bytes)
qed

section \<open>Its result is collected\<close>

text \<open>What the specification of a node says of the four requests: only one answer is possible.\<close>

lemma result_asked_exec:
  assumes v: "has_found x v" "separate v" and run: "execs (result_asked x) v rbs w"
  shows "concat (map reply_bytes rbs) = result_replies x" "w = result_taken x v"
proof -
  let ?q = "word_of_nat (th_result x) :: u64" and ?n = "8 * length (th_primes x)"
  from v(1) have f: "v_threads v (th_id x) = Some (Finished (th_result x))" "0 < th_result x" "?n < 2 ^ 30" by (simp_all add: has_found_def)
  obtain bs where b: "within v ?q 8 (th_result x) 0 bs" "unat ?q = th_result x" "within v (?q + 8) ?n (th_result x) 8 bs"
    "take 8 bs = enc_word 8 (word_of_nat (length (th_primes x)) :: u64)" "take ?n (drop 8 bs) = number_bytes (th_primes x)"
    by (rule has_found_within [OF v(1)])
  have n: "unat (word_of_nat ?n :: u32) = ?n" using collected_size(3) [OF f(3)] .
  let ?v1 = "v\<lparr>v_threads := (v_threads v)(th_id x := None)\<rparr>"
  have w1: "within ?v1 p m a k cs = within v p m a k cs" for p m a k cs by (simp add: within_def)
  from run obtain r2 r3 a2 k2 c2 a3 k3 c3 where
    r: "rbs = [ptr_reply (th_result x), enc_word 4 (8 :: u32) @ take 8 (drop k2 c2),
      enc_word 4 (word_of_nat ?n :: u32) @ take ?n (drop k3 c3), [0]]"
    and u: "within v ?q 8 a2 k2 c2" "within v (?q + 8) ?n a3 k3 c3"
    and w: "w = (if ?q = 0 then ?v1 else ?v1\<lparr>v_heap := (v_heap ?v1)(unat ?q := None)\<rparr>)"
    unfolding result_asked_def using f(1) n by (auto simp: w1)
  have "take 8 (drop k2 c2) = take 8 bs" using within_unique [OF v(2) u(1) b(1)] by simp
  moreover have "take ?n (drop k3 c3) = take ?n (drop 8 bs)" using within_unique [OF v(2) u(2) b(3)] by (cases "?n = 0") simp_all
  ultimately show "concat (map reply_bytes rbs) = result_replies x" using r b(4,5) by (simp add: result_replies_def)
  have "?q \<noteq> 0" using f(2) b(2) by (metis less_irrefl unsigned_0)
  then show "w = result_taken x v" using w b(2) by (simp add: result_taken_def)
qed

lemma allows_append: "allows (rs @ qs) v \<longleftrightarrow> allows rs v \<and> (\<forall>rbs w. execs rs v rbs w \<longrightarrow> allows qs w)"
proof (induction rs arbitrary: v)
  case (Cons r rs)
  show ?case unfolding append_Cons allows.simps execs.simps Cons by blast
qed simp

lemma execs_append: "execs (rs @ qs) v rbs w \<longleftrightarrow> (\<exists>as bs u. rbs = as @ bs \<and> execs rs v as u \<and> execs qs u bs w)"
proof (induction rs arbitrary: v rbs)
  case (Cons r rs)
  show ?case
  proof
    assume "execs ((r # rs) @ qs) v rbs w"
    then show "\<exists>as bs u. rbs = as @ bs \<and> execs (r # rs) v as u \<and> execs qs u bs w"
      by (simp add: Cons) (metis append_Cons)
  next
    assume "\<exists>as bs u. rbs = as @ bs \<and> execs (r # rs) v as u \<and> execs qs u bs w"
    then show "execs ((r # rs) @ qs) v rbs w" by (simp add: Cons) (metis append_Cons)
  qed
qed simp

lemma result_asked_allows:
  assumes v: "has_found x v" "separate v"
  shows "allows (result_asked x) v"
proof -
  let ?q = "word_of_nat (th_result x) :: u64" and ?n = "8 * length (th_primes x)"
  from v(1) have f: "v_threads v (th_id x) = Some (Finished (th_result x))" "?n < 2 ^ 30" "v_heap v (th_result x) \<noteq> None"
    by (auto simp: has_found_def)
  obtain bs where b: "within v ?q 8 (th_result x) 0 bs" "unat ?q = th_result x" "within v (?q + 8) ?n (th_result x) 8 bs"
    by (rule has_found_within [OF v(1)])
  let ?v1 = "v\<lparr>v_threads := (v_threads v)(th_id x := None)\<rparr>"
  have w1: "within ?v1 = within v" by (simp add: within_def fun_eq_iff)
  have "allowed (Join (th_id x)) v" "allowed (Free ?q) ?v1" using f b(2) by simp_all
  moreover have "allowed (Memcpy_n2c ?q 8) ?v1" using b(1) by (simp add: w1) blast
  moreover have "allowed (Memcpy_n2c (?q + 8) (word_of_nat ?n)) ?v1" using b(3) f(2) unfolding allowed.simps w1 collected_size(3) [OF f(2)] by blast
  ultimately show ?thesis unfolding result_asked_def by (auto simp del: allowed.simps)
qed

lemma has_found_taken:
  "has_found y v \<Longrightarrow> th_id x \<noteq> th_id y \<Longrightarrow> th_result x \<noteq> th_result y \<Longrightarrow> has_found y (result_taken x v)"
  by (auto simp: has_found_def result_taken_def)

lemma separate_taken: "separate v \<Longrightarrow> separate (result_taken x v)"
  by (auto simp: separate_def result_taken_def simp del: apart.simps)

lemma results_asked:
  assumes "\<forall>x \<in> set xs. has_found x v" "separate v" "distinct (map th_id xs)" "distinct (map th_result xs)"
  shows "allows (concat (map result_asked xs)) v \<and> (\<forall>rbs w. execs (concat (map result_asked xs)) v rbs w \<longrightarrow>
    concat (map reply_bytes rbs) = concat (map result_replies xs) \<and> w = fold result_taken xs v)"
  using assms
proof (induction xs arbitrary: v)
  case (Cons x xs)
  have x: "has_found x v" "separate v" using Cons.prems by simp_all
  have "\<forall>y \<in> set xs. has_found y (result_taken x v)"
    using Cons.prems by (auto intro!: has_found_taken)
  with Cons.IH [OF this separate_taken [OF x(2)]] Cons.prems(3,4)
  have IH: "allows (concat (map result_asked xs)) (result_taken x v)"
    "execs (concat (map result_asked xs)) (result_taken x v) rbs w \<Longrightarrow>
      concat (map reply_bytes rbs) = concat (map result_replies xs) \<and> w = fold result_taken xs (result_taken x v)" for rbs w
    by auto
  have "concat (map reply_bytes rbs) = concat (map result_replies (x # xs)) \<and> w = fold result_taken (x # xs) v"
    if run: "execs (concat (map result_asked (x # xs))) v rbs w" for rbs w
  proof -
    from run obtain as bs u where u: "rbs = as @ bs" "execs (result_asked x) v as u" "execs (concat (map result_asked xs)) u bs w"
      by (auto simp: execs_append)
    note r = result_asked_exec [OF x u(2)]
    show ?thesis using IH(2) [OF u(3) [unfolded r(2)]] u(1) r(1) by simp
  qed
  moreover have "allows (concat (map result_asked (x # xs))) v"
    using result_asked_allows [OF x] result_asked_exec(2) [OF x] IH(1) by (auto simp: allows_append)
  ultimately show ?case by blast
qed simp

section \<open>The threads run\<close>

text \<open>Threads that finish one after the other, in the order of their numbers in the list.\<close>

fun run_threads :: "user_code \<Rightarrow> u64 list \<Rightarrow> node \<Rightarrow> node option" where
  "run_threads user [] s = Some s"
| "run_threads user (t # ts) s = Option.bind (run_thread user t s) (run_threads user ts)"

text \<open>A thread that searches its part: its argument is in the memory of the node, and the part is one of the program's.\<close>

definition searching :: "search_thread \<Rightarrow> node \<Rightarrow> bool" where
  "searching x s \<longleftrightarrow> (\<exists>f arg sl. threads s (th_id x) = Some (Running f arg) \<and> heap_of s arg = Some (args_bytes x @ sl)) \<and>
     0 \<le> sint (fst (th_part x)) \<and> 0 \<le> sint (snd (th_part x)) \<and> sint (snd (th_part x)) < sint (fst (th_part x)) + 2 ^ 26 \<and>
     th_primes x = primes_between (nat (sint (fst (th_part x)))) (nat (sint (snd (th_part x))))"

lemma run_thread_others: "run_thread user t s = Some s' \<Longrightarrow> r \<noteq> t \<Longrightarrow> threads s' r = threads s r"
  by (auto simp: run_thread_def split: option.splits thread.splits)

lemma run_threads_others: "run_threads user ts s = Some s' \<Longrightarrow> r \<notin> set ts \<Longrightarrow> threads s' r = threads s r"
proof (induction ts arbitrary: s)
  case (Cons t ts)
  then show ?case using run_thread_others [of user t s _ r] by (auto split: bind_splits)
qed simp

lemma search_runs:
  fixes s :: node
  assumes "searching x s" "run_thread find_primes_so (th_id x) s = Some s1" "mem_ok s" "threads s1 (th_id x) = Some (Finished q)" "0 < q"
  shows "conns s1 = conns s" "socks s1 = socks s" "mem_ok s1" "heap_of s q = None" "\<exists>sl. heap_of s1 q = Some (prime_array (th_primes x) @ sl)"
    "\<forall>p bs. heap_of s p = Some bs \<longrightarrow> heap_of s1 p = Some bs"
proof -
  let ?a = "scast (fst (th_part x)) :: u64" and ?b = "scast (snd (th_part x)) :: u64"
  from assms(1) obtain f arg sl where th: "threads s (th_id x) = Some (Running f arg)"
    and h: "heap_of s arg = Some (enc_find_primes_args \<lparr>range_start = ?a, range_end = ?b\<rparr> @ sl)"
    and r: "0 \<le> sint (fst (th_part x))" "0 \<le> sint (snd (th_part x))" "sint (snd (th_part x)) < sint (fst (th_part x)) + 2 ^ 26"
    and ps: "th_primes x = primes_between (nat (sint (fst (th_part x)))) (nat (sint (snd (th_part x))))"
    unfolding searching_def args_bytes_def by blast
  note w = widened_part(1) [OF r(1)] widened_part(1) [OF r(2)]
  have ab: "unat ?a < 2 ^ 31" "unat ?b < 2 ^ 31" "unat ?b < unat ?a + 2 ^ 30"
    using widened_part(2) [of "fst (th_part x)"] widened_part(2) [of "snd (th_part x)"] r w by auto
  from search_thread_finishes [OF th assms(2,3) h ab] obtain p where
    p: "threads s1 = (threads s)(th_id x \<mapsto> Finished p)" "conns s1 = conns s" "socks s1 = socks s"
      "p = 0 \<or> mem_ok s1 \<and> (\<exists>sl'. heap_of s1 p = Some (prime_array (primes_between (unat ?a) (unat ?b)) @ sl')) \<and>
        (\<forall>p' bs. heap_of s p' = Some bs \<longrightarrow> p' \<noteq> p \<and> heap_of s1 p' = Some bs)" by blast
  have "p = q" using p(1) assms(4) by simp
  with p(4) assms(5) have o: "mem_ok s1" "\<exists>sl'. heap_of s1 q = Some (prime_array (th_primes x) @ sl')"
    "\<forall>p' bs. heap_of s p' = Some bs \<longrightarrow> p' \<noteq> q \<and> heap_of s1 p' = Some bs" unfolding w ps by auto
  then show "conns s1 = conns s" "socks s1 = socks s" "mem_ok s1" "heap_of s q = None"
    "\<exists>sl. heap_of s1 q = Some (prime_array (th_primes x) @ sl)" "\<forall>p bs. heap_of s p = Some bs \<longrightarrow> heap_of s1 p = Some bs"
    using p(2,3) by (auto dest: spec [of _ q])
qed

lemma searches_run:
  assumes "run_threads find_primes_so (map th_id xs) s = Some s'" "distinct (map th_id xs)" "mem_ok s"
    and "\<forall>x \<in> set xs. searching x s \<and> threads s' (th_id x) = Some (Finished (th_result x)) \<and> 0 < th_result x"
  shows "conns s' = conns s \<and> socks s' = socks s \<and> mem_ok s' \<and> (\<forall>p bs. heap_of s p = Some bs \<longrightarrow> heap_of s' p = Some bs) \<and>
    (\<forall>x \<in> set xs. heap_of s (th_result x) = None \<and> (\<exists>sl. heap_of s' (th_result x) = Some (prime_array (th_primes x) @ sl))) \<and>
    distinct (map th_result xs)"
  using assms
proof (induction xs arbitrary: s)
  case (Cons x xs)
  from Cons.prems(1) obtain s1 where s1: "run_thread find_primes_so (th_id x) s = Some s1"
    and rest: "run_threads find_primes_so (map th_id xs) s1 = Some s'" by (auto split: bind_splits)
  have d: "th_id x \<notin> set (map th_id xs)" "distinct (map th_id xs)" using Cons.prems(2) by simp_all
  have fin: "threads s1 (th_id x) = Some (Finished (th_result x))"
    using run_threads_others [OF rest d(1)] Cons.prems(4) by simp
  have x: "searching x s" "0 < th_result x" using Cons.prems(4) by simp_all
  note one = search_runs [OF x(1) s1 Cons.prems(3) fin x(2)]
  have "searching y s1" if "y \<in> set xs" for y
  proof -
    have "th_id y \<noteq> th_id x" using that d(1) by (metis image_eqI set_map)
    then have "threads s1 (th_id y) = threads s (th_id y)" by (rule run_thread_others [OF s1])
    moreover have "searching y s" using that Cons.prems(4) by simp
    ultimately show ?thesis using one(6) unfolding searching_def by force
  qed
  with Cons.prems(4) have "\<forall>y \<in> set xs. searching y s1 \<and> threads s' (th_id y) = Some (Finished (th_result y)) \<and> 0 < th_result y" by simp
  note IH = Cons.IH [OF rest d(2) one(3) this]
  have new: "heap_of s1 (th_result y) = None" if "y \<in> set xs" for y using IH that by blast
  have "heap_of s (th_result y) = None" if "y \<in> set xs" for y
    using new [OF that] one(6) by (cases "heap_of s (th_result y)") auto
  moreover have "th_result x \<notin> set (map th_result xs)" using new one(5) by force
  moreover have "\<exists>sl. heap_of s' (th_result x) = Some (prime_array (th_primes x) @ sl)" using one(5) IH by blast
  ultimately show ?case using IH one by simp
qed simp

lemma searched_small: "searching x s \<Longrightarrow> 8 * length (th_primes x) < 2 ^ 30"
proof -
  assume s: "searching x s"
  let ?i = "nat (sint (fst (th_part x)))" and ?j = "nat (sint (snd (th_part x)))"
  have "length (th_primes x) \<le> ?j + 1 - ?i" using s length_primes_between [of ?i ?j] by (simp add: searching_def)
  also have "\<dots> \<le> 2 ^ 26" using s by (auto simp: searching_def)
  finally show ?thesis by simp
qed

lemma taken_all:
  "v_heap (fold result_taken xs v) a = (if a \<in> th_result ` set xs then None else v_heap v a)"
  "v_threads (fold result_taken xs v) t = (if t \<in> th_id ` set xs then None else v_threads v t)"
  by (induction xs arbitrary: v) (auto simp: result_taken_def)

section \<open>The node answers what the program waits for\<close>

text \<open>C9. The node of the prime search. Its threads search their parts and finish, in any order, each with an array it
  has made; then the program collects the results, for all threads of the node. The loop of the node ends with the
  connection, and what was sent on it are exactly the replies from which the program counts the primes of the parts
  (\<open>search_threads_primes\<close> of theory Demo_Properties asks the nodes for these); the results and the threads are gone and all other memory is as it was.\<close>

theorem search_node_answers:
  fixes s :: node
  assumes search: "\<forall>x \<in> set xs. searching x s" "distinct (map th_id xs)" "mem_ok s" "H \<subseteq> dom (heap_of s)"
    and runs: "run_threads find_primes_so (map th_id ys) s = Some s1" "distinct ys" "set ys = set xs"
    and ends: "\<forall>x \<in> set xs. threads s1 (th_id x) = Some (Finished (th_result x)) \<and> 0 < th_result x \<and> th_result x + 8 < 2 ^ 64"
    and asked: "connected conn c k s" "\<not> sk_reset k" "sk_eof k" "concat (sk_in k) = concat (map result_requests xs)"
    and mem: "stocked (session_memory (concat (map result_asked xs))) s1" "conn \<in> H"
  shows "\<exists>s2. client_handling_loop find_primes_so conn s1 = Some (Inr (1, s2)) \<and>
    hung_up s2 = (sockfd c, k\<lparr>sk_in := [], sk_out := sk_out k @ concat (map result_replies xs)\<rparr>) # hung_up s1 \<and>
    socks s2 (sockfd c) = None \<and> (\<forall>p bs. heap_of s p = Some bs \<longrightarrow> heap_of s2 p = Some bs) \<and>
    (\<forall>x \<in> set xs. heap_of s2 (th_result x) = None \<and> threads s2 (th_id x) = None)"
proof -
  let ?rs = "concat (map result_asked xs)" and ?v = "view_of H s1"
  have dy: "distinct (map th_id ys)" using search(2) runs(2,3) by (simp add: distinct_map)
  have ends': "\<forall>x \<in> set ys. searching x s \<and> threads s1 (th_id x) = Some (Finished (th_result x)) \<and> 0 < th_result x"
    using search(1) ends runs(3) by simp
  note r = searches_run [OF runs(1) dy search(3) this]
  then have s1: "conns s1 = conns s" "socks s1 = socks s" "mem_ok s1" "\<forall>p bs. heap_of s p = Some bs \<longrightarrow> heap_of s1 p = Some bs"
    and found: "\<forall>x \<in> set xs. heap_of s (th_result x) = None \<and> (\<exists>sl. heap_of s1 (th_result x) = Some (prime_array (th_primes x) @ sl))"
    and dr: "distinct (map th_result xs)" using runs(2,3) search(2) by (simp_all add: distinct_map)
  have H: "H \<subseteq> dom (heap_of s1)" using search(4) s1(4) by (force simp: dom_def)
  have notH: "th_result x \<notin> H" if "x \<in> set xs" for x using found search(4) that by force
  have small: "\<forall>x \<in> set xs. 8 * length (th_primes x) < 2 ^ 30" using search(1) searched_small by blast
  have "\<forall>x \<in> set xs. has_found x ?v"
    using found ends notH small by (simp add: has_found_def view_of_def)
  note results = results_asked [OF this separate_view_of [OF s1(3)] search(2) dr]
  have quiet: "list_all quiet ?rs" using result_asked_quiet by (induction xs) auto
  have bytes: "concat (sk_in k) = concat (map request_bytes ?rs)"
    using asked(4) all_asked_bytes by simp
  have con: "connected conn c k s1" using asked(1) s1(1,2) by (simp add: connected_def)
  from results have "session_ok find_primes_so H conn ?rs s1"
    by (intro quiet_session_ok [OF quiet _ mem(1) con asked(2) bytes s1(3) H]) simp
  from session_served [OF this con asked(2,3) bytes s1(3) H mem(2)] obtain s2 rbs where
    t: "client_handling_loop find_primes_so conn s1 = Some (Inr (1, s2))" "execs ?rs ?v rbs (view_of H s2)"
      "hung_up s2 = (sockfd c, k\<lparr>sk_in := [], sk_out := sk_out k @ concat (map reply_bytes rbs)\<rparr>) # hung_up s1"
    and s2: "\<forall>a \<in> H. heap_of s2 a = heap_of s1 a" "socks s2 = (socks s1)(sockfd c := None)"
    by blast
  from results t(2) have a: "concat (map reply_bytes rbs) = concat (map result_replies xs)" "view_of H s2 = fold result_taken xs ?v"
    by simp_all
  have heap: "heap_of s2 p = (if p \<in> th_result ` set xs then None else heap_of s1 p)" if "p \<notin> H" for p
    using arg_cong [OF a(2), of "\<lambda>v. v_heap v p"] that by (simp add: taken_all view_of_def)
  have "threads s2 r = (if r \<in> th_id ` set xs then None else threads s1 r)" for r
    using arg_cong [OF a(2), of "\<lambda>v. v_threads v r"] by (simp add: taken_all) (simp add: view_of_def)
  moreover have "heap_of s2 p = Some bs" if "heap_of s p = Some bs" for p bs
  proof (cases "p \<in> H")
    case False
    moreover have "p \<notin> th_result ` set xs" using found that by auto
    ultimately show ?thesis using heap [of p] s1(4) that by simp
  qed (use s2(1) s1(4) that in simp)
  ultimately show ?thesis using t a(1) s2(2) heap notH by (intro exI [of _ s2]) auto
qed

section \<open>A node with two threads\<close>

text \<open>One searches the numbers 4 and 5, the other 2 and 3; the first to finish is the last whose result is collected.\<close>

definition first_search :: search_thread where
  "first_search = \<lparr>th_device = 0, th_func = 0, th_part = (4, 5), th_args = 2000, th_id = 6, th_result = 3200, th_primes = [5]\<rparr>"

definition second_search :: search_thread where
  "second_search = \<lparr>th_device = 0, th_func = 0, th_part = (2, 3), th_args = 2100, th_id = 7, th_result = 3500, th_primes = [2, 3]\<rparr>"

definition two_searches :: "(nat \<times> byte list) list \<Rightarrow> (nat \<times> byte list) list \<Rightarrow> mem" where
  "two_searches new cs = \<lparr>blocks = new @ [(1000, replicate 200 0), (2000, args_bytes first_search), (2100, args_bytes second_search)], choices = cs\<rparr>"

lemma two_searches_run:
  "find_primes 2000 (two_searches [] ((3000, replicate 136 0) # (3200, replicate 16 0) # cs)) =
    Some (Inr (3200, two_searches [(3200, prime_array [5])] cs))"
  "find_primes 2100 (two_searches [(3200, prime_array [5])] ((3300, replicate 136 0) # (3500, replicate 24 0) # cs)) =
    Some (Inr (3500, two_searches [(3500, prime_array [2, 3]), (3200, prime_array [5])] cs))"
  by (simp_all add: find_primes_def two_searches_def args_bytes_def first_search_def second_search_def enc_find_primes_args_def
      load_word_def load_def c_malloc_def size_of_int_small store_word_def store_def primes_loop.simps small_primes record_prime_def
      c_realloc_def prime_array_def drop_block_def enc_word_def dec_word_def le_bytes_numeral patch_def word_le_nat_alt)

definition later_choices :: "(nat \<times> byte list) list" where
  "later_choices = map (\<lambda>i. (4000 + 100 * i, replicate 40 0)) [0..<25]"

definition node_in :: "mem \<Rightarrow> (u64 \<rightharpoonup> thread) \<Rightarrow> node" where
  "node_in m th = (example_node [] [concat (map result_requests [second_search, first_search])] (choices m))
     \<lparr>blocks := blocks m, threads := th\<rparr>"

definition two_search_node :: node where
  "two_search_node = node_in (two_searches [] ((3000, replicate 136 0) # (3200, replicate 16 0) # (3300, replicate 136 0) # (3500, replicate 24 0) # later_choices))
     [6 \<mapsto> Running 0 2000, 7 \<mapsto> Running 0 2100]"

definition two_results_node :: node where
  "two_results_node = node_in (two_searches [(3500, prime_array [2, 3]), (3200, prime_array [5])] later_choices) [6 \<mapsto> Finished 3200, 7 \<mapsto> Finished 3500]"

lemma node_in_fields:
  "blocks (node_in m th) = blocks m" "choices (node_in m th) = choices m" "threads (node_in m th) = th" "conns (node_in m th) = [1000 \<mapsto> example_conn]"
  "socks (node_in m th) = [5 \<mapsto> example_sock [concat (map result_requests [second_search, first_search])]]"
  by (simp_all add: node_in_def example_node_def)

lemma two_search_node_runs: "run_threads find_primes_so (map th_id [first_search, second_search]) two_search_node = Some two_results_node"
proof -
  have step: "run_thread find_primes_so t (node_in m th) = Some (node_in m' (th(t \<mapsto> Finished q)))"
    if "th t = Some (Running f a)" "find_primes a m = Some (Inr (q, m'))" for t th f a q and m m' :: mem
    using that by (cases m) (simp add: run_thread_def find_primes_so_def node_in_def example_node_def)
  show ?thesis unfolding two_search_node_def two_results_node_def
    by (simp add: first_search_def second_search_def step [OF _ two_searches_run(1)] step [OF _ two_searches_run(2)])
qed

lemma two_results_stocked: "stocked (session_memory (concat (map result_asked [second_search, first_search]))) two_results_node"
proof -
  have "session_memory (concat (map result_asked [second_search, first_search])) =
    [8, 8, 12, 8, 12, 16, 8, 12, 24, 8, 8, 5, 8, 8, 12, 8, 12, 16, 8, 12, 16, 8, 8, 5, 8]"
    by (simp add: session_memory_def request_memory_def result_asked_def first_search_def second_search_def layout_lengths)
  moreover have "serves [(3500, prime_array [2, 3]), (3200, prime_array [5]), (1000, replicate 200 0), (2000, args_bytes first_search), (2100, args_bytes second_search)]
      [8, 8, 12, 8, 12, 16, 8, 12, 24, 8, 8, 5, 8, 8, 12, 8, 12, 16, 8, 12, 16, 8, 8, 5, 8] later_choices"
    by (simp add: later_choices_def upt_rec_numeral upt_rec)
  ultimately show ?thesis by (simp add: stocked_def two_results_node_def node_in_fields two_searches_def)
qed

lemma two_search_node_facts:
  "\<forall>x \<in> set [second_search, first_search]. searching x two_search_node" "mem_ok two_search_node" "{1000} \<subseteq> dom (heap_of two_search_node)"
  "connected 1000 example_conn (example_sock [concat (map result_requests [second_search, first_search])]) two_search_node"
proof -
  have "prime_number 2" "prime_number 3" "\<not> prime_number 4" "prime_number 5" using small_primes by (simp_all add: is_prime_iff)
  then have primes: "primes_between 4 5 = [5]" "primes_between 2 3 = [2, 3]" by (simp_all add: primes_between_def upt_rec)
  have heap: "heap_of two_search_node = [1000 \<mapsto> replicate 200 0, 2000 \<mapsto> args_bytes first_search, 2100 \<mapsto> args_bytes second_search]"
    by (auto simp: heap_of_def two_search_node_def node_in_fields two_searches_def)
  have "threads two_search_node = [6 \<mapsto> Running 0 2000, 7 \<mapsto> Running 0 2100]" by (simp add: two_search_node_def node_in_fields)
  then show "\<forall>x \<in> set [second_search, first_search]. searching x two_search_node"
    by (simp add: searching_def heap) (simp add: first_search_def second_search_def primes)
  have "args_bytes x \<noteq> []" for x using length_args_bytes [of x] by fastforce
  then show "mem_ok two_search_node" by (simp add: mem_ok_def two_search_node_def node_in_fields two_searches_def)
  show "{1000} \<subseteq> dom (heap_of two_search_node)" by (simp add: heap)
  have "result_requests x \<noteq> []" for x using length_request_bytes_8 [of "Join (th_id x)"] by (auto simp: result_requests_def)
  then show "connected 1000 example_conn (example_sock [concat (map result_requests [second_search, first_search])]) two_search_node"
    by (simp add: connected_def two_search_node_def node_in_fields example_conn_def example_sock_def)
qed

theorem search_node_answers_witness:
  "\<exists>s2. client_handling_loop find_primes_so 1000 two_results_node = Some (Inr (1, s2)) \<and>
    map (sk_out \<circ> snd) (hung_up s2) = [concat (map result_replies [second_search, first_search])] \<and> threads s2 7 = None"
proof -
  let ?xs = "[second_search, first_search]" and ?k = "example_sock [concat (map result_requests [second_search, first_search])]"
  have ends: "\<forall>x \<in> set ?xs. threads two_results_node (th_id x) = Some (Finished (th_result x)) \<and> 0 < th_result x \<and> th_result x + 8 < 2 ^ 64"
    by (simp add: two_results_node_def node_in_fields first_search_def second_search_def)
  have d: "distinct (map th_id ?xs)" "distinct [first_search, second_search]" "set [first_search, second_search] = set ?xs"
    by (auto simp: first_search_def second_search_def)
  have k: "\<not> sk_reset ?k" "sk_eof ?k" "concat (sk_in ?k) = concat (map result_requests ?xs)" "sk_out ?k = []" by (simp_all add: example_sock_def)
  have none: "hung_up two_results_node = []" by (simp add: two_results_node_def node_in_def example_node_def)
  from search_node_answers [OF two_search_node_facts(1) d(1) two_search_node_facts(2,3) two_search_node_runs d(2,3) ends
      two_search_node_facts(4) k(1-3) two_results_stocked singletonI]
  obtain s2 where s2: "client_handling_loop find_primes_so 1000 two_results_node = Some (Inr (1, s2))"
    "hung_up s2 = (sockfd example_conn, ?k\<lparr>sk_in := [], sk_out := sk_out ?k @ concat (map result_replies ?xs)\<rparr>) # hung_up two_results_node"
    "\<forall>x \<in> set ?xs. threads s2 (th_id x) = None" by blast
  from s2(2) have "map (sk_out \<circ> snd) (hung_up s2) = [concat (map result_replies ?xs)]" unfolding none by (simp add: k(4))
  with s2(1,3) show ?thesis by (intro exI [of _ s2]) (simp add: second_search_def)
qed

end
