(* ===== verification/Node_Process.thy ===== *)
theory Node_Process
  imports Node_Loop Main_Clients Getopt
begin

text \<open>
  The node program as a whole, \<open>main\<close> of \<open>node/src/main.c\<close>: its options, the connection to the main server,
  which is tried once a second until it succeeds, the announcement, and the server loop. Log levels only change the output and are left out.
\<close>

section \<open>Options\<close>

text \<open>The loop over the options: \<open>-h\<close> leaves the program, \<open>-m\<close> sets the address of the main server.\<close>

fun option_loop ::
  "(string \<Rightarrow> ip_addr) \<Rightarrow> (char \<times> string option) list \<Rightarrow> ip_addr option \<Rightarrow> ip_addr option res" where
  "option_loop from_str [] main_server_addr = Inr main_server_addr"
| "option_loop from_str ((opt, optarg) # os) main_server_addr =
     (if opt = CHR ''h'' then Inl (Exited 0)
      else if opt = CHR ''m'' then option_loop from_str os (map_option from_str optarg)
      else option_loop from_str os main_server_addr)"

definition node_options :: "(string \<Rightarrow> ip_addr) \<Rightarrow> string list \<Rightarrow> ip_addr option res" where
  "node_options from_str argv = option_loop from_str (getopt ''hm:V:s:'' argv) None"

section \<open>The program\<close>

partial_function (option) retry_connect :: "nat \<Rightarrow> node \<Rightarrow> node res option" where
  "retry_connect main_server_conn s =
     (case get_conn main_server_conn s of
        Inl e \<Rightarrow> Some (Inl e)
      | Inr c \<Rightarrow>
          (if sockfd c = - 1 then
             (case dic_conn_tryconnect main_server_conn s of
                Inl e \<Rightarrow> Some (Inl e)
              | Inr (_, s1) \<Rightarrow> retry_connect main_server_conn s1)
           else Some (Inr s)))"

text \<open>\<open>cores\<close> is the answer of \<open>sysconf\<close>; the result of the announcement is only logged.\<close>

definition node_main ::
  "user_code \<Rightarrow> (string \<Rightarrow> (u32 \<times> 96 word) option) \<Rightarrow> ip_addr \<Rightarrow> c_int \<Rightarrow> string list \<Rightarrow> node \<Rightarrow> (int \<times> node) res option" where
  "node_main user pton6 junk cores argv s =
     bindO (Some (node_options (ipv4_from_str pton6 junk) argv)) (\<lambda>main_server_addr.
     case main_server_addr of
       None \<Rightarrow> bindO (start_server user 4224 s) (\<lambda>(_, s1). Some (Inr (0, s1)))
     | Some addr \<Rightarrow>
         bindO (Some (dic_conn_new addr 4225 s)) (\<lambda>(main_server_conn, s1).
         bindO (retry_connect main_server_conn s1) (\<lambda>s2.
         bindO (Some (notify_main_server cores main_server_conn s2)) (\<lambda>(res, s3).
         bindO (start_server user 4224 s3) (\<lambda>(_, s4).
         bindO (Some (dic_conn_destroy main_server_conn s4)) (\<lambda>s5.
           Some (Inr (0, s5))))))))"

section \<open>The connection to the main server\<close>

lemma tcp_connect_refused:
  assumes "fd_answers s = fd # fs" "0 \<le> fd" "socks s fd = None" "connect_answers s = None # as"
    "\<not> (family addr = AF_INET \<and> ipv4 addr = 0)"
  shows "tcp_connect addr prt s = (- 1, s\<lparr>fd_answers := fs, connect_answers := as, hung_up := (fd, fresh_sock) # hung_up s\<rparr>)"
  using assms by (auto simp: tcp_connect_def c_socket_def c_connect_def c_close_def Let_def fun_upd_idem)

lemma tcp_connect_accepted:
  assumes "fd_answers s = fd # fs" "0 \<le> fd" "socks s fd = None" "connect_answers s = Some k # as"
    "\<not> (family addr = AF_INET \<and> ipv4 addr = 0)"
  shows "tcp_connect addr prt s = (fd, s\<lparr>socks := (socks s)(fd \<mapsto> k\<lparr>sk_peer :=
    \<lparr>sin_family = family addr, sin_port = htons (ucast prt), s_addr = ipv4 addr\<rparr>\<rparr>), fd_answers := fs, connect_answers := as\<rparr>)"
  using assms by (auto simp: tcp_connect_def c_socket_def c_connect_def Let_def)

text \<open>C39. The node gets through to the main server as soon as the main server answers: when \<open>n\<close> attempts are
  refused and the next one is accepted, the retry loop ends with the accepted socket in the connection,
  and no descriptor of the failed attempts is left open.\<close>

theorem retry_connect_succeeds:
  assumes "conns s p = Some c" "p \<noteq> 0" "sockfd c = - 1" "\<not> (family (ip c) = AF_INET \<and> ipv4 (ip c) = 0)"
    and "fd_answers s = replicate (n + 1) fd @ fs" "0 \<le> fd" "socks s fd = None"
    and "connect_answers s = replicate n None @ Some k # as"
  shows "\<exists>s'. retry_connect p s = Some (Inr s') \<and> conns s' = (conns s)(p \<mapsto> c\<lparr>sockfd := fd\<rparr>) \<and>
    socks s' = (socks s)(fd \<mapsto> k\<lparr>sk_peer :=
      \<lparr>sin_family = family (ip c), sin_port = htons (ucast (port c)), s_addr = ipv4 (ip c)\<rparr>\<rparr>) \<and> heap_of s' = heap_of s"
  using assms
proof (induction n arbitrary: s)
  case 0
  let ?k = "k\<lparr>sk_peer := \<lparr>sin_family = family (ip c), sin_port = htons (ucast (port c)), s_addr = ipv4 (ip c)\<rparr>\<rparr>"
  let ?s = "s\<lparr>socks := (socks s)(fd \<mapsto> ?k), fd_answers := fs, connect_answers := as\<rparr>"
  have t: "tcp_connect (ip c) (port c) s = (fd, ?s)"
    using 0 by (intro tcp_connect_accepted) simp_all
  have tc: "dic_conn_tryconnect p s = Inr (0, put_conn p (c\<lparr>sockfd := fd\<rparr>) ?s)"
    using 0 t by (simp add: dic_conn_tryconnect_def get_conn_def)
  have "retry_connect p s = retry_connect p (put_conn p (c\<lparr>sockfd := fd\<rparr>) ?s)"
    using 0 tc by (subst retry_connect.simps) (simp add: get_conn_def)
  also have "\<dots> = Some (Inr (put_conn p (c\<lparr>sockfd := fd\<rparr>) ?s))"
    using 0 by (subst retry_connect.simps) (simp add: get_conn_def put_conn_def)
  finally show ?case by (simp add: put_conn_def heap_of_def fun_upd_def)
next
  case (Suc n)
  let ?s = "s\<lparr>fd_answers := replicate (n + 1) fd @ fs, connect_answers := replicate n None @ Some k # as,
    hung_up := (fd, fresh_sock) # hung_up s\<rparr>"
  have "tcp_connect (ip c) (port c) s = (- 1, ?s)"
    using Suc.prems by (intro tcp_connect_refused [where fd = fd]) simp_all
  then have "dic_conn_tryconnect p s = Inr (1, ?s)"
    using Suc.prems by (simp add: dic_conn_tryconnect_def get_conn_def)
  then have "retry_connect p s = retry_connect p ?s"
    using Suc.prems by (subst retry_connect.simps) (simp add: get_conn_def)
  with Suc.IH [of ?s] Suc.prems show ?case by (simp add: heap_of_def)
qed

definition refused_conn :: dic_conn where
  "refused_conn = \<lparr>sockfd = - 1, queue_len = Some 0, queue_cond_init = True, queue_mut_init = True,
     recv_mut_init = True, send_mut_init = True, port = 4225, ip = \<lparr>family = AF_INET, ipv4 = 1, ip_hi = 0\<rparr>\<rparr>"

definition waiting_node :: node where
  "waiting_node = \<lparr>blocks = [], choices = [], conns = [1000 \<mapsto> refused_conn], socks = Map.empty, fd_answers = [6, 6, 6],
     connect_answers = [None, None, Some fresh_sock], bind_answers = [], listen_answers = [], accept_answers = [],
     uninit_destroyed = 0, hung_up = [], files = Map.empty, unwritable = (\<lambda>_. False), dl_choices = [], dl_open = Map.empty,
     dl_sym = (\<lambda>_ _. 0), thread_choices = [], threads = Map.empty\<rparr>"

theorem retry_connect_succeeds_witness:
  "\<exists>s'. retry_connect 1000 waiting_node = Some (Inr s') \<and> conns s' = [1000 \<mapsto> refused_conn\<lparr>sockfd := 6\<rparr>]"
proof -
  have "conns waiting_node 1000 = Some refused_conn" "(1000 :: nat) \<noteq> 0" "sockfd refused_conn = - 1"
    "\<not> (family (ip refused_conn) = AF_INET \<and> ipv4 (ip refused_conn) = 0)"
    "fd_answers waiting_node = replicate (2 + 1) 6 @ []" "0 \<le> (6 :: int)" "socks waiting_node 6 = None"
    "connect_answers waiting_node = replicate 2 None @ Some fresh_sock # []"
    by (simp_all add: waiting_node_def refused_conn_def numeral_2_eq_2)
  from retry_connect_succeeds [OF this] obtain s' where "retry_connect 1000 waiting_node = Some (Inr s')"
    "conns s' = (conns waiting_node)(1000 \<mapsto> refused_conn\<lparr>sockfd := 6\<rparr>)" by blast
  then show ?thesis by (simp add: waiting_node_def)
qed

end
