(* ===== verification/Node_Manager.thy ===== *)
theory Node_Manager
  imports Node_Process
begin

text \<open>
  The node manager, \<open>node-manager/src/main.c\<close>: it builds the command line of a compute node and runs it again
  whenever it ends. What the shell and the program do is a parameter of the model, except for the command
  line itself, which is compared with the options the node accepts.
\<close>

section \<open>The command\<close>

fun show_nat :: "nat \<Rightarrow> string" where
  "show_nat n = (if n < 10 then [digit_char n] else show_nat (n div 10) @ [digit_char (n mod 10)])"

declare show_nat.simps [simp del]

definition show_int :: "c_int \<Rightarrow> string" where
  "show_int n = (if sint n < 0 then CHR ''-'' # show_nat (nat (- sint n)) else show_nat (nat (sint n)))"

definition COMPUTE_NODE_PATH :: string where
  "COMPUTE_NODE_PATH = ''../../node/bin/main''"

definition create_compute_node_cmd :: "c_int \<Rightarrow> string" where
  "create_compute_node_cmd port_nr = COMPUTE_NODE_PATH @ '' -p '' @ show_int port_nr"

text \<open>The loop that starts the node over and over, cut after \<open>n\<close> rounds: \<open>run\<close> is \<open>popen\<close> followed by \<open>pclose\<close>.\<close>

fun run_rounds :: "(string \<Rightarrow> 's \<Rightarrow> 's) \<Rightarrow> string \<Rightarrow> nat \<Rightarrow> 's \<Rightarrow> 's" where
  "run_rounds run cmd 0 s = s"
| "run_rounds run cmd (Suc n) s = run_rounds run cmd n (run cmd s)"

definition run_loop :: "(string \<Rightarrow> 's \<Rightarrow> 's) \<Rightarrow> c_int \<Rightarrow> nat \<Rightarrow> 's \<Rightarrow> 's" where
  "run_loop run port_nr n s = run_rounds run (create_compute_node_cmd port_nr) n s"

text \<open>\<open>atoi\<close> of the GNU C library: blanks, a sign and decimal digits, read as a 64-bit number that is limited to
  its range, of which the low 32 bits are returned.\<close>

fun leading_digits :: "int \<Rightarrow> string \<Rightarrow> int" where
  "leading_digits v [] = v"
| "leading_digits v (c # cs) =
     (if (48 :: int) \<le> of_char c \<and> of_char c \<le> (57 :: int) then leading_digits (10 * v + (of_char c - 48)) cs else v)"

fun strtol10 :: "string \<Rightarrow> int" where
  "strtol10 (CHR ''-'' # cs) = - leading_digits 0 cs"
| "strtol10 (CHR ''+'' # cs) = leading_digits 0 cs"
| "strtol10 cs = leading_digits 0 cs"

definition blanks :: "char set" where "blanks = {CHR '' '', CHR 0x09, CHR 0x0A, CHR 0x0B, CHR 0x0C, CHR 0x0D}"

definition atoi :: "string \<Rightarrow> c_int" where
  "atoi t = word_of_int (max (- (2 ^ 63)) (min (2 ^ 63 - 1) (strtol10 (dropWhile (\<lambda>c. c \<in> blanks) t))))"

text \<open>The options of the manager: \<open>-h\<close> leaves the program, \<open>-a\<close> sets an address that nothing reads, \<open>-p\<close> the port.\<close>

fun manager_option_loop ::
  "(string \<Rightarrow> ip_addr) \<Rightarrow> (char \<times> string option) list \<Rightarrow> ip_addr \<times> c_int \<Rightarrow> (ip_addr \<times> c_int) res" where
  "manager_option_loop from_str [] (ip_val, port_nr) = Inr (ip_val, port_nr)"
| "manager_option_loop from_str ((opt, optarg) # os) (ip_val, port_nr) =
     (if opt = CHR ''h'' then Inl (Exited 0)
      else if opt = CHR ''a'' then
        (case optarg of None \<Rightarrow> Inl NullDeref | Some v \<Rightarrow> manager_option_loop from_str os (from_str v, port_nr))
      else if opt = CHR ''p'' then
        (case optarg of None \<Rightarrow> Inl NullDeref | Some v \<Rightarrow> manager_option_loop from_str os (ip_val, atoi v))
      else manager_option_loop from_str os (ip_val, port_nr))"

text \<open>\<open>main\<close>, with its endless loop cut after \<open>n\<close> rounds.\<close>

definition manager_main ::
  "(string \<Rightarrow> ip_addr) \<Rightarrow> (string \<Rightarrow> 's \<Rightarrow> 's) \<Rightarrow> string list \<Rightarrow> nat \<Rightarrow> 's \<Rightarrow> 's res" where
  "manager_main from_str run argv n s =
     bindR (manager_option_loop from_str (getopt ''hp:V:a:'' argv) (\<lparr>family = 0, ipv4 = 0, ip_hi = 0\<rparr>, 4224))
       (\<lambda>(ip_val, port_nr). Inr (run_loop run port_nr n s))"

section \<open>What the node makes of it\<close>

text \<open>The words of a command without quotes.\<close>

fun words :: "string \<Rightarrow> string list" where
  "words [] = [[]]"
| "words (c # t) =
     (if c = CHR '' '' then [] # words t else case words t of [] \<Rightarrow> [[c]] | w # ws \<Rightarrow> (c # w) # ws)"

definition digit_chars :: "char set" where
  "digit_chars = {c. 48 \<le> (of_char c :: nat) \<and> (of_char c :: nat) < 58}"

lemma digit_char_in: "d < 10 \<Longrightarrow> digit_char d \<in> digit_chars"
  by (simp add: digit_chars_def)

lemma show_nat_digits: "set (show_nat n) \<subseteq> digit_chars \<and> show_nat n \<noteq> []"
proof (induction n rule: show_nat.induct)
  case (1 n)
  then show ?case
    using digit_char_in [of n] digit_char_in [of "n mod 10"] by (subst show_nat.simps, subst (2) show_nat.simps) auto
qed

lemma words_plain: "CHR '' '' \<notin> set t \<Longrightarrow> words t = [t]"
  by (induction t) auto

lemma words_space: "CHR '' '' \<notin> set t \<Longrightarrow> words (t @ CHR '' '' # u) = t # words u"
  by (induction t) auto

lemma unknown_options:
  "\<forall>c \<in> set t. takes opts c = None \<Longrightarrow> short_options opts t = (map (\<lambda>_. (CHR ''?'', None)) t, None)"
  by (induction t) auto

lemma option_loop_unknown: "option_loop f (map (\<lambda>_. (CHR ''?'', None)) t @ os) a = option_loop f os a"
  by (induction t) auto

lemma default_options:
  "node_options from_str (tl (words (create_compute_node_cmd port_nr))) = Inr None"
proof -
  let ?opts = "''hm:V:s:''"
  have unk: "takes ?opts c = None" if "c \<in> digit_chars" for c using that by (auto simp: digit_chars_def)
  have no_space: "CHR '' '' \<notin> set (show_nat n)" for n using show_nat_digits [of n] by (auto simp: digit_chars_def)
  have "words (create_compute_node_cmd port_nr) = [COMPUTE_NODE_PATH, ''-p'', show_int port_nr]"
    using words_space [of COMPUTE_NODE_PATH "''-p '' @ show_int port_nr"] words_space [of "''-p''" "show_int port_nr"]
      no_space by (simp add: create_compute_node_cmd_def COMPUTE_NODE_PATH_def show_int_def words_plain)
  moreover have "option_loop from_str (getopt ?opts [show_int port_nr]) None = Inr None"
  proof -
    obtain c t where n: "show_nat (nat \<bar>sint port_nr\<bar>) = c # t" "\<forall>d \<in> set (c # t). d \<in> digit_chars"
      using show_nat_digits [of "nat \<bar>sint port_nr\<bar>"] by (cases "show_nat (nat \<bar>sint port_nr\<bar>)") auto
    from n(2) have "c \<noteq> CHR ''-''" by (auto simp: digit_chars_def)
    have u: "short_options ?opts (c # t) = (map (\<lambda>_. (CHR ''?'', None)) (c # t), None)"
      using n(2) unk by (intro unknown_options) auto
    show ?thesis
    proof (cases "sint port_nr < 0")
      case True
      then have "show_int port_nr = CHR ''-'' # c # t" using n(1) by (simp add: show_int_def)
      then show ?thesis using u \<open>c \<noteq> CHR ''-''\<close> option_loop_unknown [of from_str "c # t" "[]"] by simp
    next
      case False
      then have "show_int port_nr = c # t" using n(1) by (simp add: show_int_def)
      then show ?thesis using \<open>c \<noteq> CHR ''-''\<close> by simp
    qed
  qed
  ultimately show ?thesis by (simp add: node_options_def)
qed

text \<open>C40. Whatever options the manager is started with, it runs nothing but nodes that start with their defaults:
  every command it gives to the shell is one in which the node finds no option it knows.\<close>

theorem manager_starts_default_nodes:
  assumes "manager_main from_str run argv n s = Inr s'"
  shows "\<exists>cmd. s' = ((run cmd) ^^ n) s \<and> node_options from_str' (tl (words cmd)) = Inr None"
proof -
  have rounds: "run_rounds run cmd n s = ((run cmd) ^^ n) s" for cmd
    by (induction n arbitrary: s) (simp_all add: funpow_swap1)
  from assms obtain p where "s' = run_loop run p n s" by (auto simp: manager_main_def res_simps)
  then show ?thesis using default_options [of from_str' p] by (auto simp: run_loop_def rounds)
qed

theorem manager_starts_default_nodes_witness:
  "\<exists>cmd. manager_main (\<lambda>_. NONE_IP_ADDR) (\<lambda>cmd log. cmd # log) [''-p'', ''5000''] 1 [] = Inr [''../../node/bin/main -p 5000''] \<and>
    [''../../node/bin/main -p 5000''] = (((#) cmd) ^^ 1) [] \<and> node_options (\<lambda>_. NONE_IP_ADDR) (tl (words cmd)) = Inr None"
proof -
  have digits: "digit_char 5 = CHR ''5''" "digit_char 0 = CHR ''0''" by code_simp+
  have run: "manager_main (\<lambda>_. NONE_IP_ADDR) (\<lambda>cmd log. cmd # log) [''-p'', ''5000''] 1 [] = Inr [''../../node/bin/main -p 5000'']"
    by (simp add: manager_main_def run_loop_def atoi_def blanks_def create_compute_node_cmd_def COMPUTE_NODE_PATH_def
        show_int_def show_nat.simps digits)
  from manager_starts_default_nodes [OF this, of "\<lambda>_. NONE_IP_ADDR"] run show ?thesis by auto
qed

end
