(* ===== verification/Remote_Threads.thy ===== *)
theory Remote_Threads
  imports Conversation Node_Stock Client_Properties
begin

text \<open>
  A function that a client runs on a node: the request that starts the thread, the thread, and the request that
  waits for it, on the two ends of the connection.
\<close>

section \<open>The node\<close>

lemma talking_serving:
  fixes s :: node
  assumes "talking conn c s out (request_bytes r @ rest)" "mem_ok s" "H \<subseteq> dom (heap_of s)" "allowed r (view_of H s)"
    and "stocked (request_memory r @ ns) s"
  obtains k where "serving H conn c k r rest s" "sk_out k = out"
  using assms stocked_prefix [OF assms(5)] by (auto simp: talking_def serving_def request_memory_def)

text \<open>A quiet request in the course of a conversation.\<close>

lemma quiet_talk:
  fixes s :: node
  assumes t: "talking conn c s out (request_bytes r @ rest)" and s: "mem_ok s" "H \<subseteq> dom (heap_of s)"
    and r: "quiet r" "allowed r (view_of H s)" "stocked (request_memory r @ ns) s"
  obtains s' rb where "dic_node_recv_send user conn s = Inr (0, s')" "exec r (view_of H s) rb (view_of H s')" "mem_ok s'"
    "stocked ns s'" "H \<subseteq> dom (heap_of s')" "talking conn c s' (out @ reply_bytes rb) rest"
proof -
  obtain k where k: "serving H conn c k r rest s" "sk_out k = out" by (rule talking_serving [OF t s r(2,3)])
  from node_serves [OF k(1), of user] obtain s' where s': "dic_node_recv_send user conn s = Inr (0, s')"
    unfolding served_def by blast
  from quiet_step [OF k(1) r(1,3) s'] obtain rb ks where q: "exec r (view_of H s) rb (view_of H s')" "mem_ok s'"
    "stocked ns s'" "H \<subseteq> dom (heap_of s')" "connected conn c (k\<lparr>sk_in := ks, sk_out := sk_out k @ reply_bytes rb\<rparr>) s'"
    "concat ks = rest" by blast
  have "\<not> sk_reset k" using k(1) by (simp add: serving_def)
  then have "talking conn c s' (out @ reply_bytes rb) rest"
    using q(5,6) k(2) unfolding talking_def by (intro exI [of _ "k\<lparr>sk_in := ks, sk_out := sk_out k @ reply_bytes rb\<rparr>"]) simp
  with that s' q show ?thesis by blast
qed

section \<open>The thread\<close>

lemma view_fields: "v_heap (view_of H s) = heap_of s |` (- H)" "v_threads (view_of H s) = threads s" "v_spawn (view_of H s) = thread_choices s"
  by (simp_all add: view_of_def)

text \<open>C6. A client runs a function on a node and waits for it. When the node can create the thread, the request starts
  exactly this function on this argument in a thread whose name goes back to the client; whatever value the function
  returns, leaving the memory of the node in order, the second request is answered with this value and the node forgets
  the thread; and from the two replies \<open>dic_rthread_run\<close> returns the thread and \<open>dic_rthread_join\<close> the value, having sent
  exactly the two requests.\<close>

theorem remote_thread_end_to_end:
  fixes s :: node and u :: "'a net_scheme"
  assumes node: "talking conn c s out (request_bytes (Run f a) @ request_bytes (Join t) @ rest)" "mem_ok s" "H \<subseteq> dom (heap_of s)"
      "conn \<in> H" "stocked (request_memory (Run f a) @ request_memory (Join t)) s"
    and thread: "thread_choices s = (True, t) # ts" "threads s t = None"
    and client: "conversation D u" "D d = Some (c', out', reply_bytes (enc_word 8 t) @ reply_bytes (ptr_reply ret) @ rest')" "mem_ok u"
      "stocked (call_memory (Run f a) (enc_word 8 t) @ call_memory (Join t) (ptr_reply ret)) u"
  shows "\<exists>s1. dic_node_recv_send user conn s = Inr (0, s1) \<and>
    threads s1 = (threads s)(t \<mapsto> Running (unat f) (unat a)) \<and> heap_of s1 |` (- H) = heap_of s |` (- H) \<and>
    mem_ok s1 \<and> H \<subseteq> dom (heap_of s1) \<and> stocked (request_memory (Join t)) s1 \<and>
    talking conn c s1 (out @ reply_bytes (enc_word 8 t)) (request_bytes (Join t) @ rest) \<and>
    (\<forall>m. user (unat f) (unat a) \<lparr>blocks = blocks s1, choices = choices s1\<rparr> = Some (ret, m) \<and>
        mem_ok m \<and> H \<subseteq> dom (heap_of m) \<and> stocked (request_memory (Join t)) m \<longrightarrow>
      (\<exists>s2 s3. run_thread user t s1 = Some s2 \<and> dic_node_recv_send user conn s2 = Inr (0, s3) \<and>
        threads s3 = threads s \<and> heap_of s3 |` (- H) = heap_of m |` (- H) \<and>
        talking conn c s3 (out @ reply_bytes (enc_word 8 t) @ reply_bytes (ptr_reply ret)) rest)) \<and>
    (\<exists>u1 u2. dic_rthread_run \<lparr>r_ptr = f, r_device = d\<rparr> \<lparr>r_ptr = a, r_device = d'\<rparr> u = Inr (\<lparr>rt_tid = t, rt_device = d\<rparr>, u1) \<and>
      dic_rthread_join \<lparr>rt_tid = t, rt_device = d\<rparr> u1 = Inr (\<lparr>r_ptr = word_of_nat ret, r_device = d\<rparr>, u2) \<and>
      conversation (D(d \<mapsto> (c', out' @ request_bytes (Run f a) @ request_bytes (Join t), rest'))) u2)"
proof -
  obtain s1 rb where s1: "dic_node_recv_send user conn s = Inr (0, s1)" "exec (Run f a) (view_of H s) rb (view_of H s1)"
    "mem_ok s1" "stocked (request_memory (Join t)) s1" "H \<subseteq> dom (heap_of s1)"
    "talking conn c s1 (out @ reply_bytes rb) (request_bytes (Join t) @ rest)"
    by (rule quiet_talk [OF node(1-3) _ _ node(5)]) simp_all
  have sp: "spawn (unat f) (unat a) (view_of H s) =
      (t, (view_of H s)\<lparr>v_threads := (threads s)(t \<mapsto> Running (unat f) (unat a)), v_spawn := ts\<rparr>)"
    using thread by (simp add: spawn_def view_fields)
  have rb: "rb = enc_word 8 t" and v1: "view_of H s1 = (view_of H s)\<lparr>v_threads := (threads s)(t \<mapsto> Running (unat f) (unat a)), v_spawn := ts\<rparr>"
    using s1(2) sp by simp_all
  have th1: "threads s1 = (threads s)(t \<mapsto> Running (unat f) (unat a))" "heap_of s1 |` (- H) = heap_of s |` (- H)"
    using arg_cong [OF v1, of v_threads] arg_cong [OF v1, of v_heap] by (simp_all add: view_fields)
  have join: "\<exists>s2 s3. run_thread user t s1 = Some s2 \<and> dic_node_recv_send user conn s2 = Inr (0, s3) \<and>
        threads s3 = threads s \<and> heap_of s3 |` (- H) = heap_of m |` (- H) \<and>
        talking conn c s3 (out @ reply_bytes (enc_word 8 t) @ reply_bytes (ptr_reply ret)) rest"
    if m: "user (unat f) (unat a) \<lparr>blocks = blocks s1, choices = choices s1\<rparr> = Some (ret, m)" "mem_ok m" "H \<subseteq> dom (heap_of m)"
      "stocked (request_memory (Join t)) m" for m
  proof -
    let ?s2 = "s1\<lparr>blocks := blocks m, choices := choices m, threads := (threads s1)(t \<mapsto> Finished ret)\<rparr>"
    have run: "run_thread user t s1 = Some ?s2" using m(1) th1(1) by (simp add: run_thread_def)
    have h2: "heap_of ?s2 = heap_of m" "mem_ok ?s2" "H \<subseteq> dom (heap_of ?s2)" "stocked (request_memory (Join t) @ []) ?s2"
      using m(2-4) by (simp_all add: heap_of_def mem_ok_def stocked_def)
    have talk: "talking conn c ?s2 (out @ reply_bytes rb) (request_bytes (Join t) @ rest)"
      using s1(6) by (simp add: talking_def connected_def)
    obtain s3 rb' where s3: "dic_node_recv_send user conn ?s2 = Inr (0, s3)" "exec (Join t) (view_of H ?s2) rb' (view_of H s3)"
      "talking conn c s3 ((out @ reply_bytes rb) @ reply_bytes rb') rest"
      by (rule quiet_talk [OF talk h2(2,3) _ _ h2(4)]) (simp_all add: view_fields)
    have j: "rb' = ptr_reply ret" "view_of H s3 = (view_of H ?s2)\<lparr>v_threads := ((threads s1)(t \<mapsto> Finished ret))(t := None)\<rparr>"
      using s3(2) by (simp_all add: view_fields)
    have "threads s3 = threads s" using arg_cong [OF j(2), of v_threads] th1(1) thread(2) by (simp add: view_fields fun_upd_idem)
    moreover have "heap_of s3 |` (- H) = heap_of m |` (- H)" using arg_cong [OF j(2), of v_heap] h2(1) by (simp add: view_fields)
    ultimately show ?thesis using run s3(1,3) j(1) rb by auto
  qed
  have st: "stocked (call_memory (Run f a) (enc_word 8 t) @ call_memory (Join t) (ptr_reply ret) @ []) u" using client(4) by simp
  obtain u1 where u1: "dic_rthread_run \<lparr>r_ptr = f, r_device = d\<rparr> \<lparr>r_ptr = a, r_device = d'\<rparr> u = Inr (\<lparr>rt_tid = t, rt_device = d\<rparr>, u1)"
    "conversation (D(d \<mapsto> (c', out' @ request_bytes (Run f a), reply_bytes (ptr_reply ret) @ rest'))) u1" "mem_ok u1"
    "stocked (call_memory (Join t) (ptr_reply ret) @ []) u1"
    by (rule run_step [OF client(1-3) st])
  obtain u2 where u2: "dic_rthread_join \<lparr>rt_tid = t, rt_device = d\<rparr> u1 = Inr (\<lparr>r_ptr = word_of_nat ret, r_device = d\<rparr>, u2)"
    "conversation (D(d \<mapsto> (c', (out' @ request_bytes (Run f a)) @ request_bytes (Join t), rest'))) u2"
    by (rule join_step [OF u1(2) fun_upd_same u1(3,4), unfolded fun_upd_upd])
  show ?thesis using s1(1,3,4,5,6) rb th1 join u1(1) u2 by (intro exI [of _ s1]) auto
qed

text \<open>A node on which a client runs the identity, and waits for it.\<close>

definition identity_code :: user_code where
  "identity_code func arg m = Some (arg, m)"

definition running_node :: node where
  "running_node = (example_node [1, 2] (two_chunks (request_bytes (Run 7 2000) @ request_bytes (Join 9)))
     (map (\<lambda>i. (3000 + 100 * i, replicate 24 0)) [0..<6]))\<lparr>thread_choices := [(True, 9)]\<rparr>"

definition running_client :: client where
  "running_client = example_client [1] [reply_bytes (enc_word 8 (9 :: u64)) @ reply_bytes (ptr_reply 2000)]
     (map (\<lambda>i. (3000 + 100 * i, replicate 24 0)) [0..<6])"

lemma running_memory:
  "stocked (request_memory (Run 7 2000) @ request_memory (Join 9)) running_node"
  "stocked (call_memory (Run 7 2000) (enc_word 8 (9 :: u64)) @ call_memory (Join 9) (ptr_reply 2000)) running_client"
proof -
  have "serves [(1000, replicate 200 0), (2000, [1, 2])] [8, 16, 12, 8, 8, 12] (map (\<lambda>i. (3000 + 100 * i, replicate 24 0)) [0..<6])"
    "serves [(1000, replicate 200 0), (2000, [1])] [24, 4, 8, 16, 4, 8] (map (\<lambda>i. (3000 + 100 * i, replicate 24 0)) [0..<6])"
    by (simp_all add: upt_rec_numeral upt_rec)
  then show "stocked (request_memory (Run 7 2000) @ request_memory (Join 9)) running_node"
    "stocked (call_memory (Run 7 2000) (enc_word 8 (9 :: u64)) @ call_memory (Join 9) (ptr_reply 2000)) running_client"
    by (simp_all add: running_node_def running_client_def example_client_def example_node_def stocked_def request_memory_def
        call_memory_def length_request_bytes layout_lengths)
qed

theorem remote_thread_end_to_end_witness:
  "\<exists>s1 s2 s3 u1 u2. dic_node_recv_send identity_code 1000 running_node = Inr (0, s1) \<and> threads s1 9 = Some (Running 7 2000) \<and>
    run_thread identity_code 9 s1 = Some s2 \<and> dic_node_recv_send identity_code 1000 s2 = Inr (0, s3) \<and> threads s3 = Map.empty \<and>
    dic_rthread_run \<lparr>r_ptr = 7, r_device = 1000\<rparr> \<lparr>r_ptr = 2000, r_device = 1000\<rparr> running_client = Inr (\<lparr>rt_tid = 9, rt_device = 1000\<rparr>, u1) \<and>
    dic_rthread_join \<lparr>rt_tid = 9, rt_device = 1000\<rparr> u1 = Inr (\<lparr>r_ptr = 2000, r_device = 1000\<rparr>, u2)"
proof -
  let ?D = "[1000 \<mapsto> (example_conn, [], reply_bytes (enc_word 8 (9 :: u64)) @ reply_bytes (ptr_reply 2000) @ [])]"
  let ?kn = "example_sock (two_chunks (request_bytes (Run 7 2000) @ request_bytes (Join 9)))"
  let ?kc = "example_sock [reply_bytes (enc_word 8 (9 :: u64)) @ reply_bytes (ptr_reply 2000)]"
  have "connected 1000 example_conn ?kn running_node"
    by (simp add: running_node_def connected_def length_request_bytes layout_lengths) (simp add: example_node_def example_conn_def)
  then have talk: "talking 1000 example_conn running_node [] (request_bytes (Run 7 2000) @ request_bytes (Join 9) @ [])"
    unfolding talking_def by (intro exI [of _ ?kn]) (simp add: length_request_bytes layout_lengths)
  have node: "mem_ok running_node" "{1000} \<subseteq> dom (heap_of running_node)" "thread_choices running_node = (True, 9) # []"
    "threads running_node = Map.empty" by (simp_all add: running_node_def example_node_def mem_ok_def heap_of_def)
  have ok: "mem_ok running_client" by (simp add: running_client_def)
  have "connected 1000 example_conn ?kc running_client" by (simp add: running_client_def)
  then have "talking 1000 example_conn running_client [] (reply_bytes (enc_word 8 (9 :: u64)) @ reply_bytes (ptr_reply 2000))"
    unfolding talking_def by (intro exI [of _ ?kc]) (simp add: example_sock_def)
  then have conv: "conversation ?D running_client" by (simp add: conversation_def)
  have th: "threads running_node 9 = None" using node(4) by simp
  from remote_thread_end_to_end [OF talk node(1,2) singletonI running_memory(1) node(3) th conv fun_upd_same ok running_memory(2),
      where user = identity_code and d' = 1000]
  obtain s1 u1 u2 where s1: "dic_node_recv_send identity_code 1000 running_node = Inr (0, s1)"
      "threads s1 = (threads running_node)(9 \<mapsto> Running (unat (7 :: u64)) (unat (2000 :: u64)))"
      "mem_ok s1" "{1000} \<subseteq> dom (heap_of s1)" "stocked (request_memory (Join 9)) s1"
    and go: "\<forall>m. identity_code (unat (7 :: u64)) (unat (2000 :: u64)) \<lparr>blocks = blocks s1, choices = choices s1\<rparr> = Some (2000, m) \<and>
        mem_ok m \<and> {1000} \<subseteq> dom (heap_of m) \<and> stocked (request_memory (Join 9)) m \<longrightarrow>
      (\<exists>s2 s3. run_thread identity_code 9 s1 = Some s2 \<and> dic_node_recv_send identity_code 1000 s2 = Inr (0, s3) \<and>
        threads s3 = threads running_node \<and> heap_of s3 |` (- {1000}) = heap_of m |` (- {1000}) \<and>
        talking 1000 example_conn s3 ([] @ reply_bytes (enc_word 8 (9 :: u64)) @ reply_bytes (ptr_reply 2000)) [])"
    and u: "dic_rthread_run \<lparr>r_ptr = 7, r_device = 1000\<rparr> \<lparr>r_ptr = 2000, r_device = 1000\<rparr> running_client = Inr (\<lparr>rt_tid = 9, rt_device = 1000\<rparr>, u1)"
      "dic_rthread_join \<lparr>rt_tid = 9, rt_device = 1000\<rparr> u1 = Inr (\<lparr>r_ptr = word_of_nat 2000, r_device = 1000\<rparr>, u2)" by blast
  let ?m = "\<lparr>blocks = blocks s1, choices = choices s1\<rparr>"
  have "identity_code (unat (7 :: u64)) (unat (2000 :: u64)) ?m = Some (2000, ?m)" "mem_ok ?m" "{1000} \<subseteq> dom (heap_of ?m)"
    "stocked (request_memory (Join 9)) ?m"
    using s1(3-5) by (simp_all add: identity_code_def mem_ok_def heap_of_def stocked_def)
  with go obtain s2 s3 where "run_thread identity_code 9 s1 = Some s2" "dic_node_recv_send identity_code 1000 s2 = Inr (0, s3)"
    "threads s3 = threads running_node" by blast
  with s1(1,2) u node(4) show ?thesis by (intro exI [of _ s1] exI [of _ s2] exI [of _ s3] exI [of _ u1] exI [of _ u2]) simp
qed

end
