(* ===== verification/Node_Waits.thy ===== *)
theory Node_Waits
  imports Node_Loop Waiting
begin

text \<open>
  Where a compute node can wait for ever: in \<open>recv\<close>, while the client neither sends nor ends its stream, and in
  \<open>pthread_join\<close>, when the function of a thread never returns. When the stream ends and the functions return, the
  loop that serves the client comes to its end, whatever the stream holds.
\<close>

section \<open>The handlers\<close>

lemma node_calls_never_wait [simp]:
  "\<not> waits (c_asprintf t m)" "\<not> waits (RESP_SET_HEAD r m)" "\<not> waits (c_dlclose h s)" "\<not> waits (c_dlsym h t s)"
  by (auto simp: c_asprintf_def RESP_SET_HEAD_def waits_bind Let_def c_dlclose_def c_dlsym_def split: prod.split option.split)

text \<open>Functions that return.\<close>

definition returning :: "user_code \<Rightarrow> bool" where
  "returning user \<longleftrightarrow> (\<forall>func arg m. user func arg m \<noteq> None)"

lemma join_waits: "returning user \<Longrightarrow> \<not> waits (c_pthread_join user t s)"
  by (auto simp: waits_def c_pthread_join_def run_thread_def returning_def split: option.splits thread.splits)
    (metis option.distinct(1))

lemma dispatch_waits: "returning user \<Longrightarrow> \<not> waits (dispatch user opc body s)"
  by (simp add: dispatch_def handle_malloc_def handle_realloc_def handle_free_def handle_memcpy_c2n_def handle_memcpy_n2c_def
      handle_so_load_def handle_so_unload_def handle_so_upload_def handle_func_load_def handle_run_def handle_join_def
      join_waits waits_bind Let_def split: prod.split)

lemma ending_same_net: "same_net s t \<Longrightarrow> ending conn t = ending conn s"
  using ending_cong [of t s] by (simp add: same_net_def)

section \<open>The loop ends\<close>

lemma dic_node_recv_send_ending:
  assumes "returning user" "ending conn s"
  shows "\<not> waits (dic_node_recv_send user conn s)" "dic_node_recv_send user conn s = Inr (0, t) \<Longrightarrow> ending conn t"
proof -
  have al: "ending conn s0" if "c_alloca n s = Inr (h, s0)" for n h s0
  proof -
    have "same_net s s0" using that by (auto simp: c_alloca_def Let_def split: prod.splits if_splits dest: calls_same_net(1))
    with assms(2) show ?thesis by (simp add: ending_same_net)
  qed
  have ma: "ending conn s2" if "c_malloc n s1 = (b, s2)" "ending conn s1" for n b and s1 s2 :: "'a node_scheme"
    using ending_same_net [OF calls_same_net(1) [OF that(1)]] that(2) by simp
  note recv = dic_conn_recv_ending(2) [rotated]
  show "\<not> waits (dic_node_recv_send user conn s)"
    unfolding dic_node_recv_send_def
    by (auto simp: waits_bind Let_def dispatch_waits [OF assms(1)] dic_conn_recv_ending(1) split: prod.split
        dest!: al ma dest: recv)
  assume "dic_node_recv_send user conn s = Inr (0, t)"
  then obtain head s0 s1 body n opc s2 s3 msg s4 s5 s6 s7 where
    a: "c_alloca sizeof_dic_req_head_generic s = Inr (head, s0)" "dic_conn_recv conn head (word_of_nat sizeof_dic_req_head_generic) False s0 = Inr (0, s1)"
      "c_malloc (unat (n :: u32)) s1 = (body, s2)" "dic_conn_recv conn body n False s2 = Inr (0, s3)"
    and b: "dispatch user opc body s3 = Inr (msg, s4)"
      "s5 = s4 \<or> (\<exists>z. dic_conn_send conn (fst msg) (snd msg) s4 = Inr (z, s5))"
      "c_free body s5 = Inr s6" "c_free (fst msg) s6 = Inr s7" "t = del_block head s7"
    unfolding dic_node_recv_send_def by (fastforce elim!: bindR_InrE split: prod.splits if_splits)
  have s3: "ending conn s3" using recv [OF a(4) ma [OF a(3) recv [OF a(2) al [OF a(1)]]]] .
  have "same_net s3 s4" using dispatch_same_net [OF b(1)] by (simp add: same_net_def)
  then have "ending conn s5" using s3 b(2) dic_conn_send_ending [of conn _ _ s4 _ s5] by (auto simp: ending_same_net)
  moreover have "same_net s5 t"
    using calls_same_net(4) [OF b(3)] calls_same_net(4) [OF b(4)] b(5) by (auto simp: same_net_def del_block_def)
  ultimately show "ending conn t" by (simp add: ending_same_net)
qed

lemma session_never_waits:
  assumes "client_handling_loop user conn s = Some out"
  shows "returning user \<longrightarrow> ending conn s \<longrightarrow> \<not> waits out"
proof (rule client_handling_loop.raw_induct [OF _ assms], intro impI)
  fix loop user conn s out
  assume IH: "\<And>user conn s out. loop user conn s = Some out \<Longrightarrow> returning user \<longrightarrow> ending conn s \<longrightarrow> \<not> waits out"
    and run: "(case dic_node_recv_send user conn s of Inl e \<Rightarrow> Some (Inl e)
      | Inr (res, s') \<Rightarrow> if res = 0 then loop user conn s' else Some (Inr (res, s'))) = Some out"
    and u: "returning user" and s: "ending conn s"
  note step = dic_node_recv_send_ending [OF u s]
  show "\<not> waits out"
  proof (cases "dic_node_recv_send user conn s")
    case (Inl e)
    with run step(1) show ?thesis by auto
  next
    case (Inr x)
    obtain res t where x: "x = (res, t)" by (cases x)
    show ?thesis
    proof (cases "res = 0")
      case True
      with run Inr x have "loop user conn t = Some out" by simp
      with IH u step(2) True Inr x show ?thesis by blast
    qed (use run Inr x in auto)
  qed
qed

end
