(* ===== verification/Spec2Isabelle.thy ===== *)
theory Spec2Isabelle
  imports Client_Properties Connection_Lock Main_Mutex Search_Node Node_Manager Remote_Threads Node_Waits
begin

text \<open>
  DiCoN, a toolkit for distributed computing in C. \<^emph>\<open>Compute nodes\<close> (\<open>node/\<close>) offer their memory and their
  processor: a client allocates, copies, uploads shared objects, loads functions, starts threads and
  joins them, each with one request on a TCP connection that is answered by one reply. The \<^emph>\<open>client
  library\<close> (\<open>diconlib/\<close>) wraps every request in a C function. The \<^emph>\<open>main server\<close> (\<open>main-server/\<close>) keeps a list of
  the nodes that are online: nodes announce themselves on a connection that stays open, applications ask
  for the list. \<open>common/\<close> holds the connection layer, the two wire protocols and a checksum, \<open>demo/\<close>
  applications, \<open>node-manager/\<close> a program that keeps a node running.

  \<^bold>\<open>Foundations.\<close> Dicon_Prelude: machine integers, faults as values of a sum type, byte images of integers, C
  strings. C_Memory: the memory of one process as a list of objects with an allocator whose answers are
  part of the state, so statements hold for every allocator, a failing one included; loads and stores
  outside every object are faults. Allocations follows the allocator through calls: what one leaves is there for the next. The contract of such a store is the locale \<open>object_store\<close>.

  \<^bold>\<open>Connection layer.\<close> Sockets models \<open>common/src/dicon_sockets.c\<close> over a TCP interface: a socket delivers its bytes
  in chunks cut anywhere, may end or be reset, and the answers of \<open>socket\<close>, \<open>connect\<close>, \<open>bind\<close>, \<open>listen\<close> and
  \<open>accept\<close> are part of the state; a history of closed sockets keeps what was sent on them. Sockets_Correct and Socket_Properties: exact receives for every
  chunking, streams that end, the life of a connection structure, dotted addresses. The fields of a connection are kept beside
  the bytes of its object, so statements in which a client names addresses ask that the connection is not one of them (\<open>conn \<in> H\<close>). Waiting collects
  which calls can wait for ever, and that none does once the peer has ended its stream.

  \<^bold>\<open>Protocols.\<close> Protocol models \<open>dicon_protocol.h\<close> and \<open>dicon_main_server_protocol.h\<close>: a record and a byte layout for
  every packed structure, each an instance of the locale \<open>packed\<close>. So_Operations models the checksum.

  \<^bold>\<open>Compute node.\<close> Node models \<open>node_client_communication.c\<close>: the response builder, a function per handler, the
  \<open>switch\<close> and \<open>dic_node_recv_send\<close>; files, the dynamic loader and threads are parts of the process state, and
  the code of uploaded libraries is the parameter \<open>user\<close>. Node_Spec is the specification without buffers and
  bytes (\<open>exec\<close>, \<open>allowed\<close>); Node_Correct proves every handler against it through the locale \<open>node_handler\<close>;
  Node_Loop models the loops of \<open>node/src/main.c\<close> and proves sessions, early ends and faults; Node_Waits shows where the
  loop can wait for ever; Node_Stock shows what memory a node takes for requests that create no object, so
  that a whole session of them needs only memory at its start; Node_Process models
  options, the retry loop and \<open>main\<close>; Node_Properties states the guarantees with concrete nodes.

  \<^bold>\<open>Client library.\<close> Client models \<open>client_node_communication.c\<close>: request builders, \<open>dic_atomic_send_recv\<close> and every
  call; Client_Correct proves them through the locale \<open>request_builder\<close>; Client_Stock shows what a call takes from
  the allocator, so that calls can follow each other. Rpc composes client and node into
  statements about remote memory; Remote_Threads follows a thread from its start through the run of its function to
  the join, on both sides; Client_Properties adds concrete clients. Connection_Lock models the two mutexes of \<open>dic_atomic_send_recv\<close> as a step
  relation over any number of threads, on a stream that may end at any time: no thread gets another one's reply, and every call returns.

  \<^bold>\<open>Main server.\<close> Main_Server models the list, the two handlers and the connection thread of
  \<open>main-server/src/main.c\<close>; Main_Server_Correct relates the list to a sequence of nodes; Main_Server_Links shows
  that the links survive announcements and departures in any order; Main_Frame says what a pass of a
  connection thread leaves alone, whatever bytes arrive; Main_Process models \<open>main\<close>, the listening loop and the
  interleaving of all threads as a step relation, and proves its invariant, that threads end cleanly and,
  with Main_Waits, that every pass returns once its peer has ended the stream. Main_Mutex adds the holder of \<open>NODES_INFO_MUT\<close>: its steps are steps of
  Main_Process, and a peer that sends half an announcement blocks the server. Main_Clients models the announcement of
  a node and the query of an application; Main_Rpc and Main_Properties compose both ends.

  \<^bold>\<open>Applications.\<close> Work_Split, Find_Primes and Hash_Cracker model the code the demos run on the nodes and the
  division of their ranges, and what the parts find together (the memory of the prime search is followed through each \<open>realloc\<close>,
  so that its failures are exactly those of the allocator); Demo_Programs models the demo programs themselves as users of the client
  library, and Conversation puts calls to several nodes in sequence through the locale \<open>client_call\<close>, and Demo_Properties
  uses it to show that the search sends every node the right requests and counts all primes; Search_Node shows the other
  end, that a node whose threads have searched their parts sends exactly the replies this count rests on;
  Node_Manager models the options, the command line and the loop of the node manager. Getopt is the \<open>getopt\<close> of the C library that the programs share.

  \<^bold>\<open>Bounds and loops.\<close> Loops whose end depends on the peer or on the shape of a list are partial functions in the
  option type, where running forever is \<open>None\<close>; that they return is proved. The other loops are total
  functions with a termination measure. No fuel is used. Sizes below 1 GiB (some: 512 MiB) are the limits
  under which \<open>int\<close> arithmetic on message sizes does not wrap; they are hypotheses where they matter.

  \<^bold>\<open>Not modelled.\<close> Log output, help texts and the logging level; the prototype of asynchronous calls, which is not
  compiled; \<open>setsockopt\<close>; the queue fields of a
  connection, which no code uses; partial sends (\<open>send\<close> takes everything or fails); the memory effects of user
  threads while they run (a thread takes effect when it finishes, between two requests).
\<close>

section \<open>Termination of the node\<close>



end
